(* ===== verification/Prelude.thy ===== *)
theory Prelude
  imports Main "HOL-Library.Word"
begin

text \<open>
  Shared material of the development: the collections that the component proofs use as
  simplification sets, the C integer conversions the programs rely on, and the generic
  list lemmas.

  \<^item> \<open>run_simps\<close>: symbolic execution of the statements of theory \<open>Sys\<close>;
  \<^item> \<open>obs_simps\<close>: what a state transformer does to the observable parts of a process
    (replies left, text printed, calls made);
  \<^item> \<open>defined_intros\<close>: statements that never run into undefined behaviour.
\<close>

named_theorems run_simps
named_theorems obs_simps
named_theorems defined_intros

subsection \<open>C integers\<close>

text \<open>
  \<open>int32 v\<close> is the conversion to a 32-bit \<^verbatim>\<open>int\<close>, which wraps around, and
  \<open>c_div\<close>, \<open>c_rem\<close> are C's division and remainder, which truncate towards zero.
\<close>

definition int32 :: "int \<Rightarrow> int" where
  "int32 v = (v + 2147483648) mod 4294967296 - 2147483648"

definition c_div :: "int \<Rightarrow> int \<Rightarrow> int" where
  "c_div a b = sgn a * sgn b * (\<bar>a\<bar> div \<bar>b\<bar>)"

definition c_rem :: "int \<Rightarrow> int \<Rightarrow> int" where
  "c_rem a b = a - b * c_div a b"

definition INT_MIN :: int where "INT_MIN = -2147483648"
definition INT_MAX :: int where "INT_MAX = 2147483647"
definition LONG_MIN :: int where "LONG_MIN = -9223372036854775808"
definition LONG_MAX :: int where "LONG_MAX = 9223372036854775807"

lemmas int_limits = INT_MIN_def INT_MAX_def LONG_MIN_def LONG_MAX_def

lemma int32_range: "INT_MIN \<le> int32 v" "int32 v \<le> INT_MAX"
  by (simp_all add: int32_def int_limits)

lemma int32_id: "INT_MIN \<le> v \<Longrightarrow> v \<le> INT_MAX \<Longrightarrow> int32 v = v"
  by (simp add: int32_def int_limits)

lemma int32_idem [simp]: "int32 (int32 v) = int32 v"
  by (rule int32_id) (rule int32_range)+

lemma c_div_nonneg: "0 \<le> a \<Longrightarrow> 0 < b \<Longrightarrow> c_div a b = a div b"
  by (cases "a = 0") (simp_all add: c_div_def)

lemma c_rem_nonneg: "0 \<le> a \<Longrightarrow> 0 < b \<Longrightarrow> c_rem a b = a mod b"
  by (simp add: c_rem_def c_div_nonneg minus_mult_div_eq_mod)

lemma c_div_neg: "a \<le> 0 \<Longrightarrow> 0 < b \<Longrightarrow> c_div a b = - ((- a) div b)"
  by (cases "a = 0") (simp_all add: c_div_def)

lemma c_rem_neg: "a \<le> 0 \<Longrightarrow> 0 < b \<Longrightarrow> c_rem a b = - ((- a) mod b)"
  by (simp add: c_rem_def c_div_neg minus_mult_div_eq_mod [symmetric])

subsection \<open>Lists\<close>

lemma takeWhile_all: "(\<And>x. x \<in> set xs \<Longrightarrow> P x) \<Longrightarrow> takeWhile P xs = xs"
  by (simp add: takeWhile_eq_all_conv)

lemma split_at_first:
  assumes "\<exists>x \<in> set xs. P x"
  obtains ys z zs where "xs = ys @ z # zs" "P z" "\<And>y. y \<in> set ys \<Longrightarrow> \<not> P y"
  using split_list_first_prop [OF assms] by blast

lemma foldl_append_distrib:
  "foldl (\<lambda>a x. a @ f x) b xs = b @ concat (map f xs)"
  by (induction xs arbitrary: b) simp_all

end
