(* ===== verification/CLib.thy ===== *)
theory CLib
  imports Prelude
begin

text \<open>
  The part of the C library the programs use on strings: the conversions of
  \<^verbatim>\<open>printf\<close> (\<^verbatim>\<open>%d\<close>, \<^verbatim>\<open>%x\<close>, \<^verbatim>\<open>%02x\<close>, field widths), \<^verbatim>\<open>atoi\<close>,
  and strings held in byte buffers, where the text ends at the first NUL byte.
  A byte is a \<open>char\<close>, a buffer is a \<open>char list\<close> of the array's length.
\<close>

subsection \<open>Numbers as text\<close>

definition digit :: "nat \<Rightarrow> char" where
  "digit d = (if d < 10 then char_of (48 + d) else char_of (87 + d))"

function radix :: "nat \<Rightarrow> nat \<Rightarrow> string" where
  "radix b n = (if b < 2 \<or> n < b then [digit n] else radix b (n div b) @ [digit (n mod b)])"
  by pat_completeness auto
termination
  by (relation "measure snd") auto

declare radix.simps [simp del]

definition fmt_u :: "nat \<Rightarrow> string" where
  "fmt_u n = radix 10 n"

definition fmt_d :: "int \<Rightarrow> string" where
  "fmt_d i = (if i < 0 then CHR ''-'' # fmt_u (nat (- i)) else fmt_u (nat i))"

text \<open>\<^verbatim>\<open>%x\<close> reads its argument as an \<^verbatim>\<open>unsigned int\<close>, \<^verbatim>\<open>%lx\<close> as an \<^verbatim>\<open>unsigned long\<close>.\<close>

definition fmt_x :: "int \<Rightarrow> string" where
  "fmt_x i = radix 16 (nat (i mod 2 ^ 32))"

definition fmt_lx :: "int \<Rightarrow> string" where
  "fmt_lx i = radix 16 (nat (i mod 2 ^ 64))"

text \<open>\<^verbatim>\<open>%p\<close> in glibc.\<close>

definition fmt_p :: "int \<Rightarrow> string" where
  "fmt_p a = (if a = 0 then ''(nil)'' else ''0x'' @ fmt_lx a)"

definition pad_left :: "char \<Rightarrow> nat \<Rightarrow> string \<Rightarrow> string" where
  "pad_left c w t = replicate (w - length t) c @ t"

definition pad_right :: "nat \<Rightarrow> string \<Rightarrow> string" where
  "pad_right w t = t @ replicate (w - length t) CHR '' ''"

definition fmt_02x :: "int \<Rightarrow> string" where
  "fmt_02x i = pad_left CHR ''0'' 2 (fmt_x i)"

text \<open>\<^verbatim>\<open>%0wd\<close>: zeroes go between the sign and the digits.\<close>

definition fmt_0d :: "nat \<Rightarrow> int \<Rightarrow> string" where
  "fmt_0d w i = (if i < 0 then CHR ''-'' # pad_left CHR ''0'' (w - 1) (fmt_u (nat (- i)))
     else pad_left CHR ''0'' w (fmt_u (nat i)))"

subsection \<open>\<^verbatim>\<open>atoi\<close>\<close>

definition is_digit :: "char \<Rightarrow> bool" where
  "is_digit c \<longleftrightarrow> 48 \<le> (of_char c :: nat) \<and> (of_char c :: nat) \<le> 57"

definition is_space :: "char \<Rightarrow> bool" where
  "is_space c \<longleftrightarrow> (of_char c :: nat) = 32 \<or> (9 \<le> (of_char c :: nat) \<and> (of_char c :: nat) \<le> 13)"

definition digits_val :: "string \<Rightarrow> int" where
  "digits_val t = foldl (\<lambda>a c. 10 * a + (of_char c - 48)) 0 (takeWhile is_digit t)"

definition strtol10 :: "string \<Rightarrow> int" where
  "strtol10 t = (let u = dropWhile is_space t in
     case u of [] \<Rightarrow> 0
     | c # cs \<Rightarrow> max LONG_MIN (min LONG_MAX
         (if c = CHR ''-'' then - digits_val cs
          else if c = CHR ''+'' then digits_val cs
          else digits_val u)))"

text \<open>glibc's \<^verbatim>\<open>atoi\<close> is \<^verbatim>\<open>(int) strtol(s, NULL, 10)\<close>; here with a 64-bit \<^verbatim>\<open>long\<close>.\<close>

definition atoi :: "string \<Rightarrow> int" where
  "atoi t = int32 (strtol10 t)"

subsection \<open>NUL-terminated buffers\<close>

definition NUL :: char where "NUL = CHR 0x00"

definition cstr :: "string \<Rightarrow> string" where
  "cstr b = takeWhile (\<lambda>c. c \<noteq> NUL) b"

definition terminated :: "string \<Rightarrow> bool" where
  "terminated b \<longleftrightarrow> NUL \<in> set b"

definition strlen :: "string \<Rightarrow> nat" where
  "strlen b = length (cstr b)"

text \<open>\<open>overwrite b t\<close>: the bytes \<open>t\<close> are stored at the start of the buffer \<open>b\<close>
  (what \<^verbatim>\<open>read\<close>, \<^verbatim>\<open>sprintf\<close> and \<^verbatim>\<open>memset\<close> do); the rest of the buffer keeps its bytes.\<close>

definition overwrite :: "string \<Rightarrow> string \<Rightarrow> string" where
  "overwrite b t = t @ drop (length t) b"

subsection \<open>Program arguments\<close>

text \<open>\<^verbatim>\<open>printf("%s", argv[0])\<close>; an empty argument vector has a null pointer there.\<close>

definition arg0 :: "string list \<Rightarrow> string" where
  "arg0 argv = (case argv of [] \<Rightarrow> ''(null)'' | a # _ \<Rightarrow> a)"

definition argc :: "string list \<Rightarrow> int" where
  "argc argv = int (length argv)"

subsection \<open>Lemmas\<close>

lemma digit_simps [simp]:
  "digit 0 = CHR ''0''"
  "digit (Suc 0) = CHR ''1''"
  "digit 2 = CHR ''2''"
  "digit 3 = CHR ''3''"
  "digit 4 = CHR ''4''"
  "digit 5 = CHR ''5''"
  "digit 6 = CHR ''6''"
  "digit 7 = CHR ''7''"
  "digit 8 = CHR ''8''"
  "digit 9 = CHR ''9''"
  "digit 10 = CHR ''a''"
  "digit 11 = CHR ''b''"
  "digit 12 = CHR ''c''"
  "digit 13 = CHR ''d''"
  "digit 14 = CHR ''e''"
  "digit 15 = CHR ''f''"
  by code_simp+

lemma digit_code: "d < 10 \<Longrightarrow> of_char (digit d) = (48 + d :: nat)"
  by (simp add: digit_def)

lemma digit_code_int: "d < 10 \<Longrightarrow> of_char (digit d) = (48 + int d)"
  using digit_code [of d] by (metis of_nat_add of_nat_numeral of_nat_of_char)

lemma digit_is_digit: "d < 10 \<Longrightarrow> is_digit (digit d)"
  by (simp add: is_digit_def digit_code)

lemma digit_not_sign: "d < 10 \<Longrightarrow> digit d \<noteq> CHR ''-'' \<and> digit d \<noteq> CHR ''+''"
  using digit_code [of d] by auto

lemma digit_not_space: "d < 10 \<Longrightarrow> \<not> is_space (digit d)"
  by (simp add: is_space_def digit_code)

lemma digit_not_NUL: "d < 10 \<Longrightarrow> digit d \<noteq> NUL"
  using digit_code [of d] by (auto simp: NUL_def)

lemma radix_nonempty [simp]: "radix b n \<noteq> []"
  by (subst radix.simps) simp

lemma radix_digits: "c \<in> set (radix 10 n) \<Longrightarrow> \<exists>d < 10. c = digit d"
proof (induction "10 :: nat" n rule: radix.induct)
  case (1 n)
  have "n mod 10 < 10"
    by simp
  then have "\<exists>d < 10. digit (n mod 10) = digit d"
    by blast
  with 1 show ?case
    by (subst (asm) (2) radix.simps) (auto split: if_splits)
qed

lemma fmt_u_digits: "c \<in> set (fmt_u n) \<Longrightarrow> is_digit c"
  using radix_digits [of c n] digit_is_digit by (auto simp: fmt_u_def)

lemma fmt_u_no_NUL: "NUL \<notin> set (fmt_u n)"
  using radix_digits [of NUL n] digit_not_NUL by (fastforce simp: fmt_u_def)

lemma fmt_d_no_NUL: "NUL \<notin> set (fmt_d i)"
  using fmt_u_no_NUL by (auto simp: fmt_d_def NUL_def)

lemma digits_val_foldl:
  "foldl (\<lambda>a c. 10 * a + (of_char c - 48)) 0 (radix 10 n) = int n"
proof (induction "10 :: nat" n rule: radix.induct)
  case (1 n)
  show ?case
  proof (cases "n < 10")
    case True
    then show ?thesis
      by (subst radix.simps) (simp add: digit_code_int)
  next
    case False
    with 1 show ?thesis
      by (subst radix.simps) (simp add: digit_code_int zdiv_int zmod_int)
  qed
qed

lemma digits_val_fmt_u: "digits_val (fmt_u n) = int n"
  using fmt_u_digits digits_val_foldl
  by (simp add: digits_val_def takeWhile_all fmt_u_def)

lemma fmt_u_Cons:
  obtains d cs where "fmt_u n = digit d # cs" "d < 10"
proof (cases "fmt_u n")
  case Nil
  then show ?thesis by (simp add: fmt_u_def)
next
  case (Cons c cs)
  then have "c \<in> set (radix 10 n)"
    by (simp add: fmt_u_def)
  with radix_digits Cons that show ?thesis by blast
qed

lemma strtol10_fmt_d:
  assumes "LONG_MIN \<le> i" "i \<le> LONG_MAX"
  shows "strtol10 (fmt_d i) = i"
proof (cases "i < 0")
  case True
  with assms show ?thesis
    by (simp add: strtol10_def fmt_d_def digits_val_fmt_u is_space_def)
next
  case False
  obtain d cs where u: "fmt_u (nat i) = digit d # cs" and d: "d < 10"
    by (rule fmt_u_Cons)
  from digits_val_fmt_u [of "nat i"] False have "digits_val (digit d # cs) = i"
    by (simp add: u)
  with False assms d show ?thesis
    by (simp add: strtol10_def fmt_d_def u digit_not_space digit_not_sign)
qed

text \<open>Printing an \<^verbatim>\<open>int\<close> with \<^verbatim>\<open>%d\<close> and reading it back with \<^verbatim>\<open>atoi\<close>.\<close>

lemma atoi_fmt_d:
  assumes "INT_MIN \<le> i" "i \<le> INT_MAX"
  shows "atoi (fmt_d i) = i"
  using assms strtol10_fmt_d [of i] by (simp add: atoi_def int32_id int_limits)

lemma atoi_range: "INT_MIN \<le> atoi t" "atoi t \<le> INT_MAX"
  by (simp_all add: atoi_def int32_range)

lemma length_pad_left: "length (pad_left c w t) = max w (length t)"
  by (simp add: pad_left_def)

lemma length_overwrite: "length t \<le> length b \<Longrightarrow> length (overwrite b t) = length b"
  by (simp add: overwrite_def)

lemma cstr_append_NUL: "NUL \<notin> set t \<Longrightarrow> cstr (t @ NUL # b) = t"
  by (auto simp: cstr_def takeWhile_append)

lemma cstr_append: "NUL \<notin> set t \<Longrightarrow> cstr (t @ b) = t @ cstr b"
  by (auto simp: cstr_def takeWhile_append)

lemma cstr_no_NUL: "NUL \<notin> set (cstr b)"
  using set_takeWhileD by (fastforce simp: cstr_def)

lemma cstr_take: "cstr b = take (strlen b) b"
  unfolding cstr_def strlen_def by (rule takeWhile_eq_take)

lemma cstr_update_NUL:
  assumes "k \<le> strlen b" "k < length b"
  shows "cstr (b[k := NUL]) = take k (cstr b)"
proof -
  have t: "take k b = take k (cstr b)"
    using assms(1) by (simp add: cstr_take min_absorb1)
  then have "NUL \<notin> set (take k b)"
    using cstr_no_NUL set_take_subset by (metis in_mono)
  then show ?thesis
    using assms(2) by (simp add: upd_conv_take_nth_drop cstr_append_NUL t)
qed

lemma strlen_le: "strlen b \<le> length b"
  by (simp add: strlen_def cstr_def length_takeWhile_le)

lemma strlen_less: "terminated b \<Longrightarrow> strlen b < length b"
  unfolding strlen_def cstr_def terminated_def
  by (metis (mono_tags, lifting) length_takeWhile_le le_neq_implies_less takeWhile_eq_all_conv takeWhile_eq_take take_all)

end
