(* ===== verification/Sys.thy ===== *)
theory Sys
  imports CLib
begin

text \<open>
  The programs as processes talking to a kernel.

  The kernel is not part of the repository, so it is a parameter: a process is run on the
  list of replies its calls will get (field \<open>answers\<close>). A theorem about every list of
  replies is a theorem about every kernel, scheduler and environment; what a documented
  kernel guarantees is written as a hypothesis on the replies. A run that has used up its
  replies stops as \<open>Blocked c\<close>, where \<open>c\<close> is the call it is waiting in, so finite
  prefixes of runs that never end are covered too.

  Standard output is the C library's buffered stream: \<^verbatim>\<open>printf\<close> fills the buffer,
  \<^verbatim>\<open>fflush\<close>, \<^verbatim>\<open>exit\<close> and (depending on the buffering mode) \<^verbatim>\<open>printf\<close> itself
  write it out, which is an \<open>Out\<close> event of the trace.
\<close>

subsection \<open>Calls, replies, events\<close>

text \<open>
  A call is the name of the C function with the arguments the kernel sees; the calls the
  programs make are named below by abbreviations.
\<close>

datatype arg = I int | S string | SL "string list"

datatype call = Call string "arg list"

abbreviation "Fork \<equiv> Call ''fork'' []"
abbreviation "Waitpid pid opts \<equiv> Call ''waitpid'' [I pid, I opts]"
abbreviation "Wait \<equiv> Call ''wait'' []"
abbreviation "Execve path argv envp \<equiv> Call ''execve'' [S path, SL argv, SL envp]"
abbreviation "System cmd \<equiv> Call ''system'' [S cmd]"
abbreviation "Sleep secs \<equiv> Call ''sleep'' [I secs]"
abbreviation "Malloc n \<equiv> Call ''malloc'' [I n]"
abbreviation "Getpid \<equiv> Call ''getpid'' []"
abbreviation "Getppid \<equiv> Call ''getppid'' []"
abbreviation "Gettid \<equiv> Call ''gettid'' []"
abbreviation "Getuid \<equiv> Call ''getuid'' []"
abbreviation "Geteuid \<equiv> Call ''geteuid'' []"
abbreviation "Getgid \<equiv> Call ''getgid'' []"
abbreviation "Getegid \<equiv> Call ''getegid'' []"
abbreviation "Pthread_create func argument \<equiv> Call ''pthread_create'' [S func, I argument]"
abbreviation "Pthread_join thread \<equiv> Call ''pthread_join'' [I thread]"
abbreviation "Open path flags \<equiv> Call ''open'' [S path, I flags]"
abbreviation "Close fd \<equiv> Call ''close'' [I fd]"
abbreviation "Read fd n \<equiv> Call ''read'' [I fd, I n]"
abbreviation "Send fd t \<equiv> Call ''send'' [I fd, S t]"
abbreviation "Socket \<equiv> Call ''socket'' []"
abbreviation "Bind fd port \<equiv> Call ''bind'' [I fd, I port]"
abbreviation "Listen fd n \<equiv> Call ''listen'' [I fd, I n]"
abbreviation "Accept fd \<equiv> Call ''accept'' [I fd]"
abbreviation "Inet_pton t \<equiv> Call ''inet_pton'' [S t]"
abbreviation "Connect fd port \<equiv> Call ''connect'' [I fd, I port]"
abbreviation "Getpeername fd \<equiv> Call ''getpeername'' [I fd]"
abbreviation "Poll fds events timeout \<equiv> Call ''poll'' (map I fds @ map I events @ [I timeout])"
abbreviation "Write fd t \<equiv> Call ''write'' [I fd, S t]"
abbreviation "Getchar \<equiv> Call ''getchar'' []"
abbreviation "Mkstemp template \<equiv> Call ''mkstemp'' [S template]"
abbreviation "Fdopen fd mode \<equiv> Call ''fdopen'' [I fd, S mode]"
abbreviation "Rename old new \<equiv> Call ''rename'' [S old, S new]"
abbreviation "Unlink path \<equiv> Call ''unlink'' [S path]"
abbreviation "Openat dirfd path flags mode \<equiv> Call ''openat'' [I dirfd, S path, I flags, I mode]"
abbreviation "Unlinkat dirfd path flags \<equiv> Call ''unlinkat'' [I dirfd, S path, I flags]"
abbreviation "Pthread_self \<equiv> Call ''pthread_self'' []"
abbreviation "Set_robust_list head \<equiv> Call ''set_robust_list'' [I head]"
abbreviation "Get_robust_list tid \<equiv> Call ''get_robust_list'' [I tid]"
abbreviation "Cas addr expected desired \<equiv> Call ''compare_exchange'' [I addr, I expected, I desired]"
abbreviation "Futex_wait addr v \<equiv> Call ''futex_wait'' [I addr, I v]"
abbreviation "Futex_wake addr n \<equiv> Call ''futex_wake'' [I addr, I n]"
abbreviation "Socketpair \<equiv> Call ''socketpair'' []"
abbreviation "Clone flags argv \<equiv> Call ''clone'' [I flags, SL argv]"
abbreviation "Kill pid sig \<equiv> Call ''kill'' [I pid, I sig]"
abbreviation "Mkdir path mode \<equiv> Call ''mkdir'' [S path, I mode]"
abbreviation "Mount source target \<equiv> Call ''mount'' [S source, S target]"
abbreviation "Chroot path \<equiv> Call ''chroot'' [S path]"
abbreviation "Chdir path \<equiv> Call ''chdir'' [S path]"
abbreviation "Access path mode \<equiv> Call ''access'' [S path, I mode]"
abbreviation "Clock_gettime clk \<equiv> Call ''clock_gettime'' [I clk]"
abbreviation "Clock_getres clk \<equiv> Call ''clock_getres'' [I clk]"
abbreviation "Shmget key sz flags \<equiv> Call ''shmget'' [I key, I sz, I flags]"
abbreviation "Shmat shmid \<equiv> Call ''shmat'' [I shmid]"
abbreviation "Shmdt addr \<equiv> Call ''shmdt'' [I addr]"
abbreviation "Shmctl shmid cmd \<equiv> Call ''shmctl'' [I shmid, I cmd]"
abbreviation "Semget key n flags \<equiv> Call ''semget'' [I key, I n, I flags]"
abbreviation "Semctl semid num cmd v \<equiv> Call ''semctl'' [I semid, I num, I cmd, I v]"
abbreviation "Semop semid ops \<equiv> Call ''semop'' (I semid # concat (map (\<lambda>(num, operation, flags). [I num, I operation, I flags]) ops))"

text \<open>
  Memory shared with other processes changes under a process, so accesses to it are calls too:
  \<open>Store a t\<close> writes the bytes \<open>t\<close> at \<open>a\<close>, \<open>Load a\<close> reads (its reply holds the bytes).
\<close>

abbreviation "Store addr t \<equiv> Call ''store'' [I addr, S t]"
abbreviation "Load addr \<equiv> Call ''load'' [I addr]"
abbreviation "Store_int addr v \<equiv> Call ''store_int'' [I addr, I v]"
abbreviation "Load_int addr \<equiv> Call ''load_int'' [I addr]"

text \<open>
  A reply: the return value, \<^verbatim>\<open>errno\<close> when it is -1, and what the call stored through
  its pointer arguments: a wait status, bytes, and integers.
\<close>

record reply =
  rv :: int
  err :: int
  wstat :: "32 word"
  bytes :: string
  outs :: "int list"

definition rep :: "int \<Rightarrow> reply" where
  "rep v = \<lparr>rv = v, err = 0, wstat = 0, bytes = [], outs = []\<rparr>"

definition out_int :: "nat \<Rightarrow> reply \<Rightarrow> int" where
  "out_int i r = (if i < length (outs r) then outs r ! i else 0)"

datatype event =
    Sys call reply
  | Out string
  | Err string
  | Perror string int

datatype bufmode = Unbuffered | LineBuffered | FullyBuffered

record process =
  answers :: "reply list"
  trace :: "event list"
  obuf :: string
  bufmode :: bufmode
  errno :: int

definition start :: "bufmode \<Rightarrow> reply list \<Rightarrow> process" where
  "start m rs = \<lparr>answers = rs, trace = [], obuf = [], bufmode = m, errno = 0\<rparr>"

text \<open>How a run ends: with a value, by \<^verbatim>\<open>exit\<close>, by a signal, by becoming another program
  (\<^verbatim>\<open>execve\<close>), waiting in a call, in undefined behaviour, or in a loop that makes no calls.\<close>

datatype 'a result =
    Ret 'a
  | Exited int
  | Signalled int
  | Replaced string "string list" "string list"
  | Blocked call
  | Undefined string
  | Spins

type_synonym 'a stm = "process \<Rightarrow> 'a result \<times> process"

subsection \<open>Statements\<close>

definition ret :: "'a \<Rightarrow> 'a stm" where
  "ret x s = (Ret x, s)"

definition bindS :: "'a stm \<Rightarrow> ('a \<Rightarrow> 'b stm) \<Rightarrow> 'b stm" where
  "bindS m f s = (case m s of
      (Ret x, s') \<Rightarrow> f x s'
    | (Exited n, s') \<Rightarrow> (Exited n, s')
    | (Signalled n, s') \<Rightarrow> (Signalled n, s')
    | (Replaced p a e, s') \<Rightarrow> (Replaced p a e, s')
    | (Blocked c, s') \<Rightarrow> (Blocked c, s')
    | (Undefined w, s') \<Rightarrow> (Undefined w, s')
    | (Spins, s') \<Rightarrow> (Spins, s'))"

definition skip :: "unit stm" where
  "skip = ret ()"

fun block :: "unit stm list \<Rightarrow> unit stm" where
  "block [] = skip"
| "block (m # ms) = bindS m (\<lambda>_. block ms)"

definition only_if :: "bool \<Rightarrow> unit stm list \<Rightarrow> unit stm" where
  "only_if c ms = (if c then block ms else skip)"

definition undefined_behaviour :: "string \<Rightarrow> 'a stm" where
  "undefined_behaviour w s = (Undefined w, s)"

definition signalled :: "int \<Rightarrow> 'a stm" where
  "signalled n s = (Signalled n, s)"

abbreviation SIGSEGV :: int where "SIGSEGV \<equiv> 11"
abbreviation SIGFPE :: int where "SIGFPE \<equiv> 8"
abbreviation SIGABRT :: int where "SIGABRT \<equiv> 6"

subsection \<open>Calls\<close>

definition logged :: "call \<Rightarrow> reply \<Rightarrow> process \<Rightarrow> process" where
  "logged c r s = s\<lparr>answers := tl (answers s), trace := trace s @ [Sys c r],
     errno := (if rv r = -1 then err r else errno s)\<rparr>"

definition sys :: "call \<Rightarrow> reply stm" where
  "sys c s = (case answers s of [] \<Rightarrow> (Blocked c, s) | r # _ \<Rightarrow> (Ret r, logged c r s))"

definition sysv :: "call \<Rightarrow> int stm" where
  "sysv c = bindS (sys c) (\<lambda>r. ret (rv r))"

definition do_call :: "call \<Rightarrow> unit stm" where
  "do_call c = bindS (sys c) (\<lambda>_. skip)"

text \<open>\<^verbatim>\<open>execve\<close> returns only when it fails.\<close>

definition execve :: "string \<Rightarrow> string list \<Rightarrow> string list \<Rightarrow> int stm" where
  "execve path argv envp = bindS (sysv (Execve path argv envp))
     (\<lambda>v s. if v = -1 then (Ret (-1), s) else (Replaced path argv envp, s))"

subsection \<open>Standard output\<close>

abbreviation NL :: char where "NL \<equiv> CHR 0x0A"

definition emit :: "string \<Rightarrow> process \<Rightarrow> process" where
  "emit t s = (if t = [] then s else s\<lparr>trace := trace s @ [Out t]\<rparr>)"

definition flush_out :: "process \<Rightarrow> process" where
  "flush_out s = emit (obuf s) (s\<lparr>obuf := []\<rparr>)"

definition upto_nl :: "string \<Rightarrow> string" where
  "upto_nl t = rev (dropWhile (\<lambda>c. c \<noteq> NL) (rev t))"

definition after_nl :: "string \<Rightarrow> string" where
  "after_nl t = rev (takeWhile (\<lambda>c. c \<noteq> NL) (rev t))"

definition put_out :: "string \<Rightarrow> process \<Rightarrow> process" where
  "put_out t s = (case bufmode s of
      Unbuffered \<Rightarrow> emit (obuf s @ t) (s\<lparr>obuf := []\<rparr>)
    | LineBuffered \<Rightarrow> emit (upto_nl (obuf s @ t)) (s\<lparr>obuf := after_nl (obuf s @ t)\<rparr>)
    | FullyBuffered \<Rightarrow> s\<lparr>obuf := obuf s @ t\<rparr>)"

definition printf :: "string \<Rightarrow> unit stm" where
  "printf t s = (Ret (), put_out t s)"

definition fflush :: "unit stm" where
  "fflush s = (Ret (), flush_out s)"

definition unbuffered :: "process \<Rightarrow> process" where
  "unbuffered s = (flush_out s)\<lparr>bufmode := Unbuffered\<rparr>"

definition setbuf_null :: "unit stm" where
  "setbuf_null s = (Ret (), unbuffered s)"

definition noted :: "event \<Rightarrow> process \<Rightarrow> process" where
  "noted e s = s\<lparr>trace := trace s @ [e]\<rparr>"

definition perror :: "string \<Rightarrow> unit stm" where
  "perror w s = (Ret (), noted (Perror w (errno s)) s)"

text \<open>\<^verbatim>\<open>exit\<close>, and returning from \<^verbatim>\<open>main\<close>, write out what is buffered.\<close>

definition exit :: "int \<Rightarrow> 'a stm" where
  "exit n s = (Exited n, flush_out s)"

text \<open>\<open>yields ms v\<close>: the statements \<open>ms\<close>, after which the value is \<open>v\<close>.\<close>

definition yields :: "unit stm list \<Rightarrow> 'v \<Rightarrow> 'v stm" where
  "yields ms v = bindS (block ms) (\<lambda>_. ret v)"

subsection \<open>Loops\<close>

text \<open>
  \<open>for_loop lo hi body v\<close> is \<^verbatim>\<open>for (i = lo; i < hi; i++)\<close> over the loop state \<open>v\<close>.
  \<open>while_loop c body v\<close> is \<^verbatim>\<open>while (c)\<close>, \<open>do_while body\<close> is a \<^verbatim>\<open>do\<close> loop whose body
  yields its own condition (\<^verbatim>\<open>break\<close> yields false). In every loop written with the last
  two, what an iteration does depends only on the replies it gets, so one that makes no call
  and goes on repeats for ever: it ends as \<open>Spins\<close>.
\<close>

primrec for_from :: "nat \<Rightarrow> int \<Rightarrow> (int \<Rightarrow> 'v \<Rightarrow> 'v stm) \<Rightarrow> 'v \<Rightarrow> 'v stm" where
  "for_from 0 i body v = ret v"
| "for_from (Suc k) i body v = bindS (body i v) (\<lambda>v'. for_from k (i + 1) body v')"

definition for_loop :: "int \<Rightarrow> int \<Rightarrow> (int \<Rightarrow> 'v \<Rightarrow> 'v stm) \<Rightarrow> 'v \<Rightarrow> 'v stm" where
  "for_loop lo hi body v = for_from (nat (hi - lo)) lo body v"

function while_loop :: "('v \<Rightarrow> bool) \<Rightarrow> ('v \<Rightarrow> 'v stm) \<Rightarrow> 'v \<Rightarrow> 'v stm" where
  "while_loop c body v s =
     (if \<not> c v then (Ret v, s)
      else case body v s of
          (Ret v', s') \<Rightarrow>
            if length (answers s') < length (answers s) then while_loop c body v' s'
            else if c v' then (Spins, s') else (Ret v', s')
        | (Exited n, s') \<Rightarrow> (Exited n, s')
        | (Signalled n, s') \<Rightarrow> (Signalled n, s')
        | (Replaced p a e, s') \<Rightarrow> (Replaced p a e, s')
        | (Blocked k, s') \<Rightarrow> (Blocked k, s')
        | (Undefined w, s') \<Rightarrow> (Undefined w, s')
        | (Spins, s') \<Rightarrow> (Spins, s'))"
  by pat_completeness auto
termination
  by (relation "measure (\<lambda>(c, body, v, s). length (answers s))") auto

declare while_loop.simps [simp del]

definition do_while :: "bool stm \<Rightarrow> unit stm" where
  "do_while body = bindS (while_loop (\<lambda>b. b) (\<lambda>_. body) True) (\<lambda>_. skip)"

subsection \<open>What can be observed of a process\<close>

text \<open>
  \<open>written s\<close> is what has reached the file behind standard output, \<open>printed s\<close> adds what
  is still buffered: it does not depend on the buffering mode. \<open>calls s\<close> lists the calls made
  with their replies.
\<close>

fun out_text :: "event \<Rightarrow> string" where
  "out_text (Out t) = t"
| "out_text _ = []"

definition outs_of :: "event list \<Rightarrow> string" where
  "outs_of es = concat (map out_text es)"

definition written :: "process \<Rightarrow> string" where
  "written s = outs_of (trace s)"

definition printed :: "process \<Rightarrow> string" where
  "printed s = written s @ obuf s"

fun call_of :: "event \<Rightarrow> (call \<times> reply) list" where
  "call_of (Sys c r) = [(c, r)]"
| "call_of _ = []"

definition calls :: "process \<Rightarrow> (call \<times> reply) list" where
  "calls s = concat (map call_of (trace s))"

lemma outs_of_simps [simp]:
  "outs_of [] = []"
  "outs_of (e # es) = out_text e @ outs_of es"
  "outs_of (es @ es') = outs_of es @ outs_of es'"
  by (simp_all add: outs_of_def)

lemma upto_after_nl [simp]: "upto_nl t @ after_nl t = t"
  unfolding upto_nl_def after_nl_def by (metis rev_append rev_rev_ident takeWhile_dropWhile_id)

lemma logged_obs [obs_simps]:
  "answers (logged c r s) = tl (answers s)"
  "trace (logged c r s) = trace s @ [Sys c r]"
  "obuf (logged c r s) = obuf s"
  "bufmode (logged c r s) = bufmode s"
  "written (logged c r s) = written s"
  "printed (logged c r s) = printed s"
  "calls (logged c r s) = calls s @ [(c, r)]"
  by (simp_all add: logged_def written_def printed_def calls_def)

lemma emit_obs [obs_simps]:
  "answers (emit t s) = answers s"
  "obuf (emit t s) = obuf s"
  "bufmode (emit t s) = bufmode s"
  "errno (emit t s) = errno s"
  "written (emit t s) = written s @ t"
  "calls (emit t s) = calls s"
  by (simp_all add: emit_def written_def calls_def)

lemma put_out_obs [obs_simps]:
  "answers (put_out t s) = answers s"
  "bufmode (put_out t s) = bufmode s"
  "errno (put_out t s) = errno s"
  "printed (put_out t s) = printed s @ t"
  "calls (put_out t s) = calls s"
proof -
  show "answers (put_out t s) = answers s" "bufmode (put_out t s) = bufmode s"
    "errno (put_out t s) = errno s" "calls (put_out t s) = calls s"
    by (simp_all add: put_out_def emit_obs calls_def emit_def split: bufmode.split)
  show "printed (put_out t s) = printed s @ t"
    by (simp add: put_out_def printed_def emit_obs split: bufmode.split) (simp add: written_def)
qed

lemma put_out_nil: "bufmode s \<noteq> LineBuffered \<Longrightarrow> obuf s = [] \<Longrightarrow> put_out [] s = s"
  by (cases "bufmode s") (simp_all add: put_out_def emit_def)

lemma flush_out_obs [obs_simps]:
  "answers (flush_out s) = answers s"
  "obuf (flush_out s) = []"
  "bufmode (flush_out s) = bufmode s"
  "errno (flush_out s) = errno s"
  "written (flush_out s) = printed s"
  "printed (flush_out s) = printed s"
  "calls (flush_out s) = calls s"
  by (simp_all add: flush_out_def emit_def printed_def written_def calls_def)

lemma unbuffered_obs [obs_simps]:
  "answers (unbuffered s) = answers s"
  "obuf (unbuffered s) = []"
  "bufmode (unbuffered s) = Unbuffered"
  "written (unbuffered s) = printed s"
  "printed (unbuffered s) = printed s"
  "calls (unbuffered s) = calls s"
  by (simp_all add: unbuffered_def flush_out_def emit_def printed_def written_def calls_def)

lemma noted_obs [obs_simps]:
  "answers (noted e s) = answers s"
  "obuf (noted e s) = obuf s"
  "bufmode (noted e s) = bufmode s"
  "errno (noted e s) = errno s"
  "printed (noted (Perror w n) s) = printed s"
  "written (noted (Perror w n) s) = written s"
  "calls (noted (Perror w n) s) = calls s"
  by (simp_all add: noted_def printed_def written_def calls_def)

lemma start_obs [obs_simps]:
  "answers (start m rs) = rs"
  "trace (start m rs) = []"
  "obuf (start m rs) = []"
  "bufmode (start m rs) = m"
  "written (start m rs) = []"
  "printed (start m rs) = []"
  "calls (start m rs) = []"
  by (simp_all add: start_def written_def printed_def calls_def)

lemma rep_obs [simp]:
  "rv (rep v) = v" "err (rep v) = 0" "wstat (rep v) = 0" "bytes (rep v) = []" "outs (rep v) = []"
  by (simp_all add: rep_def)

text \<open>
  \<^verbatim>\<open>fork\<close> copies the process with its output buffer. \<open>own s\<close> is what the process itself has
  written since it was made, \<open>owned s\<close> adds its buffer: text the parent had printed and not
  flushed is in the child's buffer too, and the child writes it again.
\<close>

definition is_fork :: "event \<Rightarrow> bool" where
  "is_fork e \<longleftrightarrow> (case e of Sys c r \<Rightarrow> c = Fork | _ \<Rightarrow> False)"

definition since_fork :: "event list \<Rightarrow> event list" where
  "since_fork es = rev (takeWhile (\<lambda>e. \<not> is_fork e) (rev es))"

definition own :: "process \<Rightarrow> string" where
  "own s = outs_of (since_fork (trace s))"

definition owned :: "process \<Rightarrow> string" where
  "owned s = own s @ obuf s"

lemma since_fork_snoc: "since_fork (es @ [e]) = (if is_fork e then [] else since_fork es @ [e])"
  by (simp add: since_fork_def)

lemma emit_own: "own (emit t s) = own s @ t" "own (s\<lparr>obuf := b\<rparr>) = own s"
  by (simp_all add: own_def emit_def since_fork_snoc is_fork_def)

lemma owned_put_out [obs_simps]: "owned (put_out t s) = owned s @ t"
  by (simp add: owned_def put_out_def emit_obs emit_own split: bufmode.split)

lemma own_obs [obs_simps]:
  "own (start m rs) = []"
  "own (flush_out s) = owned s"
  "own (noted (Perror w n) s) = own s"
  "owned (start m rs) = []"
  "owned (flush_out s) = owned s"
  "owned (noted (Perror w n) s) = owned s"
  by (simp_all add: own_def owned_def since_fork_snoc is_fork_def start_def flush_out_def
      emit_def noted_def since_fork_def)

lemma own_logged [obs_simps]:
  "own (logged Fork r s) = []"
  "owned (logged Fork r s) = obuf s"
  "c \<noteq> Fork \<Longrightarrow> own (logged c r s) = own s"
  "c \<noteq> Fork \<Longrightarrow> owned (logged c r s) = owned s"
  by (simp_all add: own_def owned_def logged_def since_fork_snoc is_fork_def)

text \<open>What stays in the buffer after printing.\<close>

lemma after_nl_line [simp]: "t \<noteq> [] \<Longrightarrow> last t = NL \<Longrightarrow> after_nl t = []" "after_nl [] = []"
  by (simp_all add: after_nl_def) (cases t rule: rev_cases, simp_all)

lemma obuf_put_out:
  "obuf (put_out t s) = (case bufmode s of Unbuffered \<Rightarrow> [] | LineBuffered \<Rightarrow> after_nl (obuf s @ t)
     | FullyBuffered \<Rightarrow> obuf s @ t)"
  by (simp add: put_out_def emit_obs split: bufmode.split)

lemma upto_nl_line [simp]: "t \<noteq> [] \<Longrightarrow> last t = NL \<Longrightarrow> upto_nl t = t" "upto_nl [] = []"
  by (simp_all add: upto_nl_def) (cases t rule: rev_cases, simp_all)

lemma written_put_out:
  "written (put_out t s) = written s @ (case bufmode s of Unbuffered \<Rightarrow> obuf s @ t
     | LineBuffered \<Rightarrow> upto_nl (obuf s @ t) | FullyBuffered \<Rightarrow> [])"
  by (simp add: put_out_def emit_obs split: bufmode.split) (simp add: written_def)

text \<open>The same call made several times.\<close>

primrec logs :: "call \<Rightarrow> reply list \<Rightarrow> process \<Rightarrow> process" where
  "logs c [] s = s"
| "logs c (r # rs) s = logs c rs (logged c r s)"

lemma logs_obs [obs_simps]:
  "answers (logs c rs s) = drop (length rs) (answers s)"
  "obuf (logs c rs s) = obuf s"
  "bufmode (logs c rs s) = bufmode s"
  "written (logs c rs s) = written s"
  "printed (logs c rs s) = printed s"
  "calls (logs c rs s) = calls s @ map (Pair c) rs"
  by (induction rs arbitrary: s) (simp_all add: obs_simps drop_Suc)

subsection \<open>Symbolic execution\<close>

lemma bindS_assoc [run_simps]: "bindS (bindS m f) g = bindS m (\<lambda>x. bindS (f x) g)"
  by (simp add: fun_eq_iff bindS_def split: prod.split result.split)

lemma bindS_ret [run_simps]: "bindS (ret x) f = f x" "bindS skip h = h ()"
  by (simp_all add: fun_eq_iff bindS_def ret_def skip_def)

lemma bindS_skip: "bindS m (\<lambda>_. skip) = m" "bindS m (\<lambda>_. Pair (Ret ())) = m"
  by (simp_all add: fun_eq_iff bindS_def ret_def skip_def split: prod.split result.split)

lemma bindS_exit [run_simps]: "bindS (exit n) g = exit n"
  by (simp add: fun_eq_iff bindS_def exit_def)

lemma bindS_run [run_simps]:
  "bindS (printf t) h s = h () (put_out t s)"
  "bindS fflush h s = h () (flush_out s)"
  "bindS setbuf_null h s = h () (unbuffered s)"
  "bindS (perror w) h s = h () (noted (Perror w (errno s)) s)"
  "bindS (signalled n) g s = (Signalled n, s)"
  "bindS (undefined_behaviour w) g s = (Undefined w, s)"
  by (simp_all add: bindS_def ret_def skip_def printf_def fflush_def setbuf_null_def perror_def
      exit_def signalled_def undefined_behaviour_def)

lemma bindS_Pair [run_simps]:
  "bindS (Pair (Ret x)) f = f x"
  "bindS (Pair (Undefined w)) g = Pair (Undefined w)"
  "bindS (Pair (Signalled n)) g = Pair (Signalled n)"
  by (simp_all add: fun_eq_iff bindS_def)

lemma bindS_sys [run_simps]:
  "bindS (sys c) f s = (case answers s of [] \<Rightarrow> (Blocked c, s) | r # _ \<Rightarrow> f r (logged c r s))"
  by (simp add: bindS_def sys_def split: list.split)

lemma bindS_calls [run_simps]:
  "bindS (sysv c) g s = (case answers s of [] \<Rightarrow> (Blocked c, s) | r # _ \<Rightarrow> g (rv r) (logged c r s))"
  "bindS (do_call c) h s = (case answers s of [] \<Rightarrow> (Blocked c, s) | r # _ \<Rightarrow> h () (logged c r s))"
  by (simp_all add: sysv_def do_call_def run_simps split: list.split)

lemma bindS_execve [run_simps]:
  "bindS (execve p a e) f s = (case answers s of [] \<Rightarrow> (Blocked (Execve p a e), s)
     | r # _ \<Rightarrow> if rv r = -1 then f (-1) (logged (Execve p a e) r s)
               else (Replaced p a e, logged (Execve p a e) r s))"
  by (simp add: execve_def run_simps split: list.split) (simp add: bindS_def)

lemma bindS_if [run_simps]: "bindS (if b then m else n) f s = (if b then bindS m f s else bindS n f s)"
  by simp

lemma bindS_only_if [run_simps]:
  "bindS (only_if b ms) f s = (if b then bindS (block ms) f s else f () s)"
  by (simp add: only_if_def run_simps)

lemma bindS_block [run_simps]:
  "bindS (block []) f = f ()"
  "bindS (block (m # ms)) f = bindS m (\<lambda>_. bindS (block ms) f)"
  by (simp_all add: run_simps)

lemma plain_run [run_simps]:
  "ret x s = (Ret x, s)"
  "skip s = (Ret (), s)"
  "printf t s = (Ret (), put_out t s)"
  "fflush s = (Ret (), flush_out s)"
  "exit n s = (Exited n, flush_out s)"
  "only_if b ms s = (if b then block ms s else (Ret (), s))"
  "undefined_behaviour w s = (Undefined w, s)"
  "signalled n s = (Signalled n, s)"
  by (simp_all add: ret_def skip_def printf_def fflush_def exit_def only_if_def
      undefined_behaviour_def signalled_def)

lemma yields_run [run_simps]:
  "yields ms v s = bindS (block ms) (\<lambda>_. ret v) s"
  "bindS (yields ms v) f = bindS (block ms) (\<lambda>_. f v)"
  by (simp_all add: yields_def run_simps)

lemma if_run [run_simps]: "(if b then m else n) s = (if b then m s else n s)"
  by simp

subsection \<open>Loops\<close>

lemma for_loop_empty [run_simps]: "hi \<le> lo \<Longrightarrow> for_loop lo hi body v = ret v"
  by (simp add: for_loop_def)

lemma for_from_add:
  "for_from (m + k) i body v s = bindS (for_from m i body v) (\<lambda>v'. for_from k (i + int m) body v') s"
proof (induction m arbitrary: i v s)
  case 0
  then show ?case by (simp add: run_simps)
next
  case (Suc m)
  have "(\<lambda>v'. for_from (m + k) (i + 1) body v') =
      (\<lambda>v'. bindS (for_from m (i + 1) body v') (\<lambda>v''. for_from k (i + 1 + int m) body v''))"
    using Suc.IH by (intro ext) blast
  then show ?case
    by (simp add: run_simps ac_simps)
qed

lemma for_loop_step:
  "lo < hi \<Longrightarrow> for_loop lo hi body v = bindS (body lo v) (\<lambda>v'. for_loop (lo + 1) hi body v')"
proof -
  assume "lo < hi"
  then have "nat (hi - lo) = Suc (nat (hi - (lo + 1)))"
    by simp
  then show ?thesis
    by (simp add: for_loop_def)
qed

lemma while_loop_stop: "\<not> c v \<Longrightarrow> while_loop c body v s = (Ret v, s)"
  by (simp add: while_loop.simps)

lemma while_loop_next:
  "c v \<Longrightarrow> body v s = (Ret v', s') \<Longrightarrow> length (answers s') < length (answers s) \<Longrightarrow>
     while_loop c body v s = while_loop c body v' s'"
  by (subst while_loop.simps) simp

lemma while_loop_out:
  "c v \<Longrightarrow> body v s = (Exited n, s') \<Longrightarrow> while_loop c body v s = (Exited n, s')"
  "c v \<Longrightarrow> body v s = (Signalled n, s') \<Longrightarrow> while_loop c body v s = (Signalled n, s')"
  "c v \<Longrightarrow> body v s = (Blocked k, s') \<Longrightarrow> while_loop c body v s = (Blocked k, s')"
  "c v \<Longrightarrow> body v s = (Undefined w, s') \<Longrightarrow> while_loop c body v s = (Undefined w, s')"
  by (simp_all add: while_loop.simps)

lemma bindS_result:
  "m s = (Ret x, s') \<Longrightarrow> bindS m f s = f x s'"
  "m s = (Exited n, s') \<Longrightarrow> bindS m f s = (Exited n, s')"
  "m s = (Signalled n, s') \<Longrightarrow> bindS m f s = (Signalled n, s')"
  "m s = (Replaced p a e, s') \<Longrightarrow> bindS m f s = (Replaced p a e, s')"
  "m s = (Blocked c, s') \<Longrightarrow> bindS m f s = (Blocked c, s')"
  "m s = (Undefined w, s') \<Longrightarrow> bindS m f s = (Undefined w, s')"
  "m s = (Spins, s') \<Longrightarrow> bindS m f s = (Spins, s')"
  by (simp_all add: bindS_def)

text \<open>A \<^verbatim>\<open>for\<close> loop that runs to its end, and one that its iteration \<open>k\<close> leaves.\<close>

lemma for_loop_all:
  "for_from k lo body v s = r \<Longrightarrow> hi = lo + int k \<Longrightarrow> for_loop lo hi body v s = r"
  by (simp add: for_loop_def)

lemma for_loop_leaves:
  assumes "for_from k lo body v s = (Ret v', s')" "lo + int k < hi"
    and "body (lo + int k) v' s' = (e, s'')" "\<And>x. e \<noteq> Ret x"
  shows "for_loop lo hi body v s = (e, s'')"
proof -
  have "nat (hi - lo) = k + Suc (nat (hi - lo) - Suc k)"
    using assms(2) by simp
  then have "for_loop lo hi body v s =
      bindS (body (lo + int k) v') (\<lambda>v''. for_from (nat (hi - lo) - Suc k) (lo + int k + 1) body v'') s'"
    unfolding for_loop_def using for_from_add [of k "Suc (nat (hi - lo) - Suc k)" lo body v s]
    by (simp add: bindS_result(1) [where m = "for_from k lo body v", OF assms(1)])
  then show ?thesis
    using assms(3,4) by (cases e) (auto simp: bindS_def)
qed

text \<open>A \<^verbatim>\<open>do\<close> loop whose body starts with a call.\<close>

lemma do_while_blocked: "answers s = [] \<Longrightarrow> do_while (bindS (sys c) k) s = (Blocked c, s)"
  by (simp add: do_while_def bindS_result(5) while_loop_out(3) bindS_sys)

lemma do_while_done:
  assumes "answers s = r # rs" "k r (logged c r s) = (Ret False, s')" "answers s' = rs"
  shows "do_while (bindS (sys c) k) s = (Ret (), s')"
proof -
  have "while_loop (\<lambda>b. b) (\<lambda>_. bindS (sys c) k) True s = (Ret False, s')"
    using assms by (subst while_loop_next [where v' = False and s' = s'])
      (simp_all add: bindS_sys while_loop_stop)
  then show ?thesis
    by (simp add: do_while_def bindS_result(1) [where x = False and s' = s'] skip_def ret_def)
qed

lemma do_while_again:
  assumes "answers s = r # rs" "k r (logged c r s) = (Ret True, s')" "answers s' = rs"
  shows "do_while (bindS (sys c) k) s = do_while (bindS (sys c) k) s'"
proof -
  have "while_loop (\<lambda>b. b) (\<lambda>_. bindS (sys c) k) True s =
      while_loop (\<lambda>b. b) (\<lambda>_. bindS (sys c) k) True s'"
    using assms by (simp add: while_loop_next bindS_sys)
  then show ?thesis
    by (simp add: do_while_def bindS_def)
qed

lemma do_while_exit:
  "answers s = r # rs \<Longrightarrow> k r (logged c r s) = (Exited n, s') \<Longrightarrow>
     do_while (bindS (sys c) k) s = (Exited n, s')"
  by (simp add: do_while_def bindS_result(2) while_loop_out(1) bindS_sys)

subsection \<open>Absence of undefined behaviour\<close>

text \<open>\<open>well_defined W m\<close>: whatever the replies, \<open>m\<close> does not run into undefined behaviour of a kind
  that is not in \<open>W\<close>.\<close>

definition well_defined :: "string set \<Rightarrow> 'a stm \<Rightarrow> bool" where
  "well_defined W m \<longleftrightarrow> (\<forall>s w. fst (m s) = Undefined w \<longrightarrow> w \<in> W)"

lemma well_definedD: "well_defined W m \<Longrightarrow> w \<notin> W \<Longrightarrow> fst (m s) \<noteq> Undefined w"
  by (auto simp: well_defined_def)

lemma well_defined_known [defined_intros]: "w \<in> W \<Longrightarrow> well_defined W (undefined_behaviour w)"
  by (simp add: well_defined_def undefined_behaviour_def)

lemma well_defined_basic [defined_intros]:
  "well_defined W (ret x)" "well_defined W skip" "well_defined W (printf t)" "well_defined W fflush"
  "well_defined W setbuf_null" "well_defined W (perror t)" "well_defined W (exit n)" "well_defined W (signalled n)" "well_defined W (sys c)"
  by (simp_all add: well_defined_def ret_def skip_def printf_def fflush_def setbuf_null_def perror_def
      exit_def signalled_def sys_def split: list.split)

lemma well_defined_bindS [defined_intros]:
  "well_defined W m \<Longrightarrow> (\<And>x. well_defined W (f x)) \<Longrightarrow> well_defined W (bindS m f)"
  by (auto simp: well_defined_def bindS_def split: prod.split result.split) (metis fst_conv)

lemma well_defined_block [defined_intros]:
  "well_defined W (block [])" "well_defined W m \<Longrightarrow> well_defined W (block ms) \<Longrightarrow> well_defined W (block (m # ms))"
  by (auto intro: defined_intros)

lemma well_defined_derived [defined_intros]:
  "well_defined W (sysv c)" "well_defined W (do_call c)"
  "(b \<Longrightarrow> well_defined W (block ms)) \<Longrightarrow> well_defined W (only_if b ms)"
  "well_defined W (block ms) \<Longrightarrow> well_defined W (yields ms v)"
  "(b \<Longrightarrow> well_defined W m) \<Longrightarrow> (\<not> b \<Longrightarrow> well_defined W n) \<Longrightarrow> well_defined W (if b then m else n)"
  by (auto simp: sysv_def do_call_def only_if_def yields_def intro: defined_intros)

lemma well_defined_for_from:
  "(\<And>j v. i \<le> j \<Longrightarrow> j < i + int k \<Longrightarrow> well_defined W (body j v)) \<Longrightarrow> well_defined W (for_from k i body v)"
  by (induction k arbitrary: i v) (auto intro!: defined_intros)

lemma well_defined_for_loop [defined_intros]:
  "(\<And>j v. lo \<le> j \<Longrightarrow> j < hi \<Longrightarrow> well_defined W (body j v)) \<Longrightarrow> well_defined W (for_loop lo hi body v)"
  unfolding for_loop_def by (rule well_defined_for_from) (auto split: if_splits)

text \<open>\<open>gives Q m\<close>: a value that \<open>m\<close> returns satisfies \<open>Q\<close>. With an invariant of its state a loop is well
  defined if its body is where the invariant holds.\<close>

definition gives :: "('a \<Rightarrow> bool) \<Rightarrow> 'a stm \<Rightarrow> bool" where
  "gives Q m \<longleftrightarrow> (\<forall>s v. fst (m s) = Ret v \<longrightarrow> Q v)"

lemma gives_bindS: "gives Q m \<Longrightarrow> (\<And>x. Q x \<Longrightarrow> gives R (f x)) \<Longrightarrow> gives R (bindS m f)"
  by (auto simp: gives_def bindS_def split: prod.splits result.splits) (metis fst_conv)

lemma gives_any: "(\<And>x. gives R (f x)) \<Longrightarrow> gives R (bindS m f)"
  by (rule gives_bindS [of "\<lambda>_. True"]) (simp_all add: gives_def)

lemma gives_basic: "Q x \<Longrightarrow> gives Q (ret x)" "gives Q (undefined_behaviour w)" "gives Q (exit n)"
  "(b \<Longrightarrow> gives Q m) \<Longrightarrow> (\<not> b \<Longrightarrow> gives Q m') \<Longrightarrow> gives Q (if b then m else m')"
  by (simp_all add: gives_def ret_def undefined_behaviour_def exit_def)

lemma well_defined_gives:
  assumes "gives Q m" "well_defined W m" "\<And>x. Q x \<Longrightarrow> well_defined W (f x)"
  shows "well_defined W (bindS m f)"
  unfolding well_defined_def
proof (intro allI impI)
  fix s w
  assume w: "fst (bindS m f s) = Undefined w"
  obtain e s1 where m: "m s = (e, s1)"
    by (cases "m s")
  with assms(1) have "e = Ret x \<Longrightarrow> Q x" for x
    by (auto simp: gives_def) (metis fst_conv)
  with m w assms(2,3) show "w \<in> W"
    by (cases e) (auto simp: well_defined_def bindS_def, (metis fst_conv)+)
qed

lemma for_loop_invariant:
  assumes "\<And>j v. lo \<le> j \<Longrightarrow> j < hi \<Longrightarrow> Inv j v \<Longrightarrow> well_defined W (body j v) \<and> gives (Inv (j + 1)) (body j v)" "Inv lo v"
  shows "well_defined W (for_loop lo hi body v)" "gives (Inv (max lo hi)) (for_loop lo hi body v)"
proof -
  have "well_defined W (for_from k i body v) \<and> gives (Inv (i + int k)) (for_from k i body v)"
    if "lo \<le> i" "i + int k \<le> max lo hi" "Inv i v" for k i v
    using that
  proof (induction k arbitrary: i v)
    case 0
    then show ?case
      by (simp add: gives_basic(1) defined_intros)
  next
    case (Suc k)
    then have body: "well_defined W (body i v)" "gives (Inv (i + 1)) (body i v)"
      using assms(1) [of i v] by auto
    have "well_defined W (for_from k (i + 1) body v') \<and> gives (Inv (i + int (Suc k))) (for_from k (i + 1) body v')"
      if "Inv (i + 1) v'" for v'
      using Suc.IH [of "i + 1" v'] Suc.prems that by (simp add: ac_simps)
    with body show ?case
      by (auto intro: well_defined_gives gives_bindS)
  qed
  from this [of lo "nat (hi - lo)" v] assms(2)
  show "well_defined W (for_loop lo hi body v)" "gives (Inv (max lo hi)) (for_loop lo hi body v)"
    by (auto simp: for_loop_def max_def split: if_splits)
qed

end
