(* ===== verification/Wait_Status.thy ===== *)
theory Wait_Status
  imports Sys
begin

unbundle bit_operations_syntax

text \<open>
  The wait status word and the macros of \<^verbatim>\<open><sys/wait.h>\<close> that read it, as glibc defines
  them, with the encodings the manual pages give for the four ways a child can change state.
  Every program that waits for a child decides by these macros.
\<close>

type_synonym status = "32 word"

definition WTERMSIG :: "status \<Rightarrow> int" where
  "WTERMSIG st = uint (st AND 0x7f)"

definition WIFEXITED :: "status \<Rightarrow> bool" where
  "WIFEXITED st \<longleftrightarrow> WTERMSIG st = 0"

definition WEXITSTATUS :: "status \<Rightarrow> int" where
  "WEXITSTATUS st = uint (drop_bit 8 (st AND 0xff00))"

text \<open>\<^verbatim>\<open>((signed char) (((status) & 0x7f) + 1) >> 1) > 0\<close>\<close>

definition WIFSIGNALED :: "status \<Rightarrow> bool" where
  "WIFSIGNALED st \<longleftrightarrow> sint (signed_drop_bit 1 (ucast ((st AND 0x7f) + 1) :: 8 word)) > 0"

definition WIFSTOPPED :: "status \<Rightarrow> bool" where
  "WIFSTOPPED st \<longleftrightarrow> st AND 0xff = 0x7f"

definition WSTOPSIG :: "status \<Rightarrow> int" where
  "WSTOPSIG st = WEXITSTATUS st"

definition WIFCONTINUED :: "status \<Rightarrow> bool" where
  "WIFCONTINUED st \<longleftrightarrow> st = 0xffff"

text \<open>What the kernel stores: \<^verbatim>\<open>exit(n)\<close>, death by a signal (with or without a core dump),
  a stop, a continuation.\<close>

definition exit_status :: "int \<Rightarrow> status" where
  "exit_status n = word_of_int ((n mod 256) * 256)"

definition signal_status :: "int \<Rightarrow> bool \<Rightarrow> status" where
  "signal_status n core = word_of_int (n + (if core then 128 else 0))"

definition stop_status :: "int \<Rightarrow> status" where
  "stop_status n = word_of_int (n * 256 + 127)"

definition continued_status :: status where
  "continued_status = 0xffff"

definition terminal :: "status \<Rightarrow> bool" where
  "terminal st \<longleftrightarrow> WIFEXITED st \<or> WIFSIGNALED st"

lemma and_mask_uint:
  "uint (st AND 0x7f :: status) = uint st mod 128"
  "uint (st AND 0xff :: status) = uint st mod 256"
  "uint (drop_bit 8 (st AND 0xff00) :: status) = uint st div 256 mod 256"
proof -
  have m: "(127 :: int) = mask 7" "(255 :: int) = mask 8"
    by (simp_all add: mask_eq_exp_minus_1)
  show "uint (st AND 0x7f :: status) = uint st mod 128"
    by (simp add: uint_and m flip: take_bit_eq_mask) (simp add: take_bit_int_def)
  show "uint (st AND 0xff :: status) = uint st mod 256"
    by (simp add: uint_and m flip: take_bit_eq_mask) (simp add: take_bit_int_def)
  have "drop_bit 8 (st AND 0xff00) = drop_bit 8 st AND (0xff :: status)"
    by (simp add: drop_bit_and)
  moreover have "uint st mod 4294967296 = uint st"
    using uint_lt2p [of st] by simp
  ultimately show "uint (drop_bit 8 (st AND 0xff00) :: status) = uint st div 256 mod 256"
    by (simp add: uint_and m flip: take_bit_eq_mask)
      (simp add: take_bit_int_def drop_bit_int_def unsigned_drop_bit_eq)
qed

lemma WTERMSIG_mod: "WTERMSIG st = uint st mod 128"
  by (simp add: WTERMSIG_def and_mask_uint)

lemma WEXITSTATUS_div: "WEXITSTATUS st = uint st div 256 mod 256"
  unfolding WEXITSTATUS_def by (rule and_mask_uint)

lemma WIFSTOPPED_mod: "WIFSTOPPED st \<longleftrightarrow> uint st mod 256 = 127"
  by (simp add: WIFSTOPPED_def word_uint_eq_iff and_mask_uint)

lemma WIFCONTINUED_uint: "WIFCONTINUED st \<longleftrightarrow> uint st = 65535"
  by (simp add: WIFCONTINUED_def word_uint_eq_iff)

lemma WIFSIGNALED_iff: "WIFSIGNALED st \<longleftrightarrow> 0 < WTERMSIG st \<and> WTERMSIG st < 127"
proof -
  define k where "k = uint st mod 128"
  have k: "0 \<le> k" "k \<le> 127"
    using pos_mod_bound [of 128 "uint st"] by (auto simp: k_def)
  have "st AND 0x7f = word_of_int k"
    by (simp add: word_uint_eq_iff and_mask_uint k_def uint_word_of_int)
  then have "(st AND 0x7f) + 1 = word_of_int (k + 1)"
    by simp
  then have "uint ((st AND 0x7f) + 1) = k + 1"
    using k by (simp only: uint_word_of_int) simp
  then have "ucast ((st AND 0x7f) + 1) = (word_of_int (k + 1) :: 8 word)"
    using k by (simp only: word_uint_eq_iff unsigned_ucast_eq uint_word_of_int take_bit_int_def)
  moreover have "sint (word_of_int (k + 1) :: 8 word) = (if k = 127 then - 128 else k + 1)"
    using k by (auto simp only: sint_sbintrunc' signed_take_bit_int_eq_self_iff) (auto simp: signed_take_bit_int_eq_self)
  ultimately have "WIFSIGNALED st \<longleftrightarrow> drop_bit 1 (if k = 127 then - 128 else k + 1) > 0"
    by (simp add: WIFSIGNALED_def sint_signed_drop_bit_eq)
  also have "\<dots> \<longleftrightarrow> 0 < k \<and> k < 127"
    using k by (auto simp: drop_bit_int_def)
  finally show ?thesis
    by (simp add: WTERMSIG_mod k_def)
qed

lemma WIFEXITED_mod: "WIFEXITED st \<longleftrightarrow> uint st mod 128 = 0"
  by (simp add: WIFEXITED_def WTERMSIG_mod)

lemmas wait_macros =
  WIFEXITED_mod WIFSIGNALED_iff WTERMSIG_mod WIFSTOPPED_mod WIFCONTINUED_uint WEXITSTATUS_div

text \<open>At most one of the four questions the programs ask in turn is answered yes, so the
  order of their \<^verbatim>\<open>else if\<close> chains does not matter.\<close>

lemma status_exclusive_int:
  fixes n :: int
  shows "n mod 128 = 0 \<Longrightarrow> \<not> (0 < n mod 128 \<and> n mod 128 < 127) \<and> n mod 256 \<noteq> 127 \<and> n \<noteq> 65535"
    and "0 < n mod 128 \<and> n mod 128 < 127 \<Longrightarrow> n mod 128 \<noteq> 0 \<and> n mod 256 \<noteq> 127 \<and> n \<noteq> 65535"
    and "n mod 256 = 127 \<Longrightarrow> n mod 128 \<noteq> 0 \<and> \<not> (0 < n mod 128 \<and> n mod 128 < 127) \<and> n \<noteq> 65535"
    and "n = 65535 \<Longrightarrow> n mod 128 \<noteq> 0 \<and> \<not> (0 < n mod 128 \<and> n mod 128 < 127) \<and> n mod 256 \<noteq> 127"
proof -
  have m: "n mod 128 = n mod 256 mod 128"
    by (simp add: mod_mod_cancel)
  show "n mod 128 = 0 \<Longrightarrow> \<not> (0 < n mod 128 \<and> n mod 128 < 127) \<and> n mod 256 \<noteq> 127 \<and> n \<noteq> 65535"
    using m by auto
  show "0 < n mod 128 \<and> n mod 128 < 127 \<Longrightarrow> n mod 128 \<noteq> 0 \<and> n mod 256 \<noteq> 127 \<and> n \<noteq> 65535"
    using m by auto
  show "n mod 256 = 127 \<Longrightarrow> n mod 128 \<noteq> 0 \<and> \<not> (0 < n mod 128 \<and> n mod 128 < 127) \<and> n \<noteq> 65535"
    using m by auto
  show "n = 65535 \<Longrightarrow> n mod 128 \<noteq> 0 \<and> \<not> (0 < n mod 128 \<and> n mod 128 < 127) \<and> n mod 256 \<noteq> 127"
    by simp
qed

lemma status_exclusive:
  "WIFEXITED st \<Longrightarrow> \<not> WIFSIGNALED st \<and> \<not> WIFSTOPPED st \<and> \<not> WIFCONTINUED st"
  "WIFSIGNALED st \<Longrightarrow> \<not> WIFEXITED st \<and> \<not> WIFSTOPPED st \<and> \<not> WIFCONTINUED st"
  "WIFSTOPPED st \<Longrightarrow> \<not> WIFEXITED st \<and> \<not> WIFSIGNALED st \<and> \<not> WIFCONTINUED st"
  "WIFCONTINUED st \<Longrightarrow> \<not> WIFEXITED st \<and> \<not> WIFSIGNALED st \<and> \<not> WIFSTOPPED st"
  unfolding wait_macros by (rule status_exclusive_int, assumption)+

text \<open>Each macro reads back what the kernel stored.\<close>

lemma exit_status_read:
  "WIFEXITED (exit_status n)" "WEXITSTATUS (exit_status n) = n mod 256"
proof -
  have u: "uint (exit_status n) = n mod 256 * 256"
    unfolding exit_status_def uint_word_of_int by simp
  have "n mod 256 * 256 mod 128 = 0"
    by presburger
  then show "WIFEXITED (exit_status n)"
    by (simp add: WIFEXITED_mod u)
  show "WEXITSTATUS (exit_status n) = n mod 256"
    by (simp add: WEXITSTATUS_div u)
qed

lemma signal_status_read:
  assumes "0 < n" "n < 127"
  shows "WIFSIGNALED (signal_status n core)" "WTERMSIG (signal_status n core) = n"
proof -
  have u: "uint (signal_status n core) = n + (if core then 128 else 0)"
    unfolding signal_status_def uint_word_of_int using assms by simp
  show t: "WTERMSIG (signal_status n core) = n"
    using assms by (simp add: WTERMSIG_mod u)
  show "WIFSIGNALED (signal_status n core)"
    using assms by (simp add: WIFSIGNALED_iff t)
qed

lemma stop_status_read:
  assumes "0 < n" "n < 256"
  shows "WIFSTOPPED (stop_status n)" "WSTOPSIG (stop_status n) = n"
proof -
  have u: "uint (stop_status n) = n * 256 + 127"
    unfolding stop_status_def uint_word_of_int using assms by simp
  show "WIFSTOPPED (stop_status n)"
    by (simp add: WIFSTOPPED_mod u mod_add_left_eq [symmetric])
  show "WSTOPSIG (stop_status n) = n"
    using assms by (simp add: WSTOPSIG_def WEXITSTATUS_div u)
qed

lemma continued_status_read: "WIFCONTINUED continued_status"
  by (simp add: WIFCONTINUED_def continued_status_def)

lemma terminal_cases:
  "terminal (exit_status n)" "0 < k \<Longrightarrow> k < 127 \<Longrightarrow> terminal (signal_status k core)"
  "0 < k \<Longrightarrow> k < 256 \<Longrightarrow> \<not> terminal (stop_status k)" "\<not> terminal continued_status"
  unfolding terminal_def
  by (simp add: exit_status_read(1), simp add: signal_status_read(1),
      simp add: status_exclusive(3) [OF stop_status_read(1)],
      simp add: status_exclusive(4) [OF continued_status_read])

lemma WEXITSTATUS_range: "0 \<le> WEXITSTATUS st" "WEXITSTATUS st \<le> 255"
  using pos_mod_bound [of 256 "uint st div 256"] by (auto simp: WEXITSTATUS_div)

end
