(* ===== verification/Wait_Loop.thy ===== *)
theory Wait_Loop
  imports Wait_Status
begin

text \<open>
  Waiting for a child. Ten of the programs contain the same loop: call \<^verbatim>\<open>waitpid\<close> with
  \<^verbatim>\<open>WUNTRACED | WCONTINUED\<close>, report the change of state, and repeat until the child has
  exited or been killed. Here are the report they print, what a sequence of such reports does
  to the process, and the contract of the loop as a locale; each program's own loop is an
  interpretation of it.
\<close>

abbreviation WAIT_OPTS :: int where "WAIT_OPTS \<equiv> 10" \<comment> \<open>WUNTRACED | WCONTINUED\<close>

definition status_text :: "string \<Rightarrow> status \<Rightarrow> string" where
  "status_text who st =
     (if WIFEXITED st then who @ ''exited, status='' @ fmt_d (WEXITSTATUS st) @ ''\<newline>''
      else if WIFSIGNALED st then who @ ''killed by signal '' @ fmt_d (WTERMSIG st) @ ''\<newline>''
      else if WIFSTOPPED st then who @ ''stopped by signal '' @ fmt_d (WSTOPSIG st) @ ''\<newline>''
      else if WIFCONTINUED st then who @ ''continued\<newline>''
      else [])"

definition report_status :: "string \<Rightarrow> status \<Rightarrow> unit stm" where
  "report_status who st =
     (if status_text who st = [] then skip else printf (status_text who st))"

text \<open>\<open>reap report c rs s\<close>: the calls \<open>c\<close> got the replies \<open>rs\<close>, each followed by its report.\<close>

primrec reap :: "(reply \<Rightarrow> process \<Rightarrow> process) \<Rightarrow> call \<Rightarrow> reply list \<Rightarrow> process \<Rightarrow> process" where
  "reap report c [] s = s"
| "reap report c (r # rs) s = reap report c rs (report r (logged c r s))"

text \<open>The process after one report.\<close>

definition reported :: "string \<Rightarrow> reply \<Rightarrow> process \<Rightarrow> process" where
  "reported who r s = (if status_text who (wstat r) = [] then s
     else put_out (status_text who (wstat r)) s)"

lemma report_status_run [run_simps]:
  "report_status who (wstat r) s = (Ret (), reported who r s)"
  "bindS (report_status who (wstat r)) f s = f () (reported who r s)"
  by (simp_all add: report_status_def reported_def run_simps)

lemma reported_obs [obs_simps]:
  "answers (reported who r s) = answers s"
  "bufmode (reported who r s) = bufmode s"
  "printed (reported who r s) = printed s @ status_text who (wstat r)"
  "calls (reported who r s) = calls s"
  by (simp_all add: reported_def obs_simps)

text \<open>A reply that keeps a wait loop going, and one that ends it.\<close>

definition live :: "reply \<Rightarrow> bool" where
  "live r \<longleftrightarrow> rv r \<noteq> -1 \<and> \<not> terminal (wstat r)"

definition dead :: "reply \<Rightarrow> bool" where
  "dead r \<longleftrightarrow> rv r \<noteq> -1 \<and> terminal (wstat r)"

text \<open>The reply for a child that has exited.\<close>

definition exited_with :: "int \<Rightarrow> int \<Rightarrow> reply" where
  "exited_with pid n = (rep pid)\<lparr>wstat := exit_status n\<rparr>"

lemma exited_with_sel [simp]: "rv (exited_with pid n) = pid" "wstat (exited_with pid n) = exit_status n"
  by (simp_all add: exited_with_def)

lemma dead_exited: "pid \<noteq> -1 \<Longrightarrow> dead (exited_with pid n)"
  by (simp add: dead_def terminal_cases)

lemma live_continued: "pid \<noteq> -1 \<Longrightarrow> live ((rep pid)\<lparr>wstat := continued_status\<rparr>)"
  by (simp add: live_def terminal_cases)

text \<open>What is printed for each of the four kinds of status.\<close>

lemma status_text_kinds:
  "status_text who (exit_status n) = who @ ''exited, status='' @ fmt_d (n mod 256) @ ''\<newline>''"
  "0 < k \<Longrightarrow> k < 127 \<Longrightarrow> status_text who (signal_status k core) = who @ ''killed by signal '' @ fmt_d k @ ''\<newline>''"
  "0 < j \<Longrightarrow> j < 256 \<Longrightarrow> status_text who (stop_status j) = who @ ''stopped by signal '' @ fmt_d j @ ''\<newline>''"
  "status_text who continued_status = who @ ''continued\<newline>''"
  using status_exclusive(2) [OF signal_status_read(1) [of k core]] status_exclusive(3) [OF stop_status_read(1) [of j]]
    status_exclusive(4) [OF continued_status_read]
  by (simp_all add: status_text_def exit_status_read signal_status_read stop_status_read continued_status_read)

text \<open>The same report by arithmetic on the number, for every word the kernel could store: the low seven bits are a
  signal that killed, 0 for an exit and 127 for a stop or a continuation.\<close>

definition decoded :: "string \<Rightarrow> int \<Rightarrow> string" where
  "decoded who n =
     (if n mod 128 = 0 then who @ ''exited, status='' @ fmt_d (n div 256 mod 256) @ ''\<newline>''
      else if n mod 128 \<noteq> 127 then who @ ''killed by signal '' @ fmt_d (n mod 128) @ ''\<newline>''
      else if n mod 256 = 127 then who @ ''stopped by signal '' @ fmt_d (n div 256 mod 256) @ ''\<newline>''
      else if n = 65535 then who @ ''continued\<newline>''
      else [])"

lemma status_text_decoded: "status_text who st = decoded who (uint st)"
proof -
  have "0 < uint st mod 128 \<and> uint st mod 128 < 127 \<longleftrightarrow> uint st mod 128 \<noteq> 0 \<and> uint st mod 128 \<noteq> 127"
    using pos_mod_bound [of 128 "uint st"] pos_mod_sign [of 128 "uint st"] by linarith
  then show ?thesis
    by (simp add: status_text_def decoded_def wait_macros WSTOPSIG_def)
qed

lemma terminal_mod: "terminal st \<longleftrightarrow> uint st mod 128 \<noteq> 127"
  using pos_mod_bound [of 128 "uint st"] pos_mod_sign [of 128 "uint st"] unfolding terminal_def wait_macros by linarith

text \<open>A report prints a text and does nothing else.\<close>

locale reporter =
  fixes report :: "reply \<Rightarrow> process \<Rightarrow> process"
    and text_of :: "reply \<Rightarrow> string"
  assumes report_answers: "answers (report r s) = answers s"
    and report_printed: "printed (report r s) = printed s @ text_of r"
    and report_calls: "calls (report r s) = calls s"
    and report_bufmode: "bufmode (report r s) = bufmode s"
begin

lemma reap_obs:
  "answers (reap report c rs s) = drop (length rs) (answers s)"
  "printed (reap report c rs s) = printed s @ concat (map text_of rs)"
  "calls (reap report c rs s) = calls s @ map (Pair c) rs"
  "bufmode (reap report c rs s) = bufmode s"
  by (induction rs arbitrary: s)
    (simp_all add: report_answers report_printed report_calls report_bufmode obs_simps drop_Suc)

lemma reap_snoc: "reap report c (rs @ [t]) s = report t (logged c t (reap report c rs s))"
  by (induction rs arbitrary: s) simp_all

end

interpretation status_report: reporter "reported who" "\<lambda>r. status_text who (wstat r)" for who
  by unfold_locales (simp_all add: obs_simps)

lemmas reap_reported [obs_simps] = status_report.reap_obs

text \<open>
  The contract of the loop: with no reply left it waits in \<^verbatim>\<open>waitpid\<close>; a failing call runs
  \<open>on_fail\<close>; a terminal status is reported and ends the loop; any other status is reported
  and the loop goes on.
\<close>

locale wait_loop = reporter +
  fixes loop :: "unit stm"
    and pid :: int
    and opts :: int
    and on_fail :: "unit stm"
  assumes no_reply: "answers s = [] \<Longrightarrow> loop s = (Blocked (Waitpid pid opts), s)"
    and failed: "answers s = r # rs \<Longrightarrow> rv r = -1 \<Longrightarrow>
      loop s = on_fail (logged (Waitpid pid opts) r s)"
    and ended: "answers s = r # rs \<Longrightarrow> rv r \<noteq> -1 \<Longrightarrow> terminal (wstat r) \<Longrightarrow>
      loop s = (Ret (), report r (logged (Waitpid pid opts) r s))"
    and again: "answers s = r # rs \<Longrightarrow> rv r \<noteq> -1 \<Longrightarrow> \<not> terminal (wstat r) \<Longrightarrow>
      loop s = loop (report r (logged (Waitpid pid opts) r s))"
begin

lemma passes_live:
  "answers s = ws @ rest \<Longrightarrow> (\<And>w. w \<in> set ws \<Longrightarrow> live w) \<Longrightarrow>
     loop s = loop (reap report (Waitpid pid opts) ws s)"
  by (induction ws arbitrary: s) (simp_all add: again report_answers obs_simps live_def)

lemma returns:
  assumes "answers s = ws @ t # rest" "\<And>w. w \<in> set ws \<Longrightarrow> live w"
    and "dead t"
  shows "loop s = (Ret (), reap report (Waitpid pid opts) (ws @ [t]) s)"
  using passes_live [OF assms(1,2)] assms by (simp add: ended reap_obs reap_snoc dead_def)

lemma bind_returns:
  assumes "\<And>w. w \<in> set ws \<Longrightarrow> live w" "dead t" "answers s = ws @ t # rest"
  shows "bindS loop g s = g () (reap report (Waitpid pid opts) (ws @ [t]) s)"
  using returns [OF assms(3,1,2)] by (simp add: bindS_result(1))

lemma fails:
  assumes "answers s = ws @ t # rest" "\<And>w. w \<in> set ws \<Longrightarrow> live w" "rv t = -1"
  shows "loop s = on_fail (logged (Waitpid pid opts) t (reap report (Waitpid pid opts) ws s))"
  using passes_live [OF assms(1,2)] assms by (simp add: failed reap_obs)

lemma waits:
  assumes "\<And>w. w \<in> set (answers s) \<Longrightarrow> live w"
  shows "loop s = (Blocked (Waitpid pid opts), reap report (Waitpid pid opts) (answers s) s)"
  using passes_live [of s "answers s" "[]"] assms by (simp add: no_reply reap_obs)

text \<open>So the loop ends at the first reply that is a failure or a terminal status, and only
  there; until then it waits.\<close>

lemma ends_iff:
  assumes "\<And>s' c. fst (on_fail s') \<noteq> Blocked c"
  shows "(\<forall>c. fst (loop s) \<noteq> Blocked c) \<longleftrightarrow> (\<exists>r \<in> set (answers s). \<not> live r)"
proof (cases "\<exists>r \<in> set (answers s). \<not> live r")
  case True
  then obtain ws t rest where a: "answers s = ws @ t # rest" "\<not> live t" "\<And>w. w \<in> set ws \<Longrightarrow> live w"
    by (rule split_at_first) blast
  show ?thesis
  proof (cases "rv t = -1")
    case True
    with fails [OF a(1,3)] assms a show ?thesis by auto
  next
    case False
    with a have "dead t"
      by (simp add: live_def dead_def)
    with returns [OF a(1,3)] a show ?thesis by auto
  qed
next
  case False
  then have "fst (loop s) = Blocked (Waitpid pid opts)"
    using waits [of s] by auto
  with False show ?thesis by blast
qed

end

subsection \<open>Loops that keep the contract\<close>

text \<open>What most programs do when \<^verbatim>\<open>waitpid\<close> fails.\<close>

definition wait_failed :: "unit stm" where
  "wait_failed = block [perror ''Waitpid failed'', exit (-1)]"

text \<open>The programs write the loop with \<^verbatim>\<open>do ... while\<close>: the branch for a failing call either
  leaves the program or breaks, the other one reports and asks for the next status unless this
  one is terminal.\<close>

lemma wait_loop_do_while:
  assumes loop: "loop = do_while (bindS (sys (Waitpid pid opts)) (\<lambda>r. if rv r = -1 then stop else next_status r))"
    and next_status: "\<And>r s. next_status r s = (Ret (\<not> terminal (wstat r)), report r s)"
    and stop: "\<And>s. (\<exists>n s'. stop s = (Exited n, s') \<and> on_fail s = (Exited n, s')) \<or>
        (\<exists>s'. stop s = (Ret False, s') \<and> on_fail s = (Ret (), s') \<and> answers s' = answers s)"
    and report: "\<And>r s. answers (report r s) = answers s"
      "\<And>r s. printed (report r s) = printed s @ text_of r"
      "\<And>r s. calls (report r s) = calls s" "\<And>r s. bufmode (report r s) = bufmode s"
  shows "wait_loop report text_of loop pid opts on_fail"
proof
  fix s :: process and r :: reply and rs :: "reply list"
  assume a: "answers s = r # rs"
  let ?s = "logged (Waitpid pid opts) r s"
  have tl: "answers ?s = rs"
    by (simp add: a obs_simps)
  show "loop s = on_fail ?s" if "rv r = -1"
    using stop [of ?s] do_while_exit [OF a] do_while_done [OF a] that tl by (auto simp: loop)
  show "loop s = (Ret (), report r ?s)" if "rv r \<noteq> -1" "terminal (wstat r)"
    unfolding loop using that tl by (intro do_while_done [OF a]) (simp_all add: next_status report)
  show "loop s = loop (report r ?s)" if "rv r \<noteq> -1" "\<not> terminal (wstat r)"
    unfolding loop using that tl by (intro do_while_again [OF a]) (simp_all add: next_status report)
qed (simp_all add: loop do_while_blocked report)

end
