(* ===== verification/Thread_Pool.thy ===== *)
theory Thread_Pool
  imports Wait_Loop
begin

text \<open>
  Creating and joining threads. Nine programs create a number of threads in one \<^verbatim>\<open>for\<close> loop
  and join them in another. The contracts of the two loops are locales; the loops of the
  programs (theory \<open>Thread_Programs\<close>) interpret them.

  A thread body runs as its own statement and ends with the integer its exit value points to;
  \<^verbatim>\<open>pthread_join\<close> replies with that integer. The programs do not check that it succeeded: when it
  fails they use a pointer that was never set.
\<close>

text \<open>Conversion of an \<^verbatim>\<open>int\<close> to \<^verbatim>\<open>size_t\<close>, in comparisons with \<^verbatim>\<open>strlen\<close>.\<close>

definition size_t :: "int \<Rightarrow> int" where
  "size_t i = i mod 2 ^ 64"

definition PAD :: string where
  "PAD = ''           '' @ [NUL]"

text \<open>\<^verbatim>\<open>pad[i] = c\<close>, which has to stay inside the array, and \<^verbatim>\<open>strlen(pad)\<close>, which has to find the end of the string there.\<close>

definition pad_store :: "int \<Rightarrow> char \<Rightarrow> string \<Rightarrow> string stm" where
  "pad_store i c pad =
     (if 0 \<le> i \<and> i < int (length pad) then ret (pad[nat i := c])
      else undefined_behaviour ''pad[i] is outside the array'')"

definition pad_strlen :: "string \<Rightarrow> int stm" where
  "pad_strlen pad = (if terminated pad then ret (int (strlen pad)) else undefined_behaviour ''pad has no end of string'')"

text \<open>\<^verbatim>\<open>if (i < strlen(pad)) pad[i] = c;\<close>\<close>

definition pad_set :: "int \<Rightarrow> char \<Rightarrow> string \<Rightarrow> string stm" where
  "pad_set i c pad = bindS (pad_strlen pad) (\<lambda>n. if size_t i < n then pad_store i c pad else ret pad)"

text \<open>\<^verbatim>\<open>threads[i]\<close>, of which the create loop has set the elements in the list.\<close>

definition thread_at :: "int list \<Rightarrow> int \<Rightarrow> int stm" where
  "thread_at threads i =
     (if 0 \<le> i \<and> i < int (length threads) then ret (threads ! nat i)
      else undefined_behaviour ''threads[i] has no value'')"

lemma thread_at_inside: "0 \<le> i \<Longrightarrow> nat i < length threads \<Longrightarrow> thread_at threads i = ret (threads ! nat i)"
  by (auto simp: thread_at_def)

subsection \<open>Creating\<close>

text \<open>
  \<open>body i hs\<close> is an iteration that has the handles \<open>hs\<close> of the threads made so far. A thread
  runs \<open>func\<close> on the number \<open>tid i\<close>; the arrays have \<open>limit\<close> elements.
\<close>

definition create_text :: "int \<Rightarrow> string" where
  "create_text n = ''Error: Unable to create thread '' @ fmt_d n @ ''\<newline>''"

primrec created :: "string \<Rightarrow> (int \<Rightarrow> int) \<Rightarrow> int \<Rightarrow> reply list \<Rightarrow> process \<Rightarrow> process" where
  "created func tid i [] s = s"
| "created func tid i (r # rs) s = created func tid (i + 1) rs (logged (Pthread_create func (tid i)) r s)"

lemma created_obs [obs_simps]:
  "answers (created func tid i rs s) = drop (length rs) (answers s)"
  "obuf (created func tid i rs s) = obuf s"
  "bufmode (created func tid i rs s) = bufmode s"
  "printed (created func tid i rs s) = printed s"
  by (induction rs arbitrary: i s) (simp_all add: obs_simps drop_Suc)

lemma created_own [obs_simps]:
  "own (created func tid i rs s) = own s" "owned (created func tid i rs s) = owned s"
  by (induction rs arbitrary: i s) (simp_all add: obs_simps)

lemma created_calls [obs_simps]:
  "calls (created func tid i rs s) = calls s @
     map (\<lambda>(k, r). (Pthread_create func (tid (i + int k)), r)) (enumerate 0 rs)"
proof (induction rs arbitrary: i s)
  case (Cons r rs)
  have "map (\<lambda>(k, r). (Pthread_create func (tid (i + int k)), r)) (enumerate (Suc 0) rs) =
      map (\<lambda>(k, r). (Pthread_create func (tid (i + 1 + int k)), r)) (enumerate 0 rs)"
    by (simp add: enumerate_Suc_eq ac_simps case_prod_beta comp_def)
  with Cons show ?case
    by (simp add: obs_simps)
qed simp

locale create_loop =
  fixes body :: "int \<Rightarrow> int list \<Rightarrow> int list stm"
    and func :: string
    and tid :: "int \<Rightarrow> int"
    and limit :: int
  assumes waits: "0 \<le> i \<Longrightarrow> i < limit \<Longrightarrow> answers s = [] \<Longrightarrow>
      body i hs s = (Blocked (Pthread_create func (tid i)), s)"
    and makes: "0 \<le> i \<Longrightarrow> i < limit \<Longrightarrow> answers s = r # rs \<Longrightarrow> rv r = 0 \<Longrightarrow>
      body i hs s = (Ret (hs @ [out_int 0 r]), logged (Pthread_create func (tid i)) r s)"
    and fails: "0 \<le> i \<Longrightarrow> i < limit \<Longrightarrow> answers s = r # rs \<Longrightarrow> rv r \<noteq> 0 \<Longrightarrow>
      body i hs s = (Exited (-1), flush_out (put_out (create_text (tid i))
        (logged (Pthread_create func (tid i)) r s)))"
    and outside: "limit \<le> i \<Longrightarrow> \<exists>w. body i hs s = (Undefined w, s)"
begin

lemma creates_from:
  assumes "answers s = rs @ rest" "list_all (\<lambda>r. rv r = 0) rs" "0 \<le> i" "i + int (length rs) \<le> limit"
  shows "for_from (length rs) i body hs s = (Ret (hs @ map (out_int 0) rs), created func tid i rs s)"
  using assms
proof (induction rs arbitrary: s i hs)
  case Nil
  then show ?case by (simp add: run_simps)
next
  case (Cons r rs)
  then have "body i hs s = (Ret (hs @ [out_int 0 r]), logged (Pthread_create func (tid i)) r s)"
    by (intro makes) auto
  with Cons show ?case
    by (simp add: bindS_result(1) obs_simps)
qed

lemma creates:
  assumes "answers s = rs @ rest" "list_all (\<lambda>r. rv r = 0) rs" "n = int (length rs)" "n \<le> limit"
  shows "bindS (for_loop 0 n body []) k s = k (map (out_int 0) rs) (created func tid 0 rs s)"
  using creates_from [OF assms(1,2), of 0 "[]"] assms(3,4)
  by (simp add: for_loop_def bindS_result(1))

lemma create_fails:
  assumes "answers s = rs @ r # rest" "list_all (\<lambda>r. rv r = 0) rs" "rv r \<noteq> 0"
    and "int (length rs) < n" "n \<le> limit"
  shows "bindS (for_loop 0 n body []) k s = (Exited (-1), flush_out (put_out (create_text (tid (int (length rs))))
    (logged (Pthread_create func (tid (int (length rs)))) r (created func tid 0 rs s))))"
proof -
  let ?j = "int (length rs)"
  have "for_from (length rs) 0 body [] s = (Ret (map (out_int 0) rs), created func tid 0 rs s)"
    using creates_from [OF assms(1,2), of 0 "[]"] assms(4,5) by simp
  moreover have "body ?j (map (out_int 0) rs) (created func tid 0 rs s) =
      (Exited (-1), flush_out (put_out (create_text (tid ?j)) (logged (Pthread_create func (tid ?j)) r (created func tid 0 rs s))))"
    using assms by (intro fails) (auto simp: obs_simps)
  ultimately have "for_loop 0 n body [] s =
      (Exited (-1), flush_out (put_out (create_text (tid ?j)) (logged (Pthread_create func (tid ?j)) r (created func tid 0 rs s))))"
    using assms(4) by (intro for_loop_leaves) auto
  then show ?thesis
    by (rule bindS_result)
qed

lemma create_waits:
  assumes "answers s = rs" "list_all (\<lambda>r. rv r = 0) rs" "int (length rs) < n" "n \<le> limit"
  shows "bindS (for_loop 0 n body []) k s =
    (Blocked (Pthread_create func (tid (int (length rs)))), created func tid 0 rs s)"
proof -
  have "for_loop 0 n body [] s = (Blocked (Pthread_create func (tid (int (length rs)))), created func tid 0 rs s)"
    using creates_from [of s rs "[]" 0 "[]"] assms
    by (intro for_loop_leaves [where k = "length rs"]) (auto simp: obs_simps intro!: waits)
  then show ?thesis
    by (rule bindS_result)
qed

text \<open>More threads than the arrays have room for: the loop writes past their end.\<close>

lemma creates_too_many:
  assumes "answers s = rs @ rest" "list_all (\<lambda>r. rv r = 0) rs" "int (length rs) = limit" "limit < n"
  shows "\<exists>w. bindS (for_loop 0 n body []) k s = (Undefined w, created func tid 0 rs s)"
proof -
  obtain w where "body limit (map (out_int 0) rs) (created func tid 0 rs s) = (Undefined w, created func tid 0 rs s)"
    using outside by blast
  then have "for_loop 0 n body [] s = (Undefined w, created func tid 0 rs s)"
    using creates_from [OF assms(1,2), of 0 "[]"] assms(3,4) by (intro for_loop_leaves) auto
  then show ?thesis
    by (metis bindS_result(6))
qed

end

subsection \<open>Joining\<close>

text \<open>
  \<open>body hs i p\<close> joins the thread with handle \<open>hs ! i\<close> and prints \<open>line i (hs ! i) r\<close>; \<open>ok i p\<close> is
  what holds of the loop state \<open>p\<close> before iteration \<open>i\<close>, and \<open>fin\<close> what is done after printing.
\<close>

fun join_text :: "(int \<Rightarrow> int \<Rightarrow> reply \<Rightarrow> string) \<Rightarrow> int \<Rightarrow> (int \<times> reply) list \<Rightarrow> string" where
  "join_text line i [] = []"
| "join_text line i ((h, r) # hrs) = line i h r @ join_text line (i + 1) hrs"

locale join_loop =
  fixes body :: "int list \<Rightarrow> int \<Rightarrow> 'p \<Rightarrow> 'p stm"
    and line :: "int \<Rightarrow> int \<Rightarrow> reply \<Rightarrow> string"
    and ok :: "int \<Rightarrow> 'p \<Rightarrow> bool"
    and fin :: "process \<Rightarrow> process"
  assumes joins_one: "ok i p \<Longrightarrow> answers s = r # rs \<Longrightarrow> rv r = 0 \<Longrightarrow> 0 \<le> i \<Longrightarrow> nat i < length hs \<Longrightarrow>
      \<exists>p'. ok (i + 1) p' \<and>
        body hs i p s = (Ret p', fin (put_out (line i (hs ! nat i) r) (logged (Pthread_join (hs ! nat i)) r s)))"
    and fin_obs: "answers (fin s) = answers s" "printed (fin s) = printed s" "calls (fin s) = calls s"
    and join_waits: "ok i p \<Longrightarrow> answers s = [] \<Longrightarrow> 0 \<le> i \<Longrightarrow> nat i < length hs \<Longrightarrow> body hs i p s = (Blocked (Pthread_join (hs ! nat i)), s)"
begin

lemma joins_from:
  assumes "ok (int k) p" "answers s = rs @ rest" "k + length rs \<le> length hs" "list_all (\<lambda>r. rv r = 0) rs"
  shows "\<exists>p' s'. for_from (length rs) (int k) (body hs) p s = (Ret p', s') \<and> ok (int (k + length rs)) p' \<and> answers s' = rest \<and>
    printed s' = printed s @ join_text line (int k) (zip (drop k hs) rs) \<and>
    calls s' = calls s @ map (\<lambda>(h, r). (Pthread_join h, r)) (zip (drop k hs) rs)"
  using assms
proof (induction rs arbitrary: s k p)
  case Nil
  then show ?case by (simp add: run_simps)
next
  case (Cons r rs)
  let ?h = "hs ! k"
  have hs: "drop k hs = ?h # drop (Suc k) hs"
    using Cons.prems(3) by (simp add: Cons_nth_drop_Suc)
  have a: "answers s = r # rs @ rest" "rv r = 0" "0 \<le> int k" "nat (int k) < length hs"
    using Cons.prems by simp_all
  from joins_one [OF Cons.prems(1) a] obtain p1 where
    p1: "ok (int (Suc k)) p1"
      "body hs (int k) p s = (Ret p1, fin (put_out (line (int k) ?h r) (logged (Pthread_join ?h) r s)))"
    by (auto simp: ac_simps)
  define s1 where "s1 = fin (put_out (line (int k) ?h r) (logged (Pthread_join ?h) r s))"
  have s1: "answers s1 = rs @ rest" "printed s1 = printed s @ line (int k) ?h r"
    "calls s1 = calls s @ [(Pthread_join ?h, r)]"
    using a(1) by (simp_all add: s1_def fin_obs obs_simps)
  from Cons.IH [OF p1(1) s1(1)] Cons.prems(3,4) obtain p' s' where
    "for_from (length rs) (int (Suc k)) (body hs) p1 s1 = (Ret p', s')" "ok (int (Suc k + length rs)) p'" "answers s' = rest"
    "printed s' = printed s1 @ join_text line (int (Suc k)) (zip (drop (Suc k) hs) rs)"
    "calls s' = calls s1 @ map (\<lambda>(h, r). (Pthread_join h, r)) (zip (drop (Suc k) hs) rs)"
    by auto
  moreover have "body hs (int k) p s = (Ret p1, s1)"
    using p1(2) by (simp add: s1_def)
  ultimately show ?case
    by (auto simp: hs s1 bindS_result(1) ac_simps)
qed

lemma joins:
  assumes "ok 0 p" "answers s = rs @ rest" "length hs = length rs" "n = int (length rs)" "list_all (\<lambda>r. rv r = 0) rs"
  shows "\<exists>p' s'. for_loop 0 n (body hs) p s = (Ret p', s') \<and> answers s' = rest \<and>
    printed s' = printed s @ join_text line 0 (zip hs rs) \<and>
    calls s' = calls s @ map (\<lambda>(h, r). (Pthread_join h, r)) (zip hs rs)"
  using joins_from [of 0 p s rs rest hs] assms by (fastforce simp: for_loop_def)

lemma join_blocks:
  assumes "ok 0 p" "answers s = rs" "length rs < length hs" "n = int (length hs)" "list_all (\<lambda>r. rv r = 0) rs"
  shows "\<exists>s'. bindS (for_loop 0 n (body hs) p) k s = (Blocked (Pthread_join (hs ! length rs)), s')"
proof -
  obtain p' s' where "for_from (length rs) 0 (body hs) p s = (Ret p', s')" "ok (int (length rs)) p'" "answers s' = []"
    using joins_from [of 0 p s rs "[]" hs] assms by auto
  then have "for_loop 0 n (body hs) p s = (Blocked (Pthread_join (hs ! length rs)), s')"
    using assms(3,4) join_waits [of "int (length rs)" p' s' hs] by (intro for_loop_leaves) auto
  then have "bindS (for_loop 0 n (body hs) p) k s = (Blocked (Pthread_join (hs ! length rs)), s')"
    by (rule bindS_result)
  then show ?thesis ..
qed

end

subsection \<open>The padding of the join loop\<close>

text \<open>
  The join loops mean to indent their line by the thread's number: cut \<^verbatim>\<open>pad\<close> at \<open>i\<close>, print it,
  put the blank back. But the blank is put back only \<^verbatim>\<open>if (i < strlen(pad))\<close>, which the cut has
  just made false, so after the first iteration \<^verbatim>\<open>pad\<close> is empty for good.
\<close>

definition pad_ok :: "int \<Rightarrow> string \<Rightarrow> bool" where
  "pad_ok i pad \<longleftrightarrow> (if i = 0 then pad = PAD else \<exists>rest. pad = NUL # rest)"

lemma strlen_PAD [simp]: "strlen PAD = 11"
  by (simp add: strlen_def cstr_def PAD_def NUL_def)

lemma size_t_small: "0 \<le> i \<Longrightarrow> i < 2 ^ 64 \<Longrightarrow> size_t i = i"
  by (simp add: size_t_def)

lemma size_t_nonneg: "0 \<le> size_t i"
  by (simp add: size_t_def)

text \<open>\<open>padded i pad\<close> is \<^verbatim>\<open>pad\<close> after it was cut at \<open>i\<close>; no access to \<^verbatim>\<open>pad\<close> in the loops leaves the array.\<close>

definition padded :: "int \<Rightarrow> string \<Rightarrow> string" where
  "padded i pad = (if size_t i < int (strlen pad) then pad[nat i := NUL] else pad)"

lemma PAD_terminated: "terminated PAD" "length PAD = 12"
  by (simp_all add: PAD_def terminated_def)

lemma pad_cut:
  assumes "pad_ok i pad" "0 \<le> i"
  shows "pad_set i NUL pad = ret (padded i pad)" "cstr (padded i pad) = []"
    "pad_set i c (padded i pad) = ret (padded i pad)" "pad_ok (i + 1) (padded i pad)"
proof -
  have "\<exists>rest. padded i pad = NUL # rest"
  proof (cases "i = 0")
    case True
    with assms have "pad = PAD"
      by (simp add: pad_ok_def)
    moreover have "PAD = CHR '' '' # tl PAD"
      by (simp add: PAD_def)
    ultimately show ?thesis
      using True strlen_PAD by (auto simp: padded_def size_t_def) (metis list_update_code(2))
  next
    case False
    with assms show ?thesis
      using size_t_nonneg [of i] by (auto simp: pad_ok_def padded_def strlen_def cstr_def)
  qed
  then obtain rest where p: "padded i pad = NUL # rest"
    by blast
  then have "strlen (padded i pad) = 0" "terminated (padded i pad)"
    by (simp_all add: strlen_def cstr_def terminated_def)
  with p assms(2) size_t_nonneg [of i] show "cstr (padded i pad) = []"
      "pad_set i c (padded i pad) = ret (padded i pad)" "pad_ok (i + 1) (padded i pad)"
    by (simp_all add: strlen_def pad_ok_def pad_set_def pad_strlen_def bindS_ret)
  show "pad_set i NUL pad = ret (padded i pad)"
  proof (cases "i = 0")
    case True
    with assms(1) show ?thesis
      by (simp add: pad_ok_def padded_def pad_set_def pad_strlen_def pad_store_def PAD_terminated bindS_ret)
  next
    case False
    with assms(1) size_t_nonneg [of i] show ?thesis
      by (auto simp: pad_ok_def padded_def pad_set_def pad_strlen_def terminated_def strlen_def cstr_def bindS_ret)
  qed
qed

text \<open>In a thread's own line the padding does grow with the thread's number.\<close>

lemma pad_thread_set:
  assumes "0 \<le> i" "i < 2 ^ 64"
  shows "pad_set i NUL PAD = ret (padded i PAD)"
  using assms by (simp add: padded_def pad_set_def pad_strlen_def pad_store_def PAD_terminated bindS_ret size_t_small)

lemma pad_set_cases:
  obtains "pad_set i NUL PAD = ret (padded i PAD)" | "pad_set i NUL PAD = undefined_behaviour ''pad[i] is outside the array''"
  by (cases "size_t i < 11"; cases "0 \<le> i \<and> i < 12")
    (auto simp: padded_def pad_set_def pad_strlen_def pad_store_def PAD_terminated bindS_ret)

lemma pad_thread:
  assumes "0 \<le> i" "i < 11"
  shows "cstr (padded i PAD) = replicate (nat i) CHR '' ''"
proof -
  have "cstr PAD = replicate 11 CHR '' ''"
    by (simp add: cstr_def PAD_def NUL_def numeral_eq_Suc)
  with assms show ?thesis
    by (simp add: padded_def size_t_small cstr_update_NUL nat_less_iff PAD_terminated)
qed

end
