(* ===== verification/Fork_Programs.thy ===== *)
theory Fork_Programs
  imports Wait_Loop
begin

text \<open>
  The programs that fork, change variables, exec and wait: \<^verbatim>\<open>fork.c\<close>, \<^verbatim>\<open>serialfork.c\<close>,
  \<^verbatim>\<open>parallelfork.c\<close>, \<^verbatim>\<open>forkexec.c\<close>, \<^verbatim>\<open>multiforkexec.c\<close> and \<^verbatim>\<open>exec.c\<close>. The program text is run
  once per process: a process that gets 0 from \<^verbatim>\<open>fork\<close> goes on as the child, one that gets a
  positive number as the parent.
\<close>

subsection \<open>Variables\<close>

text \<open>The four variables the programs watch: one on the stack, one static, one global and one
  on the heap.\<close>

record vars =
  localvar :: int
  staticvar :: int
  globalvar :: int
  heap0 :: int

definition initial_vars :: vars where
  "initial_vars = \<lparr>localvar = 0x01, staticvar = 0x11, globalvar = 0x21, heap0 = 0x31\<rparr>"

definition child_vars :: vars where
  "child_vars = \<lparr>localvar = 0x02, staticvar = 0x12, globalvar = 0x22, heap0 = 0x32\<rparr>"

definition parent_vars :: vars where
  "parent_vars = \<lparr>localvar = 0x03, staticvar = 0x13, globalvar = 0x23, heap0 = 0x33\<rparr>"

definition vars_text :: "vars \<Rightarrow> string" where
  "vars_text v = fmt_02x (localvar v) @ '' '' @ fmt_02x (staticvar v) @ '' '' @
     fmt_02x (globalvar v) @ '' '' @ fmt_02x (heap0 v)"

definition ids_text :: "int \<Rightarrow> int \<Rightarrow> int \<Rightarrow> int \<Rightarrow> int \<Rightarrow> int \<Rightarrow> string" where
  "ids_text pid ppid uid euid gid egid =
     ''PID '' @ fmt_d pid @ '', parent PID '' @ fmt_d ppid @ '', uid '' @ fmt_d uid @
     '', euid '' @ fmt_d euid @ '', gid '' @ fmt_d gid @ '', egid '' @ fmt_d egid @ ''\<newline>''"

text \<open>\<^verbatim>\<open>printf(prefix "PID %d, ...", getpid(), getppid(), ...)\<close>\<close>

definition print_ids :: "string \<Rightarrow> unit stm" where
  "print_ids prefix =
     bindS (sysv Getpid) (\<lambda>pid. bindS (sysv Getppid) (\<lambda>ppid.
     bindS (sysv Getuid) (\<lambda>uid. bindS (sysv Geteuid) (\<lambda>euid.
     bindS (sysv Getgid) (\<lambda>gid. bindS (sysv Getegid) (\<lambda>egid.
       printf (prefix @ ids_text pid ppid uid euid gid egid)))))))"

subsection \<open>\<^verbatim>\<open>fork.c\<close>\<close>

definition fork_wait :: "int \<Rightarrow> unit stm" where
  "fork_wait cpid = do_while (bindS (sys (Waitpid cpid WAIT_OPTS)) (\<lambda>r.
     if rv r = -1 then yields [perror ''Waitpid failed'', exit (-1)] False
     else yields [report_status [] (wstat r)]
       (\<not> WIFEXITED (wstat r) \<and> \<not> WIFSIGNALED (wstat r))))"

definition fork_child :: "vars \<Rightarrow> unit stm" where
  "fork_child v = block [
     print_ids ''Child '',
     printf (''child local, static, global = '' @ vars_text v @ ''\<newline>''),
     printf (''child changed local, static, global = '' @ vars_text child_vars @ ''\<newline>'')]"

definition fork_parent :: "int \<Rightarrow> vars \<Rightarrow> unit stm" where
  "fork_parent cpid v = block [
     printf (''parent before check if child exitted local, static, global = '' @ vars_text v @ ''\<newline>''),
     fork_wait cpid,
     printf (''parent after child exitted local, static, global = '' @ vars_text v @ ''\<newline>''),
     printf (''parent changed local, static, global = '' @ vars_text parent_vars @ ''\<newline>'')]"

definition fork_main :: "string list \<Rightarrow> unit stm" where
  "fork_main argv = block [
     printf (''Main program '' @ arg0 argv @ '' started with '' @ fmt_d (argc argv) @ '' args\<newline>''),
     bindS (sysv (Malloc 32)) (\<lambda>heapptr.
       if heapptr = 0 then signalled SIGSEGV \<comment> \<open>heapptr[0] is stored without a check\<close>
       else block [
         printf (''Initial local, static, global, heap = '' @ vars_text initial_vars @ ''\<newline>''),
         bindS (sysv Fork) (\<lambda>cpid.
           if cpid = -1 then block [perror ''fork failed'', exit (-1)]
           else if cpid = 0 then fork_child initial_vars
           else fork_parent cpid initial_vars)]),
     exit 0]"

subsection \<open>\<^verbatim>\<open>serialfork.c\<close>\<close>

definition serialfork_wait :: "int \<Rightarrow> unit stm" where
  "serialfork_wait cpid = do_while (bindS (sys (Waitpid cpid WAIT_OPTS)) (\<lambda>r.
     if rv r = -1 then yields [perror ''Waitpid failed'', exit (-1)] False
     else yields [report_status [] (wstat r)]
       (\<not> WIFEXITED (wstat r) \<and> \<not> WIFSIGNALED (wstat r))))"

definition serialfork_child :: "int \<Rightarrow> vars \<Rightarrow> unit stm" where
  "serialfork_child forkno v = block [
     print_ids (''Child '' @ fmt_d forkno @ '': ''),
     printf ('' child local, static, global = '' @ vars_text v @ ''\<newline>''),
     fflush,
     printf ('' child changed local, static, global = '' @ vars_text child_vars @ ''\<newline>''),
     fflush,
     exit forkno]"

definition serialfork_parent :: "int \<Rightarrow> vars \<Rightarrow> unit stm" where
  "serialfork_parent cpid v = block [
     printf (''parent before check if child exitted local, static, global = '' @ vars_text v @ ''\<newline>''),
     fflush,
     serialfork_wait cpid,
     printf (''parent after child exitted local, static, global = '' @ vars_text v @ ''\<newline>''),
     printf (''parent changed local, static, global = '' @ vars_text parent_vars @ ''\<newline>''),
     fflush]"

definition serialfork_body :: "int \<Rightarrow> vars \<Rightarrow> vars stm" where
  "serialfork_body forkno v = bindS (sysv Fork) (\<lambda>cpid.
     if cpid = -1 then
       yields [printf (''Fork '' @ fmt_d forkno @ '' failed\<newline>''), perror ''fork failed'', exit (-1)] v
     else if cpid = 0 then yields [serialfork_child forkno v] child_vars
     else yields [serialfork_parent cpid v] parent_vars)"

definition numforks_arg :: "string list \<Rightarrow> int" where
  "numforks_arg argv = (if argc argv > 1 then atoi (argv ! 1) else 5)"

definition serialfork_main :: "string list \<Rightarrow> unit stm" where
  "serialfork_main argv = block [
     printf (arg0 argv @ '' will fork '' @ fmt_d (numforks_arg argv) @ '' times\<newline>''),
     fflush,
     bindS (sysv (Malloc 32)) (\<lambda>heapptr.
       if heapptr = 0 then signalled SIGSEGV
       else block [
         printf (''Initial local, static, global, heap = '' @ vars_text initial_vars @ ''\<newline>''),
         fflush,
         bindS (for_loop 0 (numforks_arg argv) serialfork_body initial_vars) (\<lambda>_. skip)]),
     exit 0]"

subsection \<open>\<^verbatim>\<open>parallelfork.c\<close>\<close>

text \<open>The loop state is the variable \<^verbatim>\<open>cpid\<close>, which has no value before the first
  \<^verbatim>\<open>fork\<close>.\<close>

definition parallelfork_child :: "int \<Rightarrow> vars \<Rightarrow> unit stm" where
  "parallelfork_child forkno v = block [
     print_ids (''Child '' @ fmt_d forkno @ '': ''),
     printf ('' child local, static, global = '' @ vars_text v @ ''\<newline>''),
     fflush,
     printf ('' child changed local, static, global = '' @ vars_text child_vars @ ''\<newline>''),
     fflush,
     do_call (Sleep 10),
     exit forkno]"

definition parallelfork_body :: "int \<Rightarrow> int option \<Rightarrow> int option stm" where
  "parallelfork_body forkno _ = bindS (sysv Fork) (\<lambda>cpid.
     if cpid = -1 then
       yields [printf (''Fork '' @ fmt_d forkno @ '' failed\<newline>''), perror ''fork failed'', exit (-1)] (Some cpid)
     else if cpid = 0 then yields [parallelfork_child forkno initial_vars] (Some cpid)
     else ret (Some cpid))"

definition parallelfork_wait :: "int \<Rightarrow> unit stm" where
  "parallelfork_wait cpid = do_while (bindS (sys (Waitpid cpid WAIT_OPTS)) (\<lambda>r.
     if rv r = -1 then ret False
     else yields [report_status [] (wstat r)]
       (\<not> WIFEXITED (wstat r) \<and> \<not> WIFSIGNALED (wstat r))))"

definition parallelfork_main :: "string list \<Rightarrow> unit stm" where
  "parallelfork_main argv = block [
     printf (arg0 argv @ '' will fork '' @ fmt_d (numforks_arg argv) @ '' times\<newline>''),
     fflush,
     bindS (sysv (Malloc 32)) (\<lambda>heapptr.
       if heapptr = 0 then signalled SIGSEGV
       else block [
         printf (''Initial local, static, global, heap = '' @ vars_text initial_vars @ ''\<newline>''),
         fflush,
         bindS (for_loop 0 (numforks_arg argv) parallelfork_body None) (\<lambda>last.
           case last of
             None \<Rightarrow> undefined_behaviour ''cpid has no value''
           | Some cpid \<Rightarrow> parallelfork_wait cpid),
         printf (''parent after all children exitted local, static, global = '' @ vars_text initial_vars @ ''\<newline>''),
         printf (''parent changed local, static, global = '' @ vars_text parent_vars @ ''\<newline>''),
         fflush]),
     exit 0]"

subsection \<open>\<^verbatim>\<open>forkexec.c\<close>\<close>

definition forkexec_wait :: "int \<Rightarrow> unit stm" where
  "forkexec_wait cpid = do_while (bindS (sys (Waitpid cpid WAIT_OPTS)) (\<lambda>r.
     if rv r = -1 then yields [perror ''Waitpid failed'', exit (-1)] False
     else yields [report_status [] (wstat r)]
       (\<not> WIFEXITED (wstat r) \<and> \<not> WIFSIGNALED (wstat r))))"

text \<open>\<^verbatim>\<open>execve(argv[1], argv+1, envp)\<close> and its error branch, shared by \<^verbatim>\<open>forkexec.c\<close>,
  \<^verbatim>\<open>multiforkexec.c\<close> and \<^verbatim>\<open>exec.c\<close>.\<close>

definition exec_args :: "string list \<Rightarrow> string list \<Rightarrow> unit stm" where
  "exec_args argv envp =
     (if argc argv < 2 then undefined_behaviour ''argv[1] is past the end of argv''
      else bindS (execve (argv ! 1) (drop 1 argv) envp) (\<lambda>v.
     only_if (v = -1) [
       printf (''Failed to start '' @ argv ! 1 @ '' with '' @ fmt_d (argc argv) @ '' args\<newline>''),
       perror ''Could not execve'']))"

definition forkexec_main :: "string list \<Rightarrow> string list \<Rightarrow> unit stm" where
  "forkexec_main argv envp = block [
     printf (''Main program '' @ arg0 argv @ '' started with '' @ fmt_d (argc argv) @ '' args\<newline>''),
     bindS (sysv Fork) (\<lambda>cpid.
       if cpid = -1 then block [perror ''fork failed'', exit (-1)]
       else if cpid = 0 then
         (if argc argv = 1 then printf ''Need name of command to exec as first argument\<newline>''
          else exec_args argv envp)
       else forkexec_wait cpid),
     exit 0]"

subsection \<open>\<^verbatim>\<open>multiforkexec.c\<close>\<close>

definition multiforkexec_wait :: "int \<Rightarrow> unit stm" where
  "multiforkexec_wait cpid = do_while (bindS (sys (Waitpid cpid WAIT_OPTS)) (\<lambda>r.
     if rv r = -1 then yields [perror ''Waitpid failed'', exit (-1)] False
     else yields [report_status [] (wstat r)]
       (\<not> WIFEXITED (wstat r) \<and> \<not> WIFSIGNALED (wstat r))))"

definition multiforkexec_body :: "string list \<Rightarrow> string list \<Rightarrow> int \<Rightarrow> vars \<Rightarrow> vars stm" where
  "multiforkexec_body argv envp forkno v = bindS (sysv Fork) (\<lambda>cpid.
     if cpid = -1 then
       yields [printf (''Fork '' @ fmt_d forkno @ '' failed\<newline>''), perror ''fork failed'', exit (-1)] v
     else if cpid = 0 then
       yields [if argc argv = 1 then printf ''Need name of command to exec as first argument\<newline>''
               else exec_args argv envp] v
     else yields [
       printf (''parent before check if child exitted local, static, global = '' @ vars_text v @ ''\<newline>''),
       fflush,
       multiforkexec_wait cpid,
       printf (''parent after child exitted local, static, global = '' @ vars_text v @ ''\<newline>''),
       fflush,
       printf (''parent changed local, static, global = '' @ vars_text parent_vars @ ''\<newline>''),
       fflush] parent_vars)"

text \<open>With an argument, \<^verbatim>\<open>argc--; argv++\<close> drops the first element.\<close>

definition multiforkexec_argv :: "string list \<Rightarrow> string list" where
  "multiforkexec_argv argv = (if argc argv > 1 then drop 1 argv else argv)"

definition multiforkexec_main :: "string list \<Rightarrow> string list \<Rightarrow> unit stm" where
  "multiforkexec_main argv envp = block [
     printf (arg0 (multiforkexec_argv argv) @ '' will fork '' @ fmt_d (numforks_arg argv) @ '' times\<newline>''),
     fflush,
     bindS (sysv (Malloc 32)) (\<lambda>heapptr.
       if heapptr = 0 then signalled SIGSEGV
       else block [
         printf (''Initial local, static, global, heap = '' @ vars_text initial_vars @ ''\<newline>''),
         fflush,
         bindS (for_loop 0 (numforks_arg argv)
             (multiforkexec_body (multiforkexec_argv argv) envp) initial_vars) (\<lambda>_. skip)]),
     exit 0]"

subsection \<open>\<^verbatim>\<open>exec.c\<close>\<close>

definition exec_main :: "string list \<Rightarrow> string list \<Rightarrow> unit stm" where
  "exec_main argv envp = block [
     printf (''Main program '' @ arg0 argv @ '' started with '' @ fmt_d (argc argv) @ '' args\<newline>''),
     if argc argv = 1 then
       bindS (execve ''./hello-stat'' [''argument1'', ''argument with spaces''] [''some'', ''environment''])
         (\<lambda>v. only_if (v = -1) [printf ''Failed to start ./hello-stat\<newline>'', perror ''Could not execve''])
     else exec_args argv envp,
     exit 1]"

subsection \<open>The wait loops keep their contract\<close>

lemmas wait_loop_simps = run_simps obs_simps wait_failed_def terminal_def

interpretation fork_wl: wait_loop "reported []" "\<lambda>r. status_text [] (wstat r)"
    "fork_wait cpid" cpid WAIT_OPTS wait_failed for cpid
  by (rule wait_loop_do_while [OF fork_wait_def])
    (simp_all add: wait_loop_simps)

interpretation serialfork_wl: wait_loop "reported []" "\<lambda>r. status_text [] (wstat r)"
    "serialfork_wait cpid" cpid WAIT_OPTS wait_failed for cpid
  by (rule wait_loop_do_while [OF serialfork_wait_def])
    (simp_all add: wait_loop_simps)

interpretation parallelfork_wl: wait_loop "reported []" "\<lambda>r. status_text [] (wstat r)"
    "parallelfork_wait cpid" cpid WAIT_OPTS skip for cpid
  by (rule wait_loop_do_while [OF parallelfork_wait_def])
    (simp_all add: wait_loop_simps)

interpretation forkexec_wl: wait_loop "reported []" "\<lambda>r. status_text [] (wstat r)"
    "forkexec_wait cpid" cpid WAIT_OPTS wait_failed for cpid
  by (rule wait_loop_do_while [OF forkexec_wait_def])
    (simp_all add: wait_loop_simps)

interpretation multiforkexec_wl: wait_loop "reported []" "\<lambda>r. status_text [] (wstat r)"
    "multiforkexec_wait cpid" cpid WAIT_OPTS wait_failed for cpid
  by (rule wait_loop_do_while [OF multiforkexec_wait_def])
    (simp_all add: wait_loop_simps)

subsection \<open>Rounds\<close>

text \<open>A fork seen by the parent, followed by the statuses its wait loop gets.\<close>

type_synonym round = "reply \<times> reply list \<times> reply"

definition round_replies :: "round \<Rightarrow> reply list" where
  "round_replies = (\<lambda>(f, ws, t). f # ws @ [t])"

definition good_round :: "round \<Rightarrow> bool" where
  "good_round = (\<lambda>(f, ws, t). rv f > 0 \<and> list_all live ws \<and> dead t)"

definition reports :: "round \<Rightarrow> string" where
  "reports = (\<lambda>(f, ws, t). concat (map (\<lambda>r. status_text [] (wstat r)) (ws @ [t])))"

definition before_text :: "vars \<Rightarrow> string" where
  "before_text v = ''parent before check if child exitted local, static, global = '' @ vars_text v @ ''\<newline>''"

definition after_text :: "vars \<Rightarrow> string" where
  "after_text v = ''parent after child exitted local, static, global = '' @ vars_text v @ ''\<newline>'' @
     ''parent changed local, static, global = '' @ vars_text parent_vars @ ''\<newline>''"

fun rounds_text :: "vars \<Rightarrow> round list \<Rightarrow> string" where
  "rounds_text v [] = []"
| "rounds_text v (r # rs) = before_text v @ reports r @ after_text v @ rounds_text parent_vars rs"

definition round_calls :: "round \<Rightarrow> (call \<times> reply) list" where
  "round_calls = (\<lambda>(f, ws, t). (Fork, f) # map (Pair (Waitpid (rv f) WAIT_OPTS)) (ws @ [t]))"

lemma serialfork_round:
  assumes "answers s = round_replies r @ rest" "good_round r"
  shows "\<exists>s'. serialfork_body i v s = (Ret parent_vars, s') \<and> answers s' = rest \<and>
    printed s' = printed s @ before_text v @ reports r @ after_text v \<and>
    calls s' = calls s @ round_calls r \<and> obuf s' = [] \<and> bufmode s' = bufmode s"
proof -
  obtain f ws t where r: "r = (f, ws, t)"
    by (cases r)
  with assms have a: "rv f > 0" "\<And>w. w \<in> set ws \<Longrightarrow> live w" "dead t" "answers s = f # ws @ t # rest"
    by (auto simp: good_round_def round_replies_def list_all_iff)
  note w = serialfork_wl.bind_returns [OF a(2,3)]
  show ?thesis
    using a(1,4) by (simp add: serialfork_body_def serialfork_parent_def run_simps obs_simps w r
        before_text_def after_text_def reports_def round_calls_def)
qed

lemma serialfork_rounds:
  assumes "answers s = concat (map round_replies rs) @ rest" "list_all good_round rs"
  shows "\<exists>s'. for_from (length rs) i serialfork_body v s = (Ret (if rs = [] then v else parent_vars), s') \<and>
    answers s' = rest \<and> printed s' = printed s @ rounds_text v rs \<and>
    calls s' = calls s @ concat (map round_calls rs) \<and>
    (obuf s = [] \<longrightarrow> obuf s' = []) \<and> bufmode s' = bufmode s"
  using assms
proof (induction rs arbitrary: s i v)
  case Nil
  then show ?case by (simp add: run_simps)
next
  case (Cons r rs)
  from Cons.prems have "answers s = round_replies r @ concat (map round_replies rs) @ rest" "good_round r"
    by simp_all
  from serialfork_round [OF this, of i v] obtain s1 where
    s1: "serialfork_body i v s = (Ret parent_vars, s1)"
      "answers s1 = concat (map round_replies rs) @ rest"
      "printed s1 = printed s @ before_text v @ reports r @ after_text v"
      "calls s1 = calls s @ round_calls r" "obuf s1 = []" "bufmode s1 = bufmode s"
    by blast
  from Cons.IH [OF s1(2), of "i + 1" parent_vars] Cons.prems s1 show ?case
    by (auto simp: bindS_result(1))
qed

text \<open>From the start of the program to the loop.\<close>

definition fork_header :: "string list \<Rightarrow> string" where
  "fork_header argv = arg0 argv @ '' will fork '' @ fmt_d (numforks_arg argv) @ '' times\<newline>'' @
     ''Initial local, static, global, heap = '' @ vars_text initial_vars @ ''\<newline>''"

lemma serialfork_enter:
  assumes "rv h \<noteq> 0"
  shows "\<exists>s0. serialfork_main argv (start m (h # rs)) =
      bindS (for_loop 0 (numforks_arg argv) serialfork_body initial_vars) (\<lambda>_ s. (Exited 0, flush_out s)) s0 \<and>
    answers s0 = rs \<and> printed s0 = fork_header argv \<and> calls s0 = [(Malloc 32, h)] \<and>
    obuf s0 = [] \<and> bufmode s0 = m"
  using assms
  by - (rule exI, rule conjI, simp add: serialfork_main_def run_simps obs_simps,
    simp add: fork_header_def obs_simps)

text \<open>\<^verbatim>\<open>serialfork.c\<close>, the parent, in every buffering mode: when each \<^verbatim>\<open>fork\<close> gives a child and
  each child ends (after any number of stops and continuations), the program exits with 0 after
  exactly one \<^verbatim>\<open>fork\<close> and one completed wait per round, in that order, and writes the header, and
  per round the variables before, one line per status change, and the variables after: the values
  are the initial ones in the first round and the parent's own afterwards, never the child's.\<close>

lemma serialfork_parent_run:
  assumes "rv h \<noteq> 0" "list_all good_round rs" "numforks_arg argv = int (length rs)"
  shows "\<exists>s'. serialfork_main argv (start m (h # concat (map round_replies rs))) = (Exited 0, s') \<and>
    answers s' = [] \<and> written s' = fork_header argv @ rounds_text initial_vars rs \<and>
    calls s' = (Malloc 32, h) # concat (map round_calls rs)"
proof -
  from serialfork_enter [OF assms(1), of argv m "concat (map round_replies rs)"] obtain s0 where
    s0: "serialfork_main argv (start m (h # concat (map round_replies rs))) =
        bindS (for_loop 0 (numforks_arg argv) serialfork_body initial_vars) (\<lambda>_ s. (Exited 0, flush_out s)) s0"
      "answers s0 = concat (map round_replies rs) @ []" "printed s0 = fork_header argv" "calls s0 = [(Malloc 32, h)]"
    by auto
  from serialfork_rounds [OF s0(2) assms(2), of 0 initial_vars] s0 assms(3) show ?thesis
    by (auto simp: for_loop_def bindS_result(1) run_simps obs_simps)
qed

definition ids_of :: "reply list \<Rightarrow> string" where
  "ids_of is = ids_text (rv (is ! 0)) (rv (is ! 1)) (rv (is ! 2)) (rv (is ! 3)) (rv (is ! 4)) (rv (is ! 5))"

definition asked_ids :: "reply list \<Rightarrow> process \<Rightarrow> process" where
  "asked_ids is s = logged Getegid (is ! 5) (logged Getgid (is ! 4) (logged Geteuid (is ! 3)
     (logged Getuid (is ! 2) (logged Getppid (is ! 1) (logged Getpid (is ! 0) s)))))"

lemma asked_ids_obs [obs_simps]:
  "answers (asked_ids is s) = drop 6 (answers s)"
  "obuf (asked_ids is s) = obuf s"
  "bufmode (asked_ids is s) = bufmode s"
  "printed (asked_ids is s) = printed s"
  "own (asked_ids is s) = own s"
  "owned (asked_ids is s) = owned s"
  by (simp_all add: asked_ids_def obs_simps numeral_eq_Suc drop_Suc)

lemma print_ids_run:
  assumes "length is = 6" "answers s = is @ rest"
  shows "bindS (print_ids pre) k s = k () (put_out (pre @ ids_of is) (asked_ids is s))"
proof -
  from assms obtain a b c d e f where "is = [a, b, c, d, e, f]"
    by (auto simp: numeral_eq_Suc length_Suc_conv)
  with assms show ?thesis
    by (simp add: print_ids_def ids_of_def asked_ids_def run_simps obs_simps)
qed

definition child_text :: "string \<Rightarrow> reply list \<Rightarrow> vars \<Rightarrow> string" where
  "child_text pre is v = pre @ ids_of is @
     '' child local, static, global = '' @ vars_text v @ ''\<newline>'' @
     '' child changed local, static, global = '' @ vars_text child_vars @ ''\<newline>''"

lemma serialfork_child_round:
  assumes "answers s = f # is @ rest" "rv f = 0" "length is = 6" "obuf s = []"
  shows "\<exists>s'. serialfork_body i v s = (Exited i, s') \<and> answers s' = rest \<and>
    own s' = child_text (''Child '' @ fmt_d i @ '': '') is v"
  using assms
  by (simp add: print_ids_run [OF assms(3)] serialfork_body_def serialfork_child_def run_simps obs_simps child_text_def)

text \<open>\<^verbatim>\<open>serialfork.c\<close>, child number \<open>length rs\<close>, in every buffering mode: it exits with its
  number, and what it writes itself is its own three lines only, with the values the parent had at
  the \<^verbatim>\<open>fork\<close>: the parent flushes before it forks, so nothing of the parent's output is repeated.\<close>

lemma serialfork_child_run:
  assumes "rv h \<noteq> 0" "list_all good_round rs" "int (length rs) < numforks_arg argv"
    and "rv f = 0" "length is = 6"
  shows "\<exists>s'. serialfork_main argv (start m (h # concat (map round_replies rs) @ f # is)) =
      (Exited (int (length rs)), s') \<and>
    own s' = child_text (''Child '' @ fmt_d (int (length rs)) @ '': '') is
      (if rs = [] then initial_vars else parent_vars)"
proof -
  from serialfork_enter [OF assms(1), of argv m "concat (map round_replies rs) @ f # is"] obtain s0 where
    s0: "serialfork_main argv (start m (h # concat (map round_replies rs) @ f # is)) =
        bindS (for_loop 0 (numforks_arg argv) serialfork_body initial_vars) (\<lambda>_ s. (Exited 0, flush_out s)) s0"
      "answers s0 = concat (map round_replies rs) @ f # is" "obuf s0 = []"
    by auto
  let ?v = "if rs = [] then initial_vars else parent_vars"
  from serialfork_rounds [OF s0(2) assms(2), of 0 initial_vars] s0(3) obtain s1 where
    s1: "for_from (length rs) 0 serialfork_body initial_vars s0 = (Ret ?v, s1)"
      "answers s1 = f # is @ []" "obuf s1 = []"
    by auto
  from serialfork_child_round [OF s1(2) assms(4,5) s1(3), of "int (length rs)" ?v] obtain s2 where
    s2: "serialfork_body (int (length rs)) ?v s1 = (Exited (int (length rs)), s2)"
      "own s2 = child_text (''Child '' @ fmt_d (int (length rs)) @ '': '') is ?v"
    by auto
  from for_loop_leaves [OF s1(1), of "numforks_arg argv" "Exited (int (length rs))" s2] s2(1) assms(3)
  have "for_loop 0 (numforks_arg argv) serialfork_body initial_vars s0 = (Exited (int (length rs)), s2)"
    by simp
  with s0(1) s2(2) show ?thesis
    by (simp add: bindS_result(2))
qed

definition fork_prologue :: "string list \<Rightarrow> string" where
  "fork_prologue argv = ''Main program '' @ arg0 argv @ '' started with '' @ fmt_d (argc argv) @ '' args\<newline>'' @
     ''Initial local, static, global, heap = '' @ vars_text initial_vars @ ''\<newline>''"

text \<open>\<^verbatim>\<open>fork.c\<close>, the parent: it exits with 0 after one \<^verbatim>\<open>fork\<close> and waiting until the child has
  ended, and writes the same values of the four variables before and after the child ran.\<close>

theorem fork_parent_run:
  assumes h: "rv h \<noteq> 0" and f: "rv f > 0" and ws: "\<And>w. w \<in> set ws \<Longrightarrow> live w" and t: "dead t"
  shows "\<exists>s'. fork_main argv (start m (h # f # ws @ [t])) = (Exited 0, s') \<and> answers s' = [] \<and>
     written s' = fork_prologue argv @ rounds_text initial_vars [(f, ws, t)] \<and>
     calls s' = (Malloc 32, h) # round_calls (f, ws, t)"
proof -
  note w = fork_wl.bind_returns [OF ws t]
  show ?thesis
    using h f by (simp add: fork_main_def fork_parent_def run_simps obs_simps w fork_prologue_def
        before_text_def after_text_def reports_def round_calls_def)
qed

text \<open>\<^verbatim>\<open>fork.c\<close>, the child: it does not flush before it forks, so when standard output is fully
  buffered (a file or a pipe) the child writes the parent's two opening lines again before its own;
  with a line-buffered or unbuffered stream it writes only its own lines.\<close>

theorem fork_child_run:
  assumes "rv h \<noteq> 0" "rv f = 0" "length is = 6"
  shows "\<exists>s'. fork_main argv (start m (h # f # is)) = (Exited 0, s') \<and>
    own s' = (if m = FullyBuffered then fork_prologue argv else []) @ ''Child '' @ ids_of is @
      ''child local, static, global = '' @ vars_text initial_vars @ ''\<newline>'' @
      ''child changed local, static, global = '' @ vars_text child_vars @ ''\<newline>''"
  using assms
  by (cases m) (simp_all add: print_ids_run [OF assms(3)] fork_main_def fork_child_def run_simps obs_simps
      fork_prologue_def obuf_put_out)

lemma parallelfork_forks:
  assumes "answers s = fs @ rest" "\<And>f. f \<in> set fs \<Longrightarrow> rv f > 0"
  shows "for_from (length fs) i parallelfork_body p s =
      (Ret (if fs = [] then p else Some (rv (last fs))), logs Fork fs s)"
  using assms
proof (induction fs arbitrary: s i p)
  case Nil
  then show ?case by (simp add: run_simps)
next
  case (Cons f fs)
  have "parallelfork_body i p s = (Ret (Some (rv f)), logged Fork f s)"
    using Cons.prems(1) Cons.prems(2) [of f] by (simp add: parallelfork_body_def run_simps)
  moreover have "answers (logged Fork f s) = fs @ rest"
    using Cons.prems(1) by (simp add: obs_simps)
  ultimately show ?case
    using Cons.IH [of "logged Fork f s" "i + 1" "Some (rv f)"] Cons.prems(2)
    by (simp add: bindS_result(1))
qed

lemma parallelfork_loop:
  assumes "answers s = fs @ rest" "fs \<noteq> []" "\<And>f. f \<in> set fs \<Longrightarrow> rv f > 0" "n = int (length fs)"
  shows "bindS (for_loop 0 n parallelfork_body None) k s = k (Some (rv (last fs))) (logs Fork fs s)"
  using parallelfork_forks [OF assms(1,3), of 0 None] assms(2,4)
  by (simp add: bindS_result(1) for_loop_def)

text \<open>C39. \<^verbatim>\<open>parallelfork.c\<close>, the parent: it makes all children first and then waits for the last one
  only; it prints that all children have exited as soon as that one has, whatever the others do.\<close>

theorem parallelfork_parent_run:
  assumes "rv h \<noteq> 0" and fs: "fs \<noteq> []" "\<And>f. f \<in> set fs \<Longrightarrow> rv f > 0" "numforks_arg argv = int (length fs)"
    and ws: "\<And>w. w \<in> set ws \<Longrightarrow> live w" and t: "dead t"
  shows "\<exists>s'. parallelfork_main argv (start m (h # fs @ ws @ [t])) = (Exited 0, s') \<and> answers s' = [] \<and>
    calls s' = (Malloc 32, h) # map (Pair Fork) fs @
      map (Pair (Waitpid (rv (last fs)) WAIT_OPTS)) (ws @ [t]) \<and>
    written s' = fork_header argv @ concat (map (\<lambda>r. status_text [] (wstat r)) (ws @ [t])) @
      ''parent after all children exitted local, static, global = '' @ vars_text initial_vars @ ''\<newline>'' @
      ''parent changed local, static, global = '' @ vars_text parent_vars @ ''\<newline>''"
proof -
  note loop = parallelfork_loop [OF _ fs, where rest = "ws @ [t]"]
  note w = parallelfork_wl.bind_returns [OF ws t]
  show ?thesis
    using assms(1)
    by (simp add: parallelfork_main_def run_simps obs_simps loop w fork_header_def)
qed

text \<open>\<^verbatim>\<open>parallelfork.c\<close> asked for no forks passes \<^verbatim>\<open>waitpid\<close> a variable that was never set.\<close>

theorem parallelfork_none:
  assumes "rv h \<noteq> 0" "numforks_arg argv \<le> 0"
  shows "\<exists>s'. parallelfork_main argv (start m (h # rs)) = (Undefined ''cpid has no value'', s') \<and>
    answers s' = rs"
  using assms by (simp add: parallelfork_main_def run_simps obs_simps)


text \<open>One iteration of \<^verbatim>\<open>multiforkexec.c\<close> as the parent sees it, or as a child whose
  \<^verbatim>\<open>execve\<close> fails (or that has no command to run) sees it.\<close>

datatype turn = As_parent round | As_child reply reply

fun turn_replies :: "string list \<Rightarrow> turn \<Rightarrow> reply list" where
  "turn_replies argv (As_parent r) = round_replies r"
| "turn_replies argv (As_child f e) = (if argc argv = 1 then [f] else [f, e])"

fun good_turn :: "turn \<Rightarrow> bool" where
  "good_turn (As_parent r) \<longleftrightarrow> good_round r"
| "good_turn (As_child f e) \<longleftrightarrow> rv f = 0 \<and> rv e = -1"

fun is_child :: "turn \<Rightarrow> bool" where
  "is_child (As_parent r) \<longleftrightarrow> False"
| "is_child (As_child f e) \<longleftrightarrow> True"

text \<open>For each \<^verbatim>\<open>fork\<close> a process went through: did it come out as the child?\<close>

definition fork_bits :: "process \<Rightarrow> bool list" where
  "fork_bits s = map (\<lambda>(c, r). rv r = 0) (filter (\<lambda>(c, r). c = Fork) (calls s))"

lemma fork_bits_round:
  "good_round r \<Longrightarrow> map (\<lambda>(c, r). rv r = 0) (filter (\<lambda>(c, r). c = Fork) (round_calls r)) = [False]"
  by (cases r) (auto simp: round_calls_def good_round_def filter_empty_conv comp_def)

lemma multiforkexec_turn:
  assumes "answers s = turn_replies argv t @ rest" "good_turn t" "argc argv \<ge> 1"
  shows "\<exists>v' s'. multiforkexec_body argv envp i v s = (Ret v', s') \<and> answers s' = rest \<and>
    fork_bits s' = fork_bits s @ [is_child t]"
proof (cases t)
  case (As_child f e)
  with assms show ?thesis
    by (auto simp: multiforkexec_body_def exec_args_def run_simps obs_simps fork_bits_def)
next
  case (As_parent r)
  obtain f ws d where r: "r = (f, ws, d)"
    by (cases r)
  with assms As_parent have a: "rv f > 0" "\<And>w. w \<in> set ws \<Longrightarrow> live w" "dead d" "answers s = f # ws @ d # rest"
    by (auto simp: good_round_def round_replies_def list_all_iff)
  note w = multiforkexec_wl.bind_returns [OF a(2,3)]
  have "map (\<lambda>(c, r). rv r = 0) (filter (\<lambda>(c, r). c = Fork) (round_calls r)) = [False]"
    using assms(2) As_parent by (intro fork_bits_round) simp
  then show ?thesis
    using a(1,4) by (simp add: multiforkexec_body_def run_simps obs_simps w As_parent r fork_bits_def
        round_calls_def)
qed

lemma multiforkexec_turns:
  assumes "answers s = concat (map (turn_replies argv) ts) @ rest" "list_all good_turn ts" "argc argv \<ge> 1"
  shows "\<exists>v' s'. for_from (length ts) i (multiforkexec_body argv envp) v s = (Ret v', s') \<and>
    answers s' = rest \<and> fork_bits s' = fork_bits s @ map is_child ts"
  using assms(1,2)
proof (induction ts arbitrary: s i v)
  case Nil
  then show ?case by (simp add: run_simps)
next
  case (Cons t ts)
  from Cons.prems have "answers s = turn_replies argv t @ concat (map (turn_replies argv) ts) @ rest" "good_turn t"
    by simp_all
  from multiforkexec_turn [OF this assms(3), of envp i v] obtain v1 s1 where
    s1: "multiforkexec_body argv envp i v s = (Ret v1, s1)"
      "answers s1 = concat (map (turn_replies argv) ts) @ rest" "fork_bits s1 = fork_bits s @ [is_child t]"
    by blast
  from Cons.IH [OF s1(2), of "i + 1" v1] Cons.prems s1 show ?case
    by (auto simp: bindS_result(1))
qed

lemma multiforkexec_enter:
  assumes "rv h \<noteq> 0"
  shows "\<exists>s0. multiforkexec_main argv envp (start m (h # rs)) =
      bindS (for_loop 0 (numforks_arg argv) (multiforkexec_body (multiforkexec_argv argv) envp) initial_vars)
        (\<lambda>_ s. (Exited 0, flush_out s)) s0 \<and> answers s0 = rs \<and> fork_bits s0 = []"
  using assms
  by - (rule exI, rule conjI, simp add: multiforkexec_main_def run_simps obs_simps,
    simp add: fork_bits_def obs_simps)

text \<open>C34. \<^verbatim>\<open>multiforkexec.c\<close>: a child that cannot run its command does not stop, it goes on with the
  loop and forks like its parent. Every sequence of \<open>numforks\<close> outcomes of \<^verbatim>\<open>fork\<close> is the history
  of a process that runs to the end of the program, so \<open>2 ^ numforks\<close> processes do.\<close>

theorem multiforkexec_children_fork_on:
  assumes "rv h \<noteq> 0" "argv \<noteq> []" "list_all good_turn ts" "numforks_arg argv = int (length ts)"
  shows "\<exists>s'. multiforkexec_main argv envp
      (start m (h # concat (map (turn_replies (multiforkexec_argv argv)) ts))) = (Exited 0, s') \<and>
    fork_bits s' = map is_child ts"
proof -
  let ?argv = "multiforkexec_argv argv"
  have argc: "argc ?argv \<ge> 1"
    using assms(2) by (cases argv) (auto simp: multiforkexec_argv_def argc_def Suc_le_eq)
  from multiforkexec_enter [OF assms(1), of argv envp m "concat (map (turn_replies ?argv) ts)"] obtain s0 where
    s0: "multiforkexec_main argv envp (start m (h # concat (map (turn_replies ?argv) ts))) =
        bindS (for_loop 0 (numforks_arg argv) (multiforkexec_body ?argv envp) initial_vars)
          (\<lambda>_ s. (Exited 0, flush_out s)) s0"
      "answers s0 = concat (map (turn_replies ?argv) ts) @ []" "fork_bits s0 = []"
    by auto
  from multiforkexec_turns [OF s0(2) assms(3) argc, of 0 envp initial_vars] s0 assms(4) show ?thesis
    by (auto simp: for_loop_def bindS_result(1) fork_bits_def obs_simps)
qed

text \<open>\<^verbatim>\<open>exec.c\<close>: a successful \<^verbatim>\<open>execve\<close> runs the program named by the first argument with the
  remaining arguments and the environment; the opening line, printed but not flushed, is lost when
  standard output is fully buffered.\<close>

theorem exec_output_lost:
  assumes "rv e \<noteq> -1" "argc argv \<ge> 2"
  shows "\<exists>s'. exec_main argv envp (start m [e]) = (Replaced (argv ! 1) (drop 1 argv) envp, s') \<and>
    written s' = (if m = FullyBuffered then []
      else ''Main program '' @ arg0 argv @ '' started with '' @ fmt_d (argc argv) @ '' args\<newline>'')"
  using assms
  by (cases m) (simp_all add: exec_main_def exec_args_def run_simps obs_simps written_put_out)

text \<open>The wait loop of \<^verbatim>\<open>fork.c\<close> stops waiting exactly when some reply is a failure or the
  status of a child that has exited or been killed; stops and continuations keep it waiting.\<close>

theorem fork_wait_ends_iff:
  "(\<forall>c. fst (fork_wait cpid s) \<noteq> Blocked c) \<longleftrightarrow>
     (\<exists>r \<in> set (answers s). rv r = -1 \<or> WIFEXITED (wstat r) \<or> WIFSIGNALED (wstat r))"
proof -
  have "fst (wait_failed s') \<noteq> Blocked c" for s' :: process and c
    by (simp add: wait_failed_def run_simps)
  from fork_wl.ends_iff [OF this, of cpid s] show ?thesis
    by (auto simp: live_def terminal_def)
qed

text \<open>\<^verbatim>\<open>forkexec.c\<close>, the child: with a command that starts it becomes that command; if the
  command cannot be started it says so and still exits with 0.\<close>

theorem forkexec_child_run:
  assumes "rv f = 0" "argc argv \<ge> 2"
  shows "fst (forkexec_main argv envp (start m [f, e])) =
      (if rv e = -1 then Exited 0 else Replaced (argv ! 1) (drop 1 argv) envp) \<and>
    printed (snd (forkexec_main argv envp (start m [f, e]))) =
      ''Main program '' @ arg0 argv @ '' started with '' @ fmt_d (argc argv) @ '' args\<newline>'' @
      (if rv e = -1 then ''Failed to start '' @ argv ! 1 @ '' with '' @ fmt_d (argc argv) @ '' args\<newline>'' else [])"
  using assms by (simp add: forkexec_main_def exec_args_def run_simps obs_simps)

subsection \<open>Examples of the hypotheses\<close>

theorem fork_parent_run_witness:
  "\<exists>s'. fork_main [''fork''] (start FullyBuffered (rep 4096 # rep 77 #
      [(rep 77)\<lparr>wstat := continued_status\<rparr>] @ [exited_with 77 0])) = (Exited 0, s')"
  using fork_parent_run [of "rep 4096" "rep 77" "[(rep 77)\<lparr>wstat := continued_status\<rparr>]" "exited_with 77 0"
      "[''fork'']" FullyBuffered]
  by (auto simp: live_continued dead_exited)

theorem fork_child_run_witness:
  "\<exists>s'. fork_main [''fork''] (start FullyBuffered (rep 4096 # rep 0 # replicate 6 (rep 9))) = (Exited 0, s')"
  using fork_child_run [of "rep 4096" "rep 0" "replicate 6 (rep 9)" "[''fork'']" FullyBuffered] by auto

theorem parallelfork_parent_run_witness:
  "\<exists>s'. parallelfork_main [''parallelfork''] (start LineBuffered (rep 4096 #
      [rep 11, rep 12, rep 13, rep 14, rep 15] @ [] @ [exited_with 15 4])) = (Exited 0, s')"
proof -
  have "numforks_arg [''parallelfork''] = int (length [rep 11, rep 12, rep 13, rep 14, rep 15])"
    by (simp add: numforks_arg_def argc_def)
  moreover have "f \<in> set [rep 11, rep 12, rep 13, rep 14, rep 15] \<Longrightarrow> rv f > 0" for f
    by auto
  ultimately show ?thesis
    using parallelfork_parent_run [of "rep 4096" "[rep 11, rep 12, rep 13, rep 14, rep 15]" "[''parallelfork'']" "[]"
      "exited_with 15 4" LineBuffered] by (fastforce simp: dead_exited)
qed

theorem parallelfork_none_witness:
  "\<exists>s'. parallelfork_main [''parallelfork'', ''0''] (start Unbuffered [rep 4096]) = (Undefined ''cpid has no value'', s')"
proof -
  have "numforks_arg [''parallelfork'', ''0''] \<le> 0"
    by (simp add: numforks_arg_def argc_def) code_simp
  with parallelfork_none [of "rep 4096" "[''parallelfork'', ''0'']" Unbuffered "[]"] show ?thesis
    by auto
qed

theorem multiforkexec_children_fork_on_witness:
  "\<exists>s'. multiforkexec_main [''multiforkexec'', ''2''] [] (start Unbuffered (rep 4096 # concat (map
      (turn_replies (multiforkexec_argv [''multiforkexec'', ''2'']))
      [As_child (rep 0) (rep (-1)), As_parent (rep 5, [], exited_with 5 0)]))) = (Exited 0, s') \<and>
    fork_bits s' = [True, False]"
proof -
  have n: "numforks_arg [''multiforkexec'', ''2''] = int (length [As_child (rep 0) (rep (-1)), As_parent (rep 5, [], exited_with 5 0)])"
    by (simp add: numforks_arg_def argc_def) code_simp
  have "list_all good_turn [As_child (rep 0) (rep (-1)), As_parent (rep 5, [], exited_with 5 0)]"
    by (simp add: good_round_def dead_exited)
  from multiforkexec_children_fork_on [OF _ _ this n, of "rep 4096" "[]" Unbuffered] show ?thesis
    by simp
qed

theorem exec_output_lost_witness:
  "\<exists>s'. exec_main [''exec'', ''/bin/true''] [] (start FullyBuffered [rep 0]) =
    (Replaced ''/bin/true'' [''/bin/true''] [], s') \<and> written s' = []"
  using exec_output_lost [of "rep 0" "[''exec'', ''/bin/true'']" "[]" FullyBuffered] by (simp add: argc_def)

theorem forkexec_child_run_witness:
  "fst (forkexec_main [''forkexec'', ''/none''] [] (start FullyBuffered [rep 0, rep (-1)])) = Exited 0"
  using forkexec_child_run [of "rep 0" "[''forkexec'', ''/none'']" "[]" FullyBuffered "rep (-1)"]
  by (simp add: argc_def)

end
