(* ===== verification/System_Programs.thy ===== *)
theory System_Programs
  imports Wait_Loop
begin

text \<open>
  The programs that call \<^verbatim>\<open>system\<close>: \<^verbatim>\<open>system.c\<close>, \<^verbatim>\<open>simplesystem.c\<close> and the first part of
  \<^verbatim>\<open>system_and_pthread.c\<close>, which share the function \<^verbatim>\<open>callsys\<close>. The value \<^verbatim>\<open>system\<close> returns is
  a wait status, or -1.
\<close>

definition system_text :: "string \<Rightarrow> status \<Rightarrow> string" where
  "system_text name st =
     (if WIFEXITED st then
        (if WEXITSTATUS st = 127 then ''Call to system('' @ name @ '') could not be executed\<newline>''
         else ''Call to system('' @ name @ '') returned '' @ fmt_d (WEXITSTATUS st) @ ''\<newline>'')
      else if WIFSIGNALED st then
        ''Call to system('' @ name @ '') killed by signal '' @ fmt_d (WTERMSIG st) @ ''\<newline>''
      else if WIFSTOPPED st then
        ''Call to system('' @ name @ '') stopped by signal '' @ fmt_d (WSTOPSIG st) @ ''\<newline>''
      else if WIFCONTINUED st then ''Call to system('' @ name @ '') continued\<newline>''
      else [])"

definition callsys :: "string \<Rightarrow> unit stm" where
  "callsys name = bindS (sysv (System name)) (\<lambda>ret. block [
     only_if (ret = -1) [perror ''Call to system failed''],
     only_if (system_text name (word_of_int ret) \<noteq> []) [printf (system_text name (word_of_int ret))]])"

definition system_main :: "unit stm" where
  "system_main = block [callsys ''notfound.sh'', callsys ''./test.sh'', exit 0]"

definition simplesystem_main :: "unit stm" where
  "simplesystem_main = block [callsys ''./test.sh'', exit 0]"

text \<open>The value -1 is none of the four kinds of status, so a failed call prints nothing.\<close>

lemma system_text_failed: "system_text name (- 1) = []"
proof -
  have "uint (- 1 :: status) = 4294967295"
    by (simp add: unsigned_minus_1_eq_mask mask_eq_exp_minus_1)
  then show ?thesis
    by (simp add: system_text_def wait_macros)
qed

lemma callsys_run [run_simps]:
  "answers s = r # rs \<Longrightarrow> callsys name s = (Ret (),
     if rv r = -1 then noted (Perror ''Call to system failed'' (err r)) (logged (System name) r s)
     else if system_text name (word_of_int (rv r)) = [] then logged (System name) r s
     else put_out (system_text name (word_of_int (rv r))) (logged (System name) r s))"
  by (simp add: callsys_def run_simps system_text_failed) (simp add: logged_def)

lemma system_text_kinds:
  "system_text name (exit_status n) =
     (if n mod 256 = 127 then ''Call to system('' @ name @ '') could not be executed\<newline>''
      else ''Call to system('' @ name @ '') returned '' @ fmt_d (n mod 256) @ ''\<newline>'')"
  "0 < k \<Longrightarrow> k < 127 \<Longrightarrow> system_text name (signal_status k core) =
     ''Call to system('' @ name @ '') killed by signal '' @ fmt_d k @ ''\<newline>''"
  using exit_status_read signal_status_read [of k core]
    status_exclusive(2) [of "signal_status k core"]
  by (simp_all add: system_text_def)

text \<open>\<^verbatim>\<open>callsys\<close>: when \<^verbatim>\<open>system\<close> itself fails it prints the error message and nothing else
  (the status macros, applied to -1, are all false); a command that exits with \<open>n\<close> is reported
  with \<open>n\<close> modulo 256, and any command that exits with 127 as one that could not be executed.\<close>

theorem callsys_reports:
  assumes "answers s = r # rs"
  shows "(rv r = -1 \<longrightarrow>
        trace (snd (callsys name s)) =
          trace s @ [Sys (System name) r, Perror ''Call to system failed'' (err r)]) \<and>
    (\<forall>n. rv r = uint (exit_status n) \<longrightarrow>
        printed (snd (callsys name s)) = printed s @
          (if n mod 256 = 127 then ''Call to system('' @ name @ '') could not be executed\<newline>''
           else ''Call to system('' @ name @ '') returned '' @ fmt_d (n mod 256) @ ''\<newline>'')) \<and>
    (\<forall>n core. 0 < n \<and> n < 127 \<and> rv r = uint (signal_status n core) \<longrightarrow>
        printed (snd (callsys name s)) = printed s @
          ''Call to system('' @ name @ '') killed by signal '' @ fmt_d n @ ''\<newline>'')"
proof -
  have "uint st \<noteq> -1" for st :: status
    using uint_ge_0 [of st] by linarith
  then show ?thesis
    using callsys_run [OF assms, of name] system_text_kinds
    by (auto simp: obs_simps noted_def)
qed

text \<open>A shell that cannot find \<^verbatim>\<open>notfound.sh\<close> and a script that runs.\<close>

theorem callsys_reports_witness:
  "printed (snd (callsys ''./test.sh'' (start Unbuffered [rep 256]))) =
     ''Call to system(./test.sh) returned 1\<newline>''"
proof -
  have a: "answers (start Unbuffered [rep 256]) = rep 256 # []"
    by (simp add: obs_simps)
  have "rv (rep 256) = uint (exit_status 1)"
    by (simp add: exit_status_def)
  with callsys_reports [OF a, of "''./test.sh''"] show ?thesis
    by (simp add: obs_simps fmt_d_def fmt_u_def radix.simps)
qed

end
