(* ===== verification/Thread_Programs.thy ===== *)
theory Thread_Programs
  imports Thread_Pool Fork_Programs System_Programs
begin

text \<open>
  The programs that start threads: \<^verbatim>\<open>pthread.c\<close>, and in combination with \<^verbatim>\<open>fork\<close>,
  \<^verbatim>\<open>execve\<close> and \<^verbatim>\<open>system\<close>: \<^verbatim>\<open>fork_and_pthread.c\<close>, \<^verbatim>\<open>forkexec_and_pthread.c\<close>,
  \<^verbatim>\<open>forkmulti.c\<close>, \<^verbatim>\<open>forkexecwait_and_pthread.c\<close>, \<^verbatim>\<open>forkexecwait_and_pthreadchild.c\<close>,
  \<^verbatim>\<open>system_and_pthread.c\<close>, \<^verbatim>\<open>processesgalore.c\<close> and \<^verbatim>\<open>forktree_and_pthread.c\<close>. Six of them
  contain the same thread function and the same two loops over five threads, which are defined
  once here.
\<close>

subsection \<open>\<^verbatim>\<open>pthread.c\<close>\<close>

abbreviation MAXTHREADS :: int where "MAXTHREADS \<equiv> 20"

definition running_text :: "int \<Rightarrow> int \<Rightarrow> int \<Rightarrow> string" where
  "running_text thread_id pid tid = ''Our thread '' @ fmt_d thread_id @ '' is running as pid, tid: '' @
     fmt_d pid @ '','' @ fmt_d tid"

text \<open>A thread function ends with the integer its exit value points to; storing it through the
  unchecked result of \<^verbatim>\<open>malloc\<close> is a fault when there is none.\<close>

definition pthread_print_thread_id :: "int \<Rightarrow> int stm" where
  "pthread_print_thread_id thread_id =
     bindS (sysv (Malloc 4)) (\<lambda>exitval.
     bindS (pad_set thread_id NUL PAD) (\<lambda>pad.
     bindS (sysv Getpid) (\<lambda>pid. bindS (sysv Gettid) (\<lambda>tid.
     bindS (block [
         printf (running_text thread_id pid tid @ '' '' @ cstr pad @ ''\<newline>''),
         fflush,
         do_call (Sleep 10)]) (\<lambda>_.
     bindS (sysv Getpid) (\<lambda>pid. bindS (sysv Gettid) (\<lambda>tid.
     bindS (block [
         printf (running_text thread_id pid tid @ '' ready to exit\<newline>''),
         fflush]) (\<lambda>_.
     if exitval = 0 then signalled SIGSEGV else ret thread_id))))))))"

definition pthread_create_body :: "int \<Rightarrow> int list \<Rightarrow> int list stm" where
  "pthread_create_body i threads =
     (if i \<ge> MAXTHREADS then undefined_behaviour ''thread_ids[i] is past the end''
      else bindS (sys (Pthread_create ''print_thread_id'' (i + 1))) (\<lambda>rc.
        if rv rc \<noteq> 0 then
          yields [printf (''Error: Unable to create thread '' @ fmt_d (i + 1) @ ''\<newline>''), exit (-1)] threads
        else ret (threads @ [out_int 0 rc])))"

definition joined_line :: "int \<Rightarrow> int \<Rightarrow> string \<Rightarrow> string" where
  "joined_line i threadstatus pad = ''Joined with thread '' @ fmt_d i @ '' which exited 0x'' @
     fmt_x threadstatus @ '' '' @ cstr pad @ ''\<newline>''"

definition pthread_join_body :: "int list \<Rightarrow> int \<Rightarrow> string \<Rightarrow> string stm" where
  "pthread_join_body threads i pad =
     bindS (pad_set i NUL pad) (\<lambda>pad.
     bindS (thread_at threads i) (\<lambda>thread.
     bindS (sys (Pthread_join thread)) (\<lambda>r.
       if rv r \<noteq> 0 then undefined_behaviour ''threadstatus has no value''
       else bindS (block [printf (joined_line i (out_int 0 r) pad), fflush]) (\<lambda>_. pad_set i CHR '' '' pad))))"

definition pthread_num_threads :: "string list \<Rightarrow> int" where
  "pthread_num_threads argv =
     (if argc argv > 1 then
        (if atoi (argv ! 1) > MAXTHREADS then MAXTHREADS else atoi (argv ! 1))
      else 5)"

definition pthread_main :: "string list \<Rightarrow> unit stm" where
  "pthread_main argv = (let num_threads = pthread_num_threads argv in block [
     printf (arg0 argv @ '' will create '' @ fmt_d num_threads @ '' threads\<newline>''),
     fflush,
     bindS (for_loop 0 num_threads pthread_create_body []) (\<lambda>threads.
     bindS (for_loop 0 num_threads (pthread_join_body threads) PAD) (\<lambda>_. skip)),
     exit 0])"

subsection \<open>The common thread function and loops\<close>

definition print_thread_id :: "int \<Rightarrow> int stm" where
  "print_thread_id thread_id =
     bindS (sysv (Malloc 4)) (\<lambda>exitval.
     bindS (pad_set thread_id NUL PAD) (\<lambda>pad.
     bindS (sysv Getpid) (\<lambda>pid. bindS (sysv Gettid) (\<lambda>tid.
     bindS (block [
         printf (running_text thread_id pid tid @ '' '' @ cstr pad @ ''\<newline>''),
         fflush]) (\<lambda>_.
     if exitval = 0 then signalled SIGSEGV else ret thread_id)))))"

text \<open>Five more programs contain this function under the same name, word for word.\<close>

abbreviation feap_print_thread_id :: "int \<Rightarrow> int stm" where
  "feap_print_thread_id \<equiv> print_thread_id"

abbreviation forkmulti_print_thread_id :: "int \<Rightarrow> int stm" where
  "forkmulti_print_thread_id \<equiv> print_thread_id"

abbreviation fewap_print_thread_id :: "int \<Rightarrow> int stm" where
  "fewap_print_thread_id \<equiv> print_thread_id"

abbreviation fewapc_print_thread_id :: "int \<Rightarrow> int stm" where
  "fewapc_print_thread_id \<equiv> print_thread_id"

abbreviation sap_print_thread_id :: "int \<Rightarrow> int stm" where
  "sap_print_thread_id \<equiv> print_thread_id"

definition five_create_body :: "int \<Rightarrow> int list \<Rightarrow> int list stm" where
  "five_create_body i threads =
     (if i \<ge> 5 then undefined_behaviour ''thread_ids[i] is past the end''
      else bindS (sys (Pthread_create ''print_thread_id'' (i + 1))) (\<lambda>rc.
        if rv rc \<noteq> 0 then
          yields [printf (''Error: Unable to create thread '' @ fmt_d (i + 1) @ ''\<newline>''), exit (-1)] threads
        else ret (threads @ [out_int 0 rc])))"

definition five_join_body :: "int list \<Rightarrow> int \<Rightarrow> string \<Rightarrow> string stm" where
  "five_join_body threads i pad =
     bindS (pad_set i NUL pad) (\<lambda>pad.
     bindS (thread_at threads i) (\<lambda>thread.
     bindS (sys (Pthread_join thread)) (\<lambda>r.
       if rv r \<noteq> 0 then undefined_behaviour ''threadstatus has no value''
       else bindS (printf (joined_line i (out_int 0 r) pad)) (\<lambda>_. pad_set i CHR '' '' pad))))"

definition run_five_threads :: "unit stm" where
  "run_five_threads = bindS (for_loop 0 5 five_create_body []) (\<lambda>threads.
     bindS (for_loop 0 5 (five_join_body threads) PAD) (\<lambda>_. skip))"

text \<open>The single wait at the end of four of the programs.\<close>

definition await_childpid :: "int \<Rightarrow> unit stm" where
  "await_childpid childpid = bindS (sys (Waitpid childpid WAIT_OPTS)) (\<lambda>r. block [
     only_if (rv r = -1) [perror ''Waitpid failed'', exit (-1)],
     report_status ''childpid '' (wstat r),
     printf ''Childpid fork done\<newline>'',
     fflush])"

text \<open>\<^verbatim>\<open>argc <= 1 ? "./test.sh" : argv[1]\<close>\<close>

definition command_arg :: "string list \<Rightarrow> string" where
  "command_arg argv = (if argc argv \<le> 1 then ''./test.sh'' else argv ! 1)"

subsection \<open>\<^verbatim>\<open>fork_and_pthread.c\<close>\<close>

definition fap_callsys :: "string \<Rightarrow> int stm" where
  "fap_callsys name = bindS (sysv Fork) (\<lambda>cpid.
     if cpid = -1 then yields [perror ''fork failed'', exit (-1)] cpid
     else if cpid = 0 then
       yields [printf ''Bed time for forked child\<newline>'', fflush, do_call (Sleep 4),
         printf ''Forked child awoke\<newline>'', fflush, exit 17] cpid
     else ret cpid)"

definition fork_and_pthread_main :: "string list \<Rightarrow> unit stm" where
  "fork_and_pthread_main argv = bindS (fap_callsys (command_arg argv)) (\<lambda>childpid. block [
     run_five_threads,
     await_childpid childpid,
     exit 0])"

subsection \<open>Programs whose child may go on after a failed \<^verbatim>\<open>execve\<close>\<close>

text \<open>
  In \<^verbatim>\<open>forkexec_and_pthread.c\<close>, \<^verbatim>\<open>forkmulti.c\<close> and \<^verbatim>\<open>forkexecwait_and_pthread.c\<close> the
  child's branch of \<^verbatim>\<open>callsys\<close> has no \<^verbatim>\<open>return\<close>: when \<^verbatim>\<open>execve\<close> fails the function ends
  without a value (\<open>None\<close>), and \<^verbatim>\<open>main\<close> uses it.
\<close>

definition used_value :: "int option \<Rightarrow> (int \<Rightarrow> unit stm) \<Rightarrow> unit stm" where
  "used_value v k = (case v of None \<Rightarrow> undefined_behaviour ''callsys returned no value'' | Some x \<Rightarrow> k x)"

definition feap_callsys :: "string \<Rightarrow> int option stm" where
  "feap_callsys name = bindS (sysv Fork) (\<lambda>cpid.
     if cpid = -1 then yields [perror ''fork failed'', exit (-1)] None
     else if cpid = 0 then bindS (execve name [] []) (\<lambda>v.
       yields [only_if (v = -1) [printf (''Failed to start '' @ name @ ''\<newline>''), perror ''Could not execve'']] None)
     else ret (Some cpid))"

definition forkexec_and_pthread_main :: "string list \<Rightarrow> unit stm" where
  "forkexec_and_pthread_main argv = bindS (feap_callsys (command_arg argv)) (\<lambda>v.
     used_value v (\<lambda>childpid. block [run_five_threads, await_childpid childpid, exit 0]))"

text \<open>The child of \<^verbatim>\<open>forkmulti.c\<close> and of \<^verbatim>\<open>forkexecwait_and_pthread.c\<close>.\<close>

definition sleepy_exec :: "unit stm" where
  "sleepy_exec = block [
     printf ''Bed time for forked child\<newline>'', fflush, do_call (Sleep 4),
     printf ''Forked child awoke\<newline>'', fflush,
     bindS (execve ''./hello-stat'' [] []) (\<lambda>v.
       only_if (v = -1) [printf ''Failed to start ./hello-stat\<newline>'', perror ''Could not execve''])]"

definition forkmulti_callsys :: "string \<Rightarrow> int option stm" where
  "forkmulti_callsys name = bindS (sysv Fork) (\<lambda>cpid.
     if cpid = -1 then yields [perror ''fork failed'', exit (-1)] None
     else if cpid = 0 then yields [sleepy_exec] None
     else ret (Some cpid))"

definition forkmulti_main :: "string list \<Rightarrow> unit stm" where
  "forkmulti_main argv = bindS (forkmulti_callsys (command_arg argv)) (\<lambda>v.
     used_value v (\<lambda>childpid. block [run_five_threads, await_childpid childpid, exit 0]))"

definition fewap_callsys :: "string \<Rightarrow> int option stm" where
  "fewap_callsys name = bindS (sysv Fork) (\<lambda>childpid.
     if childpid = -1 then yields [perror ''fork failed'', exit (-1)] None
     else if childpid = 0 then yields [sleepy_exec] None
     else yields [await_childpid childpid] (Some childpid))"

definition forkexecwait_and_pthread_main :: "string list \<Rightarrow> unit stm" where
  "forkexecwait_and_pthread_main argv = bindS (fewap_callsys (command_arg argv)) (\<lambda>v.
     used_value v (\<lambda>childpid. block [run_five_threads, exit 0]))"

subsection \<open>\<^verbatim>\<open>forkexecwait_and_pthreadchild.c\<close>, \<^verbatim>\<open>system_and_pthread.c\<close>\<close>

text \<open>The result of \<^verbatim>\<open>execorproceed\<close> is not used.\<close>

definition execorproceed :: "unit stm" where
  "execorproceed = bindS (sysv Fork) (\<lambda>childpid.
     if childpid = -1 then block [perror ''fork failed'', exit (-1)]
     else if childpid = 0 then run_five_threads
     else sleepy_exec)"

definition forkexecwait_and_pthreadchild_main :: "unit stm" where
  "forkexecwait_and_pthreadchild_main = block [execorproceed, exit 0]"

text \<open>\<^verbatim>\<open>callsys\<close> is the function of \<^verbatim>\<open>system.c\<close>, word for word.\<close>

abbreviation sap_callsys :: "string \<Rightarrow> unit stm" where
  "sap_callsys \<equiv> callsys"

definition system_and_pthread_main :: "string list \<Rightarrow> unit stm" where
  "system_and_pthread_main argv = block [sap_callsys (command_arg argv), run_five_threads, exit 0]"

subsection \<open>\<^verbatim>\<open>processesgalore.c\<close>\<close>

definition galore_status_text :: "int \<Rightarrow> reply \<Rightarrow> string" where
  "galore_status_text thread_id r =
     (let who = ''Parent of thread '' @ fmt_d thread_id @ '': saw child '' @ fmt_d (rv r) @ '' '' in
      if WIFEXITED (wstat r) then who @ ''exited, status='' @ fmt_d (WEXITSTATUS (wstat r)) @ ''\<newline>''
      else if WIFSIGNALED (wstat r) then who @ ''killed by signal '' @ fmt_d (WTERMSIG (wstat r)) @ ''\<newline>''
      else if WIFSTOPPED (wstat r) then who @ ''stopped by signal '' @ fmt_d (WSTOPSIG (wstat r)) @ ''\<newline>''
      else if WIFCONTINUED (wstat r) then who @ ''continued\<newline>''
      else [])"

definition galore_wait :: "int \<Rightarrow> int \<Rightarrow> unit stm" where
  "galore_wait thread_id cpid = do_while (bindS (sys (Waitpid cpid WAIT_OPTS)) (\<lambda>r.
     if rv r = -1 then yields [perror ''Waitpid failed''] False
     else yields [
         only_if (galore_status_text thread_id r \<noteq> []) [printf (galore_status_text thread_id r)],
         fflush]
       (\<not> WIFEXITED (wstat r) \<and> \<not> WIFSIGNALED (wstat r))))"

definition galore_child :: "int \<Rightarrow> int \<Rightarrow> unit stm" where
  "galore_child thread_id forkno =
     bindS (sysv Getpid) (\<lambda>pid. bindS (sysv Gettid) (\<lambda>tid. bindS (sysv Getppid) (\<lambda>ppid.
     bindS (sysv Getuid) (\<lambda>uid. bindS (sysv Geteuid) (\<lambda>euid.
     bindS (sysv Getgid) (\<lambda>gid. bindS (sysv Getegid) (\<lambda>egid. block [
       printf (''Child  '' @ fmt_d forkno @ '' of thread '' @ fmt_d thread_id @ '': PID '' @ fmt_d pid @
         '', tid '' @ fmt_d tid @ '', parent PID '' @ fmt_d ppid @ '', uid '' @ fmt_d uid @
         '', euid '' @ fmt_d euid @ '', gid '' @ fmt_d gid @ '', egid '' @ fmt_d egid @ ''\<newline>''),
       fflush,
       do_call (Sleep (5 * (forkno + 1))),
       printf (''Child  '' @ fmt_d forkno @ '' of thread '' @ fmt_d thread_id @ '' done\<newline>''),
       exit forkno])))))))"

definition galore_fork_body :: "int \<Rightarrow> int \<Rightarrow> int option \<Rightarrow> int option stm" where
  "galore_fork_body thread_id forkno _ = bindS (sysv Fork) (\<lambda>cpid.
     if cpid = -1 then
       yields [printf (''Fork '' @ fmt_d forkno @ '' failed\<newline>''), perror ''fork failed'', fflush, exit (-1)] (Some cpid)
     else if cpid = 0 then yields [galore_child thread_id forkno] (Some cpid)
     else ret (Some cpid))"

definition do_thread :: "int \<Rightarrow> int stm" where
  "do_thread thread_id =
     bindS (sysv (Malloc 4)) (\<lambda>exitval.
     bindS fflush (\<lambda>_. let numforks = thread_id + 2 in
     bindS (sysv Getpid) (\<lambda>pid. bindS (sysv Gettid) (\<lambda>tid.
     bindS (block [
         printf (''In thread '' @ fmt_d thread_id @ '' create '' @ fmt_d numforks @
           '' forked children PID '' @ fmt_d pid @ '', tid '' @ fmt_d tid @ ''\<newline>''),
         fflush]) (\<lambda>_.
     bindS (for_loop 0 numforks (galore_fork_body thread_id) None) (\<lambda>last.
     bindS (sysv Getpid) (\<lambda>pid. bindS (sysv Gettid) (\<lambda>tid.
     bindS (block [
         printf (''Parent of thread '' @ fmt_d thread_id @ '': PID '' @ fmt_d pid @ '', tid '' @
           fmt_d tid @ '' made all children\<newline>''),
         fflush,
         case last of None \<Rightarrow> undefined_behaviour ''cpid has no value''
           | Some cpid \<Rightarrow> galore_wait thread_id cpid]) (\<lambda>_.
     if exitval = 0 then signalled SIGSEGV else ret thread_id)))))))))"

text \<open>The arrays are declared while \<^verbatim>\<open>num_threads\<close> is still 5; the argument changes the number
  of iterations, not their length.\<close>

definition galore_num_threads :: "string list \<Rightarrow> int" where
  "galore_num_threads argv = (if argc argv > 1 then atoi (argv ! 1) else 5)"

definition galore_create_body :: "int \<Rightarrow> int list \<Rightarrow> int list stm" where
  "galore_create_body i threads =
     (if i \<ge> 5 then undefined_behaviour ''thread_ids[i] is past the end''
      else bindS (sys (Pthread_create ''do_thread'' i)) (\<lambda>rc.
        if rv rc \<noteq> 0 then
          yields [printf (''Error: Unable to create thread '' @ fmt_d i @ ''\<newline>''), exit (-1)] threads
        else ret (threads @ [out_int 0 rc])))"

definition galore_main :: "string list \<Rightarrow> unit stm" where
  "galore_main argv = (let num_threads = galore_num_threads argv in block [
     printf (''Creating '' @ fmt_d num_threads @ '' threads\<newline>''),
     fflush,
     bindS (for_loop 0 num_threads galore_create_body []) (\<lambda>threads. block [
       printf (fmt_d num_threads @ '' threads made, sleep a bit\<newline>''),
       fflush,
       do_call (Sleep 5),
       bindS (for_loop 0 num_threads (five_join_body threads) PAD) (\<lambda>_. skip)]),
     exit 0])"

subsection \<open>\<^verbatim>\<open>forktree_and_pthread.c\<close>\<close>

definition tree_print_thread_id :: "int \<Rightarrow> int stm" where
  "tree_print_thread_id thread_id =
     bindS (sysv (Malloc 4)) (\<lambda>exitval.
     bindS (sysv Getpid) (\<lambda>pid. bindS (sysv Gettid) (\<lambda>tid.
     bindS (block [
         printf ('' Thread '' @ fmt_d thread_id @ '' is running as pid, tid: '' @ fmt_d pid @ '','' @ fmt_d tid @ ''\<newline>''),
         fflush,
         do_call (Sleep 2)]) (\<lambda>_.
     bindS (sysv Getpid) (\<lambda>pid. bindS (sysv Gettid) (\<lambda>tid.
     bindS (block [
         printf ('' Thread '' @ fmt_d thread_id @ '' is running as pid, tid: '' @ fmt_d pid @ '','' @ fmt_d tid @ '' ready to exit\<newline>''),
         fflush]) (\<lambda>_.
     if exitval = 0 then signalled SIGSEGV else ret thread_id)))))))"

definition tree_create_body :: "int \<Rightarrow> int list \<Rightarrow> int list stm" where
  "tree_create_body i threads =
     (if i \<ge> MAXTHREADS then undefined_behaviour ''thread_ids[i] is past the end''
      else bindS (sys (Pthread_create ''print_thread_id'' (i + 1))) (\<lambda>rc.
        if rv rc \<noteq> 0 then
          yields [printf (''Error: Unable to create thread '' @ fmt_d (i + 1) @ ''\<newline>''), exit (-1)] threads
        else ret (threads @ [out_int 0 rc])))"

definition tree_join_line :: "int \<Rightarrow> int \<Rightarrow> reply \<Rightarrow> string" where
  "tree_join_line i h r = ''Joined with thread '' @ fmt_d h @ '' which exited 0x'' @
     fmt_x (out_int 0 r) @ ''\<newline>''"

definition tree_join_body :: "int list \<Rightarrow> int \<Rightarrow> unit \<Rightarrow> unit stm" where
  "tree_join_body threads i _ = bindS (thread_at threads i) (\<lambda>thread. bindS (sys (Pthread_join thread)) (\<lambda>r.
     if rv r \<noteq> 0 then undefined_behaviour ''threadstatus has no value''
     else block [printf (tree_join_line i thread r), fflush]))"

definition spawnthreads :: "int \<Rightarrow> unit stm" where
  "spawnthreads num_threads = (let num_threads = (if num_threads > MAXTHREADS then MAXTHREADS else num_threads) in
     bindS (for_loop 0 num_threads tree_create_body []) (\<lambda>threads.
       for_loop 0 num_threads (tree_join_body threads) ()))"

definition tree_wait :: "unit stm" where
  "tree_wait = do_while (bindS (sys (Waitpid 0 WAIT_OPTS)) (\<lambda>r.
     if rv r = -1 then ret False
     else yields [report_status [] (wstat r)]
       (\<not> WIFEXITED (wstat r) \<and> \<not> WIFSIGNALED (wstat r))))"

definition waitchildren :: "int \<Rightarrow> unit stm" where
  "waitchildren levno = block [
     tree_wait,
     printf (''parent '' @ fmt_d levno @ '' after all children exitted\<newline>''),
     fflush]"

definition tree_fork_body :: "(unit stm) \<Rightarrow> int \<Rightarrow> int \<Rightarrow> unit \<Rightarrow> unit stm" where
  "tree_fork_body deeper numlevels forkno _ = bindS (sysv Fork) (\<lambda>cpid.
     if cpid = -1 then
       block [printf (''Fork '' @ fmt_d forkno @ '' failed\<newline>''), perror ''fork failed'', exit (-1)]
     else if cpid = 0 then block [
       print_ids (''Level '' @ fmt_d numlevels @ '', Child '' @ fmt_d forkno @ '': ''),
       fflush,
       do_call (Sleep 2),
       deeper,
       exit forkno]
     else skip)"

text \<open>
  The recursion of \<^verbatim>\<open>spawnforks\<close> goes down by one level per call until \<^verbatim>\<open>numlevels\<close> is 0; from a
  negative number it would go on until the subtraction overflows. \<open>spawnforks_upto k\<close> makes at
  most \<open>k\<close> nested calls, and \<open>spawnforks\<close> takes the number of calls that are needed.
\<close>

primrec spawnforks_upto :: "nat \<Rightarrow> int \<Rightarrow> int \<Rightarrow> unit stm" where
  "spawnforks_upto 0 numforks numlevels =
     (if numlevels = 0 then spawnthreads numforks else undefined_behaviour ''numlevels - 1 overflows'')"
| "spawnforks_upto (Suc k) numforks numlevels =
     (if numlevels = 0 then spawnthreads numforks
      else bindS (for_loop 0 numforks
          (tree_fork_body (spawnforks_upto k numforks (numlevels - 1)) numlevels) ())
        (\<lambda>_. waitchildren numlevels))"

definition spawnforks :: "int \<Rightarrow> int \<Rightarrow> unit stm" where
  "spawnforks numforks numlevels =
     spawnforks_upto (nat (if numlevels \<ge> 0 then numlevels else numlevels - INT_MIN + 1)) numforks numlevels"

definition tree_numlevels :: "string list \<Rightarrow> int" where
  "tree_numlevels argv = (if argc argv > 2 then atoi (argv ! 2) else 1)"

definition tree_main :: "string list \<Rightarrow> unit stm" where
  "tree_main argv = block [
     printf (arg0 argv @ '' will fork '' @ fmt_d (numforks_arg argv) @ '' times on '' @
       fmt_d (tree_numlevels argv) @ '' levels\<newline>''),
     fflush,
     spawnforks (numforks_arg argv) (tree_numlevels argv),
     printf (arg0 argv @ ''  forked '' @ fmt_d (numforks_arg argv) @ '' times on '' @
       fmt_d (tree_numlevels argv) @ '' levels\<newline>''),
     fflush,
     exit 0]"

subsection \<open>The loops keep their contracts\<close>

interpretation pthread_cl: create_loop pthread_create_body "''print_thread_id''" "\<lambda>i. i + 1" MAXTHREADS
  by unfold_locales (simp_all add: pthread_create_body_def run_simps create_text_def)

interpretation five_cl: create_loop five_create_body "''print_thread_id''" "\<lambda>i. i + 1" 5
  by unfold_locales (simp_all add: five_create_body_def run_simps create_text_def)

interpretation galore_cl: create_loop galore_create_body "''do_thread''" "\<lambda>i. i" 5
  by unfold_locales (simp_all add: galore_create_body_def run_simps create_text_def)

interpretation tree_cl: create_loop tree_create_body "''print_thread_id''" "\<lambda>i. i + 1" MAXTHREADS
  by unfold_locales (simp_all add: tree_create_body_def run_simps create_text_def)

definition unpadded_line :: "int \<Rightarrow> int \<Rightarrow> reply \<Rightarrow> string" where
  "unpadded_line i h r = ''Joined with thread '' @ fmt_d i @ '' which exited 0x'' @
     fmt_x (out_int 0 r) @ '' \<newline>''"

interpretation pthread_jl: join_loop pthread_join_body unpadded_line pad_ok flush_out
  by unfold_locales (auto simp: pthread_join_body_def run_simps obs_simps joined_line_def unpadded_line_def pad_cut thread_at_inside)

interpretation five_jl: join_loop five_join_body unpadded_line pad_ok "\<lambda>s. s"
  by unfold_locales (auto simp: five_join_body_def run_simps obs_simps joined_line_def unpadded_line_def pad_cut thread_at_inside)

interpretation tree_jl: join_loop tree_join_body tree_join_line "\<lambda>_ _. True" flush_out
  by unfold_locales (auto simp: tree_join_body_def run_simps obs_simps thread_at_inside)

interpretation tree_wl: wait_loop "reported []" "\<lambda>r. status_text [] (wstat r)" tree_wait 0 WAIT_OPTS skip
  by (rule wait_loop_do_while [OF tree_wait_def]) (simp_all add: wait_loop_simps)

definition galore_reported :: "int \<Rightarrow> reply \<Rightarrow> process \<Rightarrow> process" where
  "galore_reported thread_id r s = flush_out (if galore_status_text thread_id r = [] then s
     else put_out (galore_status_text thread_id r) s)"

definition galore_wait_failed :: "unit stm" where
  "galore_wait_failed = perror ''Waitpid failed''"

interpretation galore_wl: wait_loop "galore_reported t" "galore_status_text t" "galore_wait t cpid" cpid
    WAIT_OPTS galore_wait_failed for t cpid
  by (rule wait_loop_do_while [OF galore_wait_def])
    (simp_all add: wait_loop_simps galore_reported_def galore_wait_failed_def perror_def)

text \<open>The calls that create \<open>n\<close> threads numbered from 1.\<close>

definition creates_of :: "reply list \<Rightarrow> (call \<times> reply) list" where
  "creates_of cs = map (\<lambda>(k, r). (Pthread_create ''print_thread_id'' (int k + 1), r)) (enumerate 0 cs)"

definition joins_of :: "reply list \<Rightarrow> reply list \<Rightarrow> (call \<times> reply) list" where
  "joins_of cs js = map (\<lambda>(c, j). (Pthread_join (out_int 0 c), j)) (zip cs js)"

definition unpadded_text :: "reply list \<Rightarrow> reply list \<Rightarrow> string" where
  "unpadded_text cs js = join_text unpadded_line 0 (zip (map (out_int 0) cs) js)"

lemma joins_of_zip:
  "map (\<lambda>(h, r). (Pthread_join h, r)) (zip (map (out_int 0) cs) js) = joins_of cs js"
  by (auto simp: joins_of_def zip_map1 case_prod_beta comp_def)

text \<open>A run of \<^verbatim>\<open>pthread\<close> in which every thread is created makes the threads numbered
  1 to \<open>n\<close>, joins each of them once, in the order they were made, by the handle its creation
  gave, prints each thread's exit value, and exits 0; the padding it means to print is always
  empty.\<close>

theorem pthread_main_run:
  assumes "list_all (\<lambda>r. rv r = 0) cs" "length js = length cs" "pthread_num_threads argv = int (length cs)"
    and "list_all (\<lambda>r. rv r = 0) js"
  shows "\<exists>s'. pthread_main argv (start m (cs @ js)) = (Exited 0, s') \<and>
    calls s' = creates_of cs @ joins_of cs js \<and>
    written s' = arg0 argv @ '' will create '' @ fmt_d (int (length cs)) @ '' threads\<newline>'' @ unpadded_text cs js"
proof -
  let ?n = "int (length cs)"
  have n: "?n \<le> MAXTHREADS"
    using assms(3) by (auto simp: pthread_num_threads_def split: if_splits)
  note c = pthread_cl.creates [OF _ assms(1) refl n, where rest = js]
  define s0 where "s0 = flush_out (put_out (arg0 argv @ '' will create '' @ fmt_d ?n @ '' threads\<newline>'') (start m (cs @ js)))"
  have s0: "answers s0 = cs @ js" "printed s0 = arg0 argv @ '' will create '' @ fmt_d ?n @ '' threads\<newline>''" "calls s0 = []"
    by (simp_all add: s0_def obs_simps)
  have main: "pthread_main argv (start m (cs @ js)) =
      bindS (for_loop 0 ?n pthread_create_body []) (\<lambda>threads.
        bindS (for_loop 0 ?n (pthread_join_body threads) PAD) (\<lambda>_ s. (Exited 0, flush_out s))) s0"
    by (simp add: pthread_main_def Let_def assms(3) run_simps s0_def)
  let ?s1 = "created ''print_thread_id'' (\<lambda>i. i + 1) 0 cs s0"
  have s1: "answers ?s1 = js @ []"
    using s0(1) by (simp add: obs_simps)
  have "pad_ok 0 PAD"
    by (simp add: pad_ok_def)
  from pthread_jl.joins [OF this s1, of "map (out_int 0) cs" ?n] assms(2,4) obtain p s2 where
    "for_loop 0 ?n (pthread_join_body (map (out_int 0) cs)) PAD ?s1 = (Ret p, s2)"
    "printed s2 = printed ?s1 @ unpadded_text cs js" "calls s2 = calls ?s1 @ joins_of cs js"
    by (auto simp: unpadded_text_def joins_of_zip)
  then show ?thesis
    unfolding main by (simp add: run_simps c [OF s0(1)] bindS_result(1) obs_simps s0 creates_of_def)
qed

lemma pad_set_defined: "pad_ok i pad \<Longrightarrow> 0 \<le> i \<Longrightarrow> well_defined W (pad_set i NUL pad)"
  by (simp add: pad_cut(1) defined_intros)

lemma gives_message: "gives Q (yields [printf t, exit n] v)"
  by (simp add: gives_def yields_def run_simps)

lemma pthread_create_defined:
  assumes "0 \<le> i" "i < MAXTHREADS" "length hs = nat i"
  shows "well_defined W (pthread_create_body i hs) \<and> gives (\<lambda>hs. length hs = nat (i + 1)) (pthread_create_body i hs)"
  using assms unfolding pthread_create_body_def
  by (auto intro!: defined_intros gives_message gives_any gives_basic simp: nat_add_distrib)

lemma pthread_join_defined:
  assumes "0 \<le> i" "i < int (length hs)" "pad_ok i pad"
  shows "well_defined {''threadstatus has no value''} (pthread_join_body hs i pad) \<and>
    gives (pad_ok (i + 1)) (pthread_join_body hs i pad)"
  using assms unfolding pthread_join_body_def
  by (auto intro!: defined_intros gives_any gives_basic simp: pad_cut thread_at_inside bindS_ret nat_less_iff)

text \<open>C40. \<^verbatim>\<open>pthread\<close> stays inside its arrays. For every argument vector and all replies, the only undefined behaviour that
  \<^verbatim>\<open>main\<close> can run into is to use the result of a failed join: it never accesses \<^verbatim>\<open>thread_ids\<close>, \<^verbatim>\<open>threads\<close> or \<^verbatim>\<open>pad\<close> outside of their
  bounds, and never reads a handle it has not set. The function of its threads has none for any of the numbers
  that \<^verbatim>\<open>main\<close> gives them.\<close>

theorem pthread_main_defined:
  "(w \<noteq> ''threadstatus has no value'' \<longrightarrow> fst (pthread_main argv s) \<noteq> Undefined w) \<and>
   (1 \<le> thread_id \<and> thread_id \<le> MAXTHREADS \<longrightarrow> fst (pthread_print_thread_id thread_id s') \<noteq> Undefined w')"
proof (intro conjI impI)
  let ?W = "{''threadstatus has no value''}" and ?n = "pthread_num_threads argv"
  have n: "?n \<le> MAXTHREADS"
    by (auto simp: pthread_num_threads_def)
  have create: "well_defined ?W (for_loop 0 ?n pthread_create_body [])"
    "gives (\<lambda>hs. length hs = nat (max 0 ?n)) (for_loop 0 ?n pthread_create_body [])"
    using for_loop_invariant [where Inv = "\<lambda>i hs. length hs = nat i" and W = ?W and body = pthread_create_body and lo = 0 and hi = ?n and v = "[]"]
      pthread_create_defined n by auto
  have "well_defined ?W (for_loop 0 ?n (pthread_join_body hs) PAD)" if "length hs = nat (max 0 ?n)" for hs
    using for_loop_invariant(1) [where Inv = pad_ok and W = ?W and body = "pthread_join_body hs" and lo = 0 and hi = ?n and v = PAD]
      pthread_join_defined that by (auto simp: pad_ok_def)
  then have "well_defined ?W (bindS (for_loop 0 ?n pthread_create_body []) (\<lambda>threads.
      bindS (for_loop 0 ?n (pthread_join_body threads) PAD) (\<lambda>_. skip)))"
    by (intro well_defined_gives [OF create(2,1)] well_defined_bindS well_defined_basic(2))
  then have "well_defined ?W (pthread_main argv)"
    unfolding pthread_main_def Let_def by (intro well_defined_block well_defined_basic)
  moreover assume "w \<noteq> ''threadstatus has no value''"
  ultimately show "fst (pthread_main argv s) \<noteq> Undefined w"
    by (intro well_definedD) auto
next
  assume "1 \<le> thread_id \<and> thread_id \<le> MAXTHREADS"
  then have "well_defined {} (pthread_print_thread_id thread_id)"
    unfolding pthread_print_thread_id_def by (auto intro!: defined_intros simp: pad_thread_set)
  then show "fst (pthread_print_thread_id thread_id s') \<noteq> Undefined w'"
    by (intro well_definedD) auto
qed

theorem pthread_main_defined_witness:
  "fst (pthread_main [''pthread'', ''99''] (start Unbuffered [])) \<noteq> Undefined ''thread_ids[i] is past the end'' \<and>
    fst (pthread_print_thread_id 20 (start Unbuffered [])) \<noteq> Undefined ''pad[i] is outside the array''"
  using pthread_main_defined [of "''thread_ids[i] is past the end''" "[''pthread'', ''99'']" "start Unbuffered []" 20
      "start Unbuffered []" "''pad[i] is outside the array''"] by simp

text \<open>\<^verbatim>\<open>processesgalore\<close> asked for more than five threads writes past the end of its arrays
  as soon as it has created five: they are sized before the argument is read.\<close>

theorem galore_too_many_threads:
  assumes "galore_num_threads argv > 5" "length cs = 5" "list_all (\<lambda>r. rv r = 0) cs"
  shows "\<exists>w s'. galore_main argv (start m (cs @ rest)) = (Undefined w, s') \<and> answers s' = rest"
proof -
  let ?n = "galore_num_threads argv"
  define s0 where "s0 = flush_out (put_out (''Creating '' @ fmt_d ?n @ '' threads\<newline>'') (start m (cs @ rest)))"
  have s0: "answers s0 = cs @ rest"
    by (simp add: s0_def obs_simps)
  have main: "\<exists>k. galore_main argv (start m (cs @ rest)) = bindS (for_loop 0 ?n galore_create_body []) k s0"
    by (simp add: galore_main_def Let_def run_simps s0_def) blast
  from galore_cl.creates_too_many [OF s0 assms(3)] assms(1,2) main show ?thesis
    using s0 assms(2) by (fastforce simp: obs_simps)
qed

text \<open>A failing \<^verbatim>\<open>pthread_create\<close> ends \<^verbatim>\<open>pthread\<close> at once with -1, after a message naming the
  thread; no thread made so far is joined.\<close>

theorem pthread_create_failure:
  assumes "list_all (\<lambda>r. rv r = 0) cs" "rv r \<noteq> 0" "int (length cs) < pthread_num_threads argv"
  shows "\<exists>s'. pthread_main argv (start m (cs @ r # rest)) = (Exited (-1), s') \<and> answers s' = rest \<and>
    calls s' = creates_of (cs @ [r]) \<and>
    written s' = arg0 argv @ '' will create '' @ fmt_d (pthread_num_threads argv) @ '' threads\<newline>'' @
      ''Error: Unable to create thread '' @ fmt_d (int (length cs) + 1) @ ''\<newline>''"
proof -
  let ?n = "pthread_num_threads argv"
  have n: "?n \<le> MAXTHREADS"
    by (auto simp: pthread_num_threads_def)
  define s0 where "s0 = flush_out (put_out (arg0 argv @ '' will create '' @ fmt_d ?n @ '' threads\<newline>'') (start m (cs @ r # rest)))"
  have s0: "answers s0 = cs @ r # rest" "printed s0 = arg0 argv @ '' will create '' @ fmt_d ?n @ '' threads\<newline>''" "calls s0 = []"
    by (simp_all add: s0_def obs_simps)
  have main: "pthread_main argv (start m (cs @ r # rest)) =
      bindS (for_loop 0 ?n pthread_create_body []) (\<lambda>threads.
        bindS (for_loop 0 ?n (pthread_join_body threads) PAD) (\<lambda>_ s. (Exited 0, flush_out s))) s0"
    by (simp add: pthread_main_def Let_def run_simps s0_def)
  show ?thesis
    unfolding main pthread_cl.create_fails [OF s0(1) assms n]
    using s0 by (simp add: obs_simps create_text_def creates_of_def enumerate_append_eq)
qed

lemma run_five_threads_run:
  assumes "answers s = cs @ js @ rest" "length cs = 5" "length js = 5" "list_all (\<lambda>r. rv r = 0) cs"
    "list_all (\<lambda>r. rv r = 0) js"
  shows "\<exists>s'. run_five_threads s = (Ret (), s') \<and> answers s' = rest \<and>
    calls s' = calls s @ creates_of cs @ joins_of cs js \<and> printed s' = printed s @ unpadded_text cs js"
proof -
  let ?s1 = "created ''print_thread_id'' (\<lambda>i. i + 1) 0 cs s"
  have n: "(5 :: int) = int (length cs)" "(5 :: int) \<le> 5" "(5 :: int) = int (length js)"
      "length (map (out_int 0) cs) = length js"
    using assms by simp_all
  have s1: "answers ?s1 = js @ rest" "pad_ok 0 PAD"
    using assms by (simp_all add: obs_simps pad_ok_def)
  from five_jl.joins [OF s1(2,1) n(4,3) assms(5)] obtain p s2 where
    "for_loop 0 5 (five_join_body (map (out_int 0) cs)) PAD ?s1 = (Ret p, s2)" "answers s2 = rest"
    "printed s2 = printed ?s1 @ unpadded_text cs js" "calls s2 = calls ?s1 @ joins_of cs js"
    by (auto simp: unpadded_text_def joins_of_zip)
  then show ?thesis
    unfolding run_five_threads_def five_cl.creates [OF assms(1,4) n(1,2)]
    by (simp add: run_simps bindS_result(1) obs_simps creates_of_def)
qed

text \<open>C19. \<^verbatim>\<open>fork_and_pthread.c\<close>, both processes: the child sleeps and exits 17; the parent runs its
  five threads, then waits for that child, and with the status the child left it prints 17.\<close>

theorem fork_and_pthread_run:
  assumes "rv f > 0" "length cs = 5" "length js = 5" "list_all (\<lambda>r. rv r = 0) cs"
    "list_all (\<lambda>r. rv r = 0) js"
    and "rv w \<noteq> -1" "rv f' = 0"
    and "fst (fork_and_pthread_main argv (start m [f', z])) = Exited n" "wstat w = exit_status n"
  shows "\<exists>s'. fork_and_pthread_main argv (start m (f # cs @ js @ [w])) = (Exited 0, s') \<and>
    calls s' = (Fork, f) # creates_of cs @ joins_of cs js @ [(Waitpid (rv f) WAIT_OPTS, w)] \<and>
    written s' = unpadded_text cs js @ ''childpid exited, status=17\<newline>Childpid fork done\<newline>''"
proof -
  have n: "n = 17"
    using assms(7,8) by (simp add: fork_and_pthread_main_def fap_callsys_def run_simps obs_simps)
  let ?s0 = "logged Fork f (start m (f # cs @ js @ [w]))"
  have "answers ?s0 = cs @ js @ [w]"
    by (simp add: obs_simps)
  from run_five_threads_run [OF this assms(2,3,4,5)] obtain s1 where
    s1: "run_five_threads ?s0 = (Ret (), s1)" "answers s1 = [w]"
      "calls s1 = (Fork, f) # creates_of cs @ joins_of cs js" "printed s1 = unpadded_text cs js"
    by (auto simp: obs_simps)
  have "status_text ''childpid '' (wstat w) = ''childpid exited, status=17\<newline>''"
    using exit_status_read [of n] by (simp add: assms(9) n status_text_def fmt_d_def fmt_u_def radix.simps)
  then show ?thesis
    using assms(1,6) s1 by (simp add: fork_and_pthread_main_def fap_callsys_def await_childpid_def
      run_simps obs_simps bindS_result(1) [where m = run_five_threads, OF s1(1)])
qed

text \<open>\<^verbatim>\<open>forkexec_and_pthread.c\<close>, \<^verbatim>\<open>forkmulti.c\<close>, \<^verbatim>\<open>forkexecwait_and_pthread.c\<close>: a child whose command cannot be started
  falls off the end of \<^verbatim>\<open>callsys\<close>, and \<^verbatim>\<open>main\<close> goes on with a value that was never returned.\<close>

theorem child_uses_missing_value:
  assumes "rv f = 0" "rv e = -1"
  shows "fst (forkexec_and_pthread_main argv (start m [f, e])) = Undefined ''callsys returned no value'' \<and>
    fst (forkmulti_main argv (start m [f, z, e])) = Undefined ''callsys returned no value'' \<and>
    fst (forkexecwait_and_pthread_main argv (start m [f, z, e])) = Undefined ''callsys returned no value''"
  using assms by (simp add: forkexec_and_pthread_main_def feap_callsys_def forkmulti_main_def forkmulti_callsys_def
    forkexecwait_and_pthread_main_def fewap_callsys_def sleepy_exec_def used_value_def run_simps obs_simps)

text \<open>The thread function: thread \<open>i\<close> ends with \<open>i\<close> and writes one line, indented by \<open>i\<close>
  blanks for the numbers the programs use.\<close>

theorem print_thread_id_run:
  assumes "0 \<le> i" "i < 11" "rv p \<noteq> 0" "obuf s = []" "answers s = p # pid # tid # rest"
  shows "\<exists>s'. print_thread_id i s = (Ret i, s') \<and> answers s' = rest \<and>
    written s' = written s @ ''Our thread '' @ fmt_d i @ '' is running as pid, tid: '' @ fmt_d (rv pid) @
      '','' @ fmt_d (rv tid) @ '' '' @ replicate (nat i) CHR '' '' @ ''\<newline>''"
proof -
  have "written s = printed s"
    using assms(4) by (simp add: printed_def)
  with assms show ?thesis
    by (simp add: print_thread_id_def run_simps obs_simps pad_thread pad_thread_set bindS_ret running_text_def)
qed


subsection \<open>The tree of processes\<close>

text \<open>
  A process of the tree made by \<^verbatim>\<open>forktree_and_pthread.c\<close> is given by a path: at each level
  it has forked some children (\<open>older\<close>) before it came out of a \<^verbatim>\<open>fork\<close> as the child.
\<close>

record branch =
  older :: "reply list"
  born :: reply
  idents :: "reply list"
  nap :: reply

definition good_branch :: "int \<Rightarrow> branch \<Rightarrow> bool" where
  "good_branch numforks b \<longleftrightarrow> list_all (\<lambda>f. rv f > 0) (older b) \<and> rv (born b) = 0 \<and>
     length (idents b) = 6 \<and> int (length (older b)) < numforks"

definition branch_replies :: "branch \<Rightarrow> reply list" where
  "branch_replies b = older b @ born b # idents b @ [nap b]"

definition forkno_of :: "branch \<Rightarrow> int" where
  "forkno_of b = int (length (older b))"

lemma tree_forks:
  assumes "answers s = fs @ rest" "list_all (\<lambda>f. rv f > 0) fs"
  shows "for_from (length fs) i (tree_fork_body d l) () s = (Ret (), logs Fork fs s)"
  using assms
proof (induction fs arbitrary: s i)
  case Nil
  then show ?case by (simp add: run_simps)
next
  case (Cons f fs)
  have "tree_fork_body d l i () s = (Ret (), logged Fork f s)"
    using Cons.prems by (simp add: tree_fork_body_def run_simps)
  moreover have "answers (logged Fork f s) = fs @ rest"
    using Cons.prems by (simp add: obs_simps)
  ultimately show ?case
    using Cons by (simp add: bindS_result(1))
qed

lemma spawnthreads_run:
  assumes "answers s = cs @ js @ rest" "length js = length cs" "int (length cs) = min n MAXTHREADS"
    and "list_all (\<lambda>r. rv r = 0) cs" "list_all (\<lambda>r. rv r = 0) js"
  shows "\<exists>s'. spawnthreads n s = (Ret (), s') \<and> answers s' = rest \<and>
    calls s' = calls s @ creates_of cs @ joins_of cs js"
proof -
  let ?s1 = "created ''print_thread_id'' (\<lambda>i. i + 1) 0 cs s"
  let ?n = "if n > MAXTHREADS then MAXTHREADS else n"
  have n: "?n = int (length cs)" "?n \<le> MAXTHREADS" "?n = int (length js)" "length (map (out_int 0) cs) = length js"
    using assms(2,3) by auto
  have s1: "answers ?s1 = js @ rest"
    using assms by (simp add: obs_simps)
  from tree_jl.joins [OF TrueI s1 n(4,3) assms(5)] obtain s2 where
    "for_loop 0 ?n (tree_join_body (map (out_int 0) cs)) () ?s1 = (Ret (), s2)" "answers s2 = rest"
    "calls s2 = calls ?s1 @ joins_of cs js"
    by (auto simp: joins_of_zip)
  then show ?thesis
    unfolding spawnthreads_def Let_def tree_cl.creates [OF assms(1,4) n(1,2)]
    by (simp add: obs_simps creates_of_def)
qed

definition branch_calls :: "branch \<Rightarrow> (call \<times> reply) list" where
  "branch_calls b = map (Pair Fork) (older b @ [born b]) @
     zip [Getpid, Getppid, Getuid, Geteuid, Getgid, Getegid] (idents b) @ [(Sleep 2, nap b)]"

lemma asked_ids_calls:
  "length is = 6 \<Longrightarrow> calls (asked_ids is s) = calls s @ zip [Getpid, Getppid, Getuid, Geteuid, Getgid, Getegid] is"
  by (auto simp: asked_ids_def obs_simps numeral_eq_Suc length_Suc_conv)

lemma tree_child:
  assumes "answers s = born b # idents b @ nap b # rest" "good_branch n b"
  shows "\<exists>s1. tree_fork_body d l i () s = bindS d (\<lambda>_. exit i) s1 \<and> answers s1 = rest \<and>
    calls s1 = calls s @ branch_calls (b\<lparr>older := []\<rparr>)"
proof -
  have l: "length (idents b) = 6" and "rv (born b) = 0"
    using assms(2) by (simp_all add: good_branch_def)
  with assms(1) show ?thesis
    by - (rule exI, rule conjI, simp add: tree_fork_body_def print_ids_run [OF l] run_simps obs_simps,
      simp add: obs_simps asked_ids_calls branch_calls_def)
qed

lemma tree_branch:
  assumes "answers s = branch_replies b @ rest" "good_branch n b"
  shows "\<exists>s1. for_loop 0 n (tree_fork_body d l) () s = bindS d (\<lambda>_. exit (forkno_of b)) s1 \<and> answers s1 = rest \<and>
    calls s1 = calls s @ branch_calls b"
proof -
  have a: "answers s = older b @ born b # idents b @ nap b # rest" "list_all (\<lambda>f. rv f > 0) (older b)"
      "0 + int (length (older b)) < n"
    using assms by (simp_all add: branch_replies_def good_branch_def)
  let ?s0 = "logs Fork (older b) s"
  have "answers ?s0 = born b # idents b @ nap b # rest"
    using a(1) by (simp add: obs_simps)
  from tree_child [OF this assms(2), of d l "forkno_of b"] obtain s1 where
    s1: "tree_fork_body d l (forkno_of b) () ?s0 = bindS d (\<lambda>_. exit (forkno_of b)) s1" "answers s1 = rest"
      "calls s1 = calls ?s0 @ branch_calls (b\<lparr>older := []\<rparr>)"
    by blast
  obtain e :: "unit result" and s2 where e: "bindS d (\<lambda>_. exit (forkno_of b)) s1 = (e, s2)"
    by fastforce
  then have "\<And>x. e \<noteq> Ret x"
    by (auto simp: bindS_def exit_def split: prod.splits result.splits)
  with for_loop_leaves [OF tree_forks [OF a(1,2), of 0 d l] a(3), of e s2] s1(1) e
  have "for_loop 0 n (tree_fork_body d l) () s = bindS d (\<lambda>_. exit (forkno_of b)) s1"
    by (simp add: forkno_of_def)
  with s1(2,3) show ?thesis
    by (auto simp: obs_simps branch_calls_def)
qed

lemma spawnforks_path:
  assumes "answers s = concat (map branch_replies path) @ cs @ js @ rest" "list_all (good_branch n) path"
    and "length js = length cs" "int (length cs) = min n MAXTHREADS" "list_all (\<lambda>r. rv r = 0) cs"
    and "list_all (\<lambda>r. rv r = 0) js"
  shows "\<exists>s'. spawnforks_upto (length path) n (int (length path)) s =
      (if path = [] then Ret () else Exited (forkno_of (last path)), s') \<and> answers s' = rest \<and>
    calls s' = calls s @ concat (map branch_calls path) @ creates_of cs @ joins_of cs js"
  using assms(1,2)
proof (induction path arbitrary: s)
  case Nil
  with spawnthreads_run [OF _ assms(3,4,5,6)] show ?case
    by simp
next
  case (Cons b path)
  let ?d = "spawnforks_upto (length path) n (int (length path))"
  from Cons.prems have "answers s = branch_replies b @ concat (map branch_replies path) @ cs @ js @ rest" "good_branch n b"
    by simp_all
  from tree_branch [OF this, of ?d "int (Suc (length path))"] obtain s1 where
    s1: "for_loop 0 n (tree_fork_body ?d (int (Suc (length path)))) () s = bindS ?d (\<lambda>_. exit (forkno_of b)) s1"
      "answers s1 = concat (map branch_replies path) @ cs @ js @ rest" "calls s1 = calls s @ branch_calls b"
    by blast
  from Cons.IH [OF s1(2)] Cons.prems(2) obtain s2 where
    s2: "?d s1 = (if path = [] then Ret () else Exited (forkno_of (last path)), s2)" "answers s2 = rest"
      "calls s2 = calls s1 @ concat (map branch_calls path) @ creates_of cs @ joins_of cs js"
    by auto
  let ?s3 = "if path = [] then flush_out s2 else s2"
  have "bindS ?d (\<lambda>_. exit (forkno_of b)) s1 = (Exited (forkno_of (last (b # path))), ?s3)"
    using s2(1) by (auto simp: bindS_result(1) bindS_result(2) run_simps)
  with s1(1) have "for_loop 0 n (tree_fork_body ?d (int (Suc (length path)))) () s =
      (Exited (forkno_of (last (b # path))), ?s3)"
    by simp
  then have "spawnforks_upto (length (b # path)) n (int (length (b # path))) s =
      (Exited (forkno_of (last (b # path))), ?s3)"
    by (simp add: bindS_result(2))
  with s1 s2 show ?case
    by (auto simp: obs_simps)
qed

text \<open>C15. \<^verbatim>\<open>forktree_and_pthread.c\<close>: for every path down the tree there is the process that took it.
  It starts and joins \<open>min numforks 20\<close> threads exactly once, at the bottom, and exits with the
  number of the last \<^verbatim>\<open>fork\<close> it came out of.\<close>

theorem tree_path_run:
  assumes "path \<noteq> []" "tree_numlevels argv = int (length path)" "list_all (good_branch (numforks_arg argv)) path"
    and "length js = length cs" "int (length cs) = min (numforks_arg argv) MAXTHREADS" "list_all (\<lambda>r. rv r = 0) cs"
    and "list_all (\<lambda>r. rv r = 0) js"
  shows "\<exists>s'. tree_main argv (start m (concat (map branch_replies path) @ cs @ js)) =
      (Exited (forkno_of (last path)), s') \<and> answers s' = [] \<and>
    calls s' = concat (map branch_calls path) @ creates_of cs @ joins_of cs js"
proof -
  let ?rs = "concat (map branch_replies path) @ cs @ js"
  define s0 where "s0 = flush_out (put_out (arg0 argv @ '' will fork '' @ fmt_d (numforks_arg argv) @ '' times on '' @
    fmt_d (tree_numlevels argv) @ '' levels\<newline>'') (start m ?rs))"
  have s0: "answers s0 = concat (map branch_replies path) @ cs @ js @ []" "calls s0 = []"
    by (simp_all add: s0_def obs_simps)
  obtain k where main: "tree_main argv (start m ?rs) = bindS (spawnforks (numforks_arg argv) (tree_numlevels argv)) k s0"
    by (simp add: tree_main_def run_simps s0_def)
  have "spawnforks (numforks_arg argv) (tree_numlevels argv) =
      spawnforks_upto (length path) (numforks_arg argv) (int (length path))"
    using assms(2) by (simp add: spawnforks_def)
  with spawnforks_path [OF s0(1) assms(3,4,5,6,7)] s0(2) main assms(1) show ?thesis
    by (auto simp: bindS_result(2))
qed

text \<open>\<^verbatim>\<open>forktree_and_pthread.c\<close>, a process that has made all its children: it waits until the
  first of them ends and then says that all have.\<close>

theorem waitchildren_first_only:
  assumes "answers s = ws @ t # rest" "\<And>w. w \<in> set ws \<Longrightarrow> live w" "dead t"
  shows "\<exists>s'. waitchildren levno s = (Ret (), s') \<and> answers s' = rest \<and>
    calls s' = calls s @ map (Pair (Waitpid 0 WAIT_OPTS)) (ws @ [t]) \<and>
    printed s' = printed s @ concat (map (\<lambda>r. status_text [] (wstat r)) (ws @ [t])) @
      ''parent '' @ fmt_d levno @ '' after all children exitted\<newline>''"
proof -
  note w = tree_wl.bind_returns [OF assms(2,3)]
  show ?thesis
    using assms(1) by (simp add: waitchildren_def run_simps obs_simps w)
qed

subsection \<open>Examples of the hypotheses\<close>

text \<open>The replies of threads that are created with handles and end with numbers.\<close>

definition handles :: "int list \<Rightarrow> reply list" where
  "handles hs = map (\<lambda>h. (rep 0)\<lparr>outs := [h]\<rparr>) hs"

lemma handles_props [simp]: "list_all (\<lambda>r. rv r = 0) (handles hs)" "length (handles hs) = length hs"
  by (simp_all add: handles_def list_all_iff)

theorem pthread_main_run_witness:
  "\<exists>s'. pthread_main [''pthread''] (start Unbuffered (handles [100, 101, 102, 103, 104] @ handles [1, 2, 3, 4, 5])) =
    (Exited 0, s')"
  using pthread_main_run [of "handles [100, 101, 102, 103, 104]" "handles [1, 2, 3, 4, 5]" "[''pthread'']" Unbuffered]
  by (auto simp: pthread_num_threads_def argc_def)

theorem galore_too_many_threads_witness:
  "\<exists>w s'. galore_main [''processesgalore'', ''6''] (start Unbuffered (handles [1, 2, 3, 4, 5] @ [])) = (Undefined w, s')"
proof -
  have "galore_num_threads [''processesgalore'', ''6''] > 5"
    by (simp add: galore_num_threads_def argc_def) code_simp
  from galore_too_many_threads [OF this, of "handles [1, 2, 3, 4, 5]" Unbuffered "[]"] show ?thesis
    by auto
qed

theorem pthread_create_failure_witness:
  "\<exists>s'. pthread_main [''pthread''] (start Unbuffered (handles [100, 101] @ rep 11 # [])) = (Exited (-1), s')"
  using pthread_create_failure [of "handles [100, 101]" "rep 11" "[''pthread'']" Unbuffered "[]"]
  by (auto simp: pthread_num_threads_def argc_def)

theorem fork_and_pthread_run_witness:
  "\<exists>s'. fork_and_pthread_main [''x''] (start Unbuffered (rep 8 # handles [1, 2, 3, 4, 5] @ handles [1, 2, 3, 4, 5] @
      [exited_with 8 17])) = (Exited 0, s')"
proof -
  have "fst (fork_and_pthread_main [''x''] (start Unbuffered [rep 0, rep 0])) = Exited 17"
    by (simp add: fork_and_pthread_main_def fap_callsys_def run_simps obs_simps)
  from fork_and_pthread_run [of "rep 8" "handles [1, 2, 3, 4, 5]" "handles [1, 2, 3, 4, 5]" "exited_with 8 17" "rep 0",
      OF _ _ _ _ _ _ _ this] show ?thesis
    by auto
qed

theorem child_uses_missing_value_witness:
  "fst (forkmulti_main [''forkmulti''] (start Unbuffered [rep 0, rep 0, rep (-1)])) = Undefined ''callsys returned no value''"
  using child_uses_missing_value [of "rep 0" "rep (-1)" "[''forkmulti'']" Unbuffered "rep 0"] by simp

theorem tree_path_run_witness:
  "\<exists>s'. tree_main [''forktree'', ''1'', ''1''] (start Unbuffered (concat (map branch_replies
      [\<lparr>older = [], born = rep 0, idents = replicate 6 (rep 3), nap = rep 0\<rparr>]) @ handles [50] @ handles [1])) =
    (Exited 0, s')"
proof -
  let ?b = "\<lparr>older = [], born = rep 0, idents = replicate 6 (rep 3), nap = rep 0\<rparr>"
  have n: "numforks_arg [''forktree'', ''1'', ''1''] = 1" "tree_numlevels [''forktree'', ''1'', ''1''] = 1"
    by (simp add: numforks_arg_def tree_numlevels_def argc_def, code_simp)+
  have "list_all (good_branch (numforks_arg [''forktree'', ''1'', ''1''])) [?b]"
    by (simp add: good_branch_def n)
  from tree_path_run [OF _ _ this, of "handles [1]" "handles [50]" Unbuffered] show ?thesis
    by (auto simp: n forkno_of_def)
qed

theorem waitchildren_first_only_witness:
  "\<exists>s'. waitchildren 1 (start Unbuffered ([] @ exited_with 12 0 # [exited_with 13 1])) = (Ret (), s') \<and>
    answers s' = [exited_with 13 1]"
  using waitchildren_first_only [of "start Unbuffered ([] @ exited_with 12 0 # [exited_with 13 1])" "[]" "exited_with 12 0"
      "[exited_with 13 1]" 1] by (auto simp: obs_simps dead_exited)

end
