(* ===== verification/Cycle.thy ===== *)
theory Cycle
  imports Sys
begin

text \<open>
  Loops that make the same number of calls in each iteration. Where a process takes part in a
  protocol, what matters is in which call it is waiting after a given number of replies, and what
  it has printed by then. The locale \<open>cycle\<close> states this for one iteration; its lemmas give it
  for the whole loop.
\<close>

definition fine :: "reply \<Rightarrow> bool" where
  "fine r \<longleftrightarrow> rv r \<noteq> -1"

text \<open>The text of \<open>n\<close> iterations, the first of which is number \<open>i\<close>, each with its \<open>d\<close> replies.\<close>

primrec cycle_text :: "nat \<Rightarrow> (int \<Rightarrow> reply list \<Rightarrow> string) \<Rightarrow> nat \<Rightarrow> int \<Rightarrow> reply list \<Rightarrow> string" where
  "cycle_text d text 0 i rs = []"
| "cycle_text d text (Suc n) i rs = text i (take d rs) @ cycle_text d text n (i + 1) (drop d rs)"

text \<open>How many of the first \<open>n\<close> calls were number \<open>q\<close> of their iteration.\<close>

definition passed :: "nat \<Rightarrow> nat \<Rightarrow> nat \<Rightarrow> nat" where
  "passed d q n = n div d + (if q < n mod d then 1 else 0)"

lemma passed_0 [simp]: "passed d q 0 = 0"
  by (simp add: passed_def)

lemma passed_Suc: "q < d \<Longrightarrow> passed d q (Suc n) = passed d q n + (if n mod d = q then 1 else 0)"
  using mod_less_divisor [of d n] by (auto simp: passed_def mod_Suc div_Suc)

lemma passed_step: "0 < d \<Longrightarrow> d \<le> n \<Longrightarrow> passed d q n = Suc (passed d q (n - d))"
  by (simp add: passed_def le_div_geq le_mod_geq)

lemma passed_mult [simp]: "0 < d \<Longrightarrow> passed d q (d * n) = n"
  by (simp add: passed_def)

lemma passed_le: "0 < d \<Longrightarrow> n \<le> d * N \<Longrightarrow> passed d q n \<le> N"
proof (cases "q < n mod d")
  case True
  assume "0 < d" "n \<le> d * N"
  with True mult_div_mod_eq [of d n] have "d * (n div d) < d * N"
    by linarith
  with True show ?thesis
    by (simp add: passed_def Suc_le_eq)
next
  case False
  assume "0 < d" "n \<le> d * N"
  then have "n div d \<le> (d * N) div d"
    by (intro div_le_mono)
  with False \<open>0 < d\<close> show ?thesis
    by (simp add: passed_def)
qed

lemma picked_text:
  assumes "q < d" "length rs \<le> N * d" "\<And>i xs. text i xs = (if q < length xs then f (bytes (xs ! q)) else [])"
  shows "cycle_text d text N i rs = concat (map (\<lambda>j. f (bytes (rs ! (d * j + q)))) [0..<passed d q (length rs)])"
  using assms(2)
proof (induction N arbitrary: i rs)
  case 0
  with assms(1) show ?case by simp
next
  case (Suc N)
  show ?case
  proof (cases "length rs < d")
    case True
    have "text i [] = []" for i
      by (simp add: assms(3))
    then have "cycle_text d text N i [] = []" for i
      by (induction N arbitrary: i) simp_all
    with True show ?thesis
      by (simp add: passed_def) (simp add: assms(3))
  next
    case False
    then have c: "passed d q (length rs) = Suc (passed d q (length (drop d rs)))"
      using assms(1) passed_step by simp
    have "cycle_text d text N (i + 1) (drop d rs) =
        concat (map (\<lambda>j. f (bytes (drop d rs ! (d * j + q)))) [0..<passed d q (length (drop d rs))])"
      using Suc.prems by (intro Suc.IH) simp
    also have "\<dots> = concat (map (\<lambda>j. f (bytes (rs ! (d * Suc j + q)))) [0..<passed d q (length (drop d rs))])"
      using False by (simp add: ac_simps)
    finally have rest: "cycle_text d text N (i + 1) (drop d rs) =
        concat (map (\<lambda>j. f (bytes (rs ! (d * Suc j + q)))) [0..<passed d q (length (drop d rs))])" .
    have "text i (take d rs) = f (bytes (rs ! q))"
      using False assms(1) by (simp add: assms(3))
    then show ?thesis
      unfolding c cycle_text.simps rest by (simp add: map_upt_Suc del: upt_Suc)
  qed
qed

lemma nth_snoc_passed:
  assumes "\<forall>j < passed d q (length xs). j < N \<longrightarrow> bytes (xs ! (d * j + q)) = f j" "q < d"
    and "length xs mod d = q \<Longrightarrow> length xs div d < N \<Longrightarrow> bytes r = f (length xs div d)"
  shows "\<forall>j < passed d q (length (xs @ [r])). j < N \<longrightarrow> bytes ((xs @ [r]) ! (d * j + q)) = f j"
proof (intro allI impI)
  fix j
  assume j: "j < passed d q (length (xs @ [r]))" "j < N"
  show "bytes ((xs @ [r]) ! (d * j + q)) = f j"
  proof (cases "j < passed d q (length xs)")
    case True
    have "d * j + q < length xs"
    proof (cases "q < length xs mod d")
      case less: True
      then have "j \<le> length xs div d"
        using True by (simp add: passed_def)
      then have "d * j \<le> d * (length xs div d)"
        by simp
      with less mult_div_mod_eq [of d "length xs"] show ?thesis
        by linarith
    next
      case False
      then have "Suc j \<le> length xs div d"
        using True by (simp add: passed_def)
      then have "d * Suc j \<le> d * (length xs div d)"
        by (rule mult_le_mono2)
      then have "d * Suc j \<le> length xs"
        using times_div_less_eq_dividend [of d "length xs"] by (rule order_trans)
      with assms(2) show ?thesis
        by simp
    qed
    with True j assms(1) show ?thesis
      by (simp add: nth_append)
  next
    case False
    with j(1) assms(2) have "length xs mod d = q" "j = passed d q (length xs)"
      by (auto simp: passed_Suc split: if_splits)
    then have q: "length xs mod d = q" "j = length xs div d"
      by (simp_all add: passed_def)
    then have "length xs = d * j + q"
      using mult_div_mod_eq [of d "length xs"] by simp
    with q j(2) assms(3) show ?thesis
      by (metis nth_append_length)
  qed
qed

locale cycle =
  fixes body :: "int \<Rightarrow> unit \<Rightarrow> unit stm"
    and d :: nat
    and call_at :: "int \<Rightarrow> nat \<Rightarrow> call"
    and text_at :: "int \<Rightarrow> reply list \<Rightarrow> string"
  assumes d_pos: "0 < d"
    and no_text: "text_at i [] = []"
    and blocks: "length (answers s) < d \<Longrightarrow> list_all fine (answers s) \<Longrightarrow>
      \<exists>s'. body i () s = (Blocked (call_at i (length (answers s))), s') \<and>
        printed s' = printed s @ text_at i (answers s)"
    and runs: "answers s = rs @ rest \<Longrightarrow> length rs = d \<Longrightarrow> list_all fine rs \<Longrightarrow>
      \<exists>s'. body i () s = (Ret (), s') \<and> answers s' = rest \<and> printed s' = printed s @ text_at i rs"
begin

lemma no_cycle_text: "cycle_text d text_at n i [] = []"
  by (induction n arbitrary: i) (simp_all add: no_text)

lemma cycle_blocks:
  assumes "length (answers s) < n * d" "list_all fine (answers s)"
  shows "\<exists>s'. for_from n i body () s =
      (Blocked (call_at (i + int (length (answers s) div d)) (length (answers s) mod d)), s') \<and>
    printed s' = printed s @ cycle_text d text_at n i (answers s)"
  using assms
proof (induction n arbitrary: i s)
  case 0
  then show ?case by simp
next
  case (Suc n)
  show ?case
  proof (cases "length (answers s) < d")
    case True
    with blocks [OF this Suc.prems(2), of i] show ?thesis
      by (auto simp: bindS_result(5) no_cycle_text)
  next
    case False
    let ?rs = "take d (answers s)" and ?rest = "drop d (answers s)"
    have fine: "list_all fine ?rs" "list_all fine ?rest"
      using Suc.prems(2) by (metis append_take_drop_id list_all_append)+
    have "answers s = ?rs @ ?rest" "length ?rs = d"
      using False by simp_all
    from runs [OF this fine(1), of i] obtain s1 where
      s1: "body i () s = (Ret (), s1)" "answers s1 = ?rest" "printed s1 = printed s @ text_at i ?rs"
      by blast
    have "length (answers s1) < n * d"
      using Suc.prems(1) False by (simp add: s1(2))
    from Suc.IH [OF this, of "i + 1"] fine(2) obtain s2 where
      s2: "for_from n (i + 1) body () s1 =
          (Blocked (call_at (i + 1 + int (length ?rest div d)) (length ?rest mod d)), s2)"
        "printed s2 = printed s1 @ cycle_text d text_at n (i + 1) ?rest"
      by (auto simp: s1(2))
    have "length (answers s) div d = Suc (length ?rest div d)" "length (answers s) mod d = length ?rest mod d"
      using False d_pos by (simp_all add: le_div_geq le_mod_geq)
    with s1 s2 show ?thesis
      by (auto simp: bindS_result(1) ac_simps)
  qed
qed

lemma cycle_runs:
  assumes "answers s = rs @ rest" "length rs = n * d" "list_all fine rs"
  shows "\<exists>s'. for_from n i body () s = (Ret (), s') \<and> answers s' = rest \<and>
    printed s' = printed s @ cycle_text d text_at n i rs"
  using assms
proof (induction n arbitrary: i s rs)
  case 0
  then show ?case by (simp add: run_simps)
next
  case (Suc n)
  let ?one = "take d rs" and ?rs = "drop d rs"
  have fine: "list_all fine ?one" "list_all fine ?rs"
    using Suc.prems(3) by (metis append_take_drop_id list_all_append)+
  have "answers s = ?one @ ?rs @ rest" "length ?one = d"
    using Suc.prems by (simp_all add: append_assoc [symmetric])
  from runs [OF this fine(1), of i] obtain s1 where
    s1: "body i () s = (Ret (), s1)" "answers s1 = ?rs @ rest" "printed s1 = printed s @ text_at i ?one"
    by blast
  from Suc.IH [OF s1(2) _ fine(2), of "i + 1"] Suc.prems(2) s1 show ?case
    by (auto simp: bindS_result(1))
qed

text \<open>A loop of \<open>n\<close> iterations followed by \<open>k\<close>.\<close>

lemma loop_blocks:
  assumes "int (length (answers s)) < n * int d" "list_all fine (answers s)"
  shows "\<exists>s'. bindS (for_loop 0 n body ()) k s =
      (Blocked (call_at (int (length (answers s) div d)) (length (answers s) mod d)), s') \<and>
    printed s' = printed s @ cycle_text d text_at (nat n) 0 (answers s)"
proof -
  have "0 < n"
    using assms(1) by (smt (verit) of_nat_0_le_iff zero_le_mult_iff mult_nonpos_nonneg)
  then have "length (answers s) < nat n * d"
    using assms(1) by (metis int_nat_eq less_le nat_less_iff of_nat_less_iff of_nat_mult order_less_imp_le)
  from cycle_blocks [OF this assms(2), of 0] show ?thesis
    by (auto simp: for_loop_def bindS_result(5))
qed

lemma loop_runs:
  assumes "answers s = rs @ rest" "length rs = nat n * d" "list_all fine rs"
  shows "\<exists>s'. bindS (for_loop 0 n body ()) k s = k () s' \<and> answers s' = rest \<and>
    printed s' = printed s @ cycle_text d text_at (nat n) 0 rs"
  using cycle_runs [OF assms, of 0] by (auto simp: for_loop_def bindS_result(1))

end

end
