(* ===== verification/Two_Processes.thy ===== *)
theory Two_Processes
  imports Cycle
begin

text \<open>
  Two processes that run concurrently, a child and its parent, on one kernel. A process is its
  program together with the replies it has got so far; running the program on these replies says
  in which call it waits now. The kernel is a relation \<open>kstep k c r k'\<close>: in state \<open>k\<close> it can
  complete the call \<open>c\<close> with the reply \<open>r\<close>, going to \<open>k'\<close>; a call that it cannot complete blocks.
  A step of the pair completes the call one of the two is waiting in, so all interleavings of
  calls are covered. The parent's \<^verbatim>\<open>wait\<close> completes once the child has exited.
\<close>

type_synonym 'k pair_state = "'k \<times> reply list \<times> reply list"

definition fresh :: "reply list \<Rightarrow> process" where
  "fresh rs = start Unbuffered rs"

inductive pair_step :: "('k \<Rightarrow> call \<Rightarrow> reply \<Rightarrow> 'k \<Rightarrow> bool) \<Rightarrow> unit stm \<Rightarrow> unit stm \<Rightarrow>
    'k pair_state \<Rightarrow> 'k pair_state \<Rightarrow> bool"
  for kstep :: "'k \<Rightarrow> call \<Rightarrow> reply \<Rightarrow> 'k \<Rightarrow> bool" and child parent :: "unit stm" where
  child_call: "fst (child (fresh ps)) = Blocked c \<Longrightarrow> kstep k c r k' \<Longrightarrow>
    pair_step kstep child parent (k, ps, cs) (k', ps @ [r], cs)"
| parent_call: "fst (parent (fresh cs)) = Blocked c \<Longrightarrow> c \<noteq> Wait \<Longrightarrow> kstep k c r k' \<Longrightarrow>
    pair_step kstep child parent (k, ps, cs) (k', ps, cs @ [r])"
| parent_wait: "fst (parent (fresh cs)) = Blocked Wait \<Longrightarrow> fst (child (fresh ps)) = Exited n \<Longrightarrow>
    rv r > 0 \<Longrightarrow> pair_step kstep child parent (k, ps, cs) (k, ps, cs @ [r])"

inductive_cases pair_stepE: "pair_step kstep child parent (k, ps, cs) st"

abbreviation "pair_steps kstep child parent \<equiv> (pair_step kstep child parent)\<^sup>*\<^sup>*"

lemma pair_invariant:
  assumes "pair_steps kstep child parent st st'" "Inv st"
    and "\<And>st st'. Inv st \<Longrightarrow> pair_step kstep child parent st st' \<Longrightarrow> Inv st'"
  shows "Inv st'"
  using assms by (induction rule: rtranclp_induct) blast+

lemma pair_step_length:
  "pair_step kstep child parent (k, ps, cs) (k', ps', cs') \<Longrightarrow>
     length ps' + length cs' = Suc (length ps + length cs)"
  by (auto elim: pair_stepE)

end
