(* ===== verification/Semaphore.thy ===== *)
theory Semaphore
  imports Two_Processes
begin

text \<open>
  \<^verbatim>\<open>semaphore.c\<close>: a producer and a consumer that hand messages over through one shared memory
  segment, with two semaphores (empty and full) as turnstiles.
\<close>

subsection \<open>The program\<close>

abbreviation SHM_KEY :: int where "SHM_KEY \<equiv> 0x1234"
abbreviation SEM_KEY :: int where "SEM_KEY \<equiv> 0x5678"
abbreviation SHM_SIZE :: int where "SHM_SIZE \<equiv> 0x1024"
abbreviation CREAT_0666 :: int where "CREAT_0666 \<equiv> 950" \<comment> \<open>IPC_CREAT | 0666\<close>
abbreviation IPC_RMID :: int where "IPC_RMID \<equiv> 0"
abbreviation SETVAL :: int where "SETVAL \<equiv> 16"
abbreviation UNDO_NOWAIT :: int where "UNDO_NOWAIT \<equiv> 6144" \<comment> \<open>SEM_UNDO | IPC_NOWAIT\<close>

text \<open>\<^verbatim>\<open>struct sembuf\<close>: an unsigned and a signed 16-bit number, and the flags.\<close>

type_synonym sembuf = "int \<times> int \<times> int"

definition sembuf :: "int \<Rightarrow> int \<Rightarrow> int \<Rightarrow> sembuf" where
  "sembuf num p flg = (num mod 65536, (p + 32768) mod 65536 - 32768, flg)"

definition sem_op :: "int \<Rightarrow> int \<Rightarrow> int \<Rightarrow> unit stm" where
  "sem_op semid semnum p = bindS (sysv (Semop semid [sembuf semnum p 0])) (\<lambda>v.
     only_if (v = -1) [perror ''semop'', exit 1])"

text \<open>The array \<^verbatim>\<open>sb\<close> has \<^verbatim>\<open>highsemnum - lowsemnum\<close> elements and is indexed by the semaphore's
  number.\<close>

definition multisem_body :: "int \<Rightarrow> int \<Rightarrow> sembuf list \<Rightarrow> sembuf list stm" where
  "multisem_body p semnum sb =
     (if 0 \<le> semnum \<and> semnum < int (length sb) then ret (sb[nat semnum := sembuf semnum p UNDO_NOWAIT])
      else undefined_behaviour ''sb[semnum] is outside the array'')"

definition multisem_op :: "int \<Rightarrow> int \<Rightarrow> int \<Rightarrow> int \<Rightarrow> unit stm" where
  "multisem_op semid lowsemnum highsemnum p =
     (if highsemnum - lowsemnum \<le> 0 then undefined_behaviour ''sb has no elements''
      else bindS (for_loop lowsemnum highsemnum (multisem_body p)
          (replicate (nat (highsemnum - lowsemnum)) (0, 0, 0))) (\<lambda>sb.
        bindS (sysv (Semop semid sb)) (\<lambda>v. only_if (v = -1) [perror ''semop'', exit 1])))"

definition message :: "int \<Rightarrow> string" where
  "message i = take (nat SHM_SIZE - 1) (''Message '' @ fmt_d (i + 1) @ '' from Producer'')"

definition producer_body :: "int \<Rightarrow> int \<Rightarrow> int \<Rightarrow> unit \<Rightarrow> unit stm" where
  "producer_body semid shared_memory i _ = block [
     sem_op semid 0 (-1),
     do_call (Store shared_memory (message i)),
     bindS (sys (Load shared_memory)) (\<lambda>r. printf (''Producer: Wrote '' @ [CHR 0x27] @ bytes r @ [CHR 0x27, NL])),
     sem_op semid 1 1,
     do_call (Sleep 1)]"

definition producer :: "int \<Rightarrow> int \<Rightarrow> int \<Rightarrow> unit stm" where
  "producer semid shared_memory numtrans =
     bindS (for_loop 0 numtrans (producer_body semid shared_memory) ()) (\<lambda>_. exit 0)"

definition consumer_body :: "int \<Rightarrow> int \<Rightarrow> int \<Rightarrow> unit \<Rightarrow> unit stm" where
  "consumer_body semid shared_memory i _ = block [
     sem_op semid 1 (-1),
     bindS (sys (Load shared_memory)) (\<lambda>r. printf (''Consumer: Read '' @ [CHR 0x27] @ bytes r @ [CHR 0x27, NL])),
     sem_op semid 0 1,
     do_call (Sleep 2)]"

definition consumer :: "int \<Rightarrow> int \<Rightarrow> int \<Rightarrow> int \<Rightarrow> unit stm" where
  "consumer semid shmid shared_memory numtrans =
     bindS (for_loop 0 numtrans (consumer_body semid shared_memory) ()) (\<lambda>_. block [
       do_call Wait,
       do_call (Shmdt shared_memory),
       do_call (Shmctl shmid IPC_RMID),
       do_call (Semctl semid 0 IPC_RMID 0),
       printf ''Resources cleaned up. Exiting.\<newline>'',
       exit 0])"

definition numtrans_arg :: "string list \<Rightarrow> int" where
  "numtrans_arg argv = (if argc argv > 1 then atoi (argv ! 1) else 5)"

definition fails_with :: "string \<Rightarrow> unit stm" where
  "fails_with w = block [perror w, exit 1]"

definition semaphore_main :: "string list \<Rightarrow> unit stm" where
  "semaphore_main argv = (let numtrans = numtrans_arg argv in block [
     setbuf_null,
     bindS (sysv (Shmget SHM_KEY SHM_SIZE CREAT_0666)) (\<lambda>shmid. block [
       only_if (shmid = -1) [perror ''shmget'', exit 1],
       bindS (sysv (Shmat shmid)) (\<lambda>shared_memory. block [
         only_if (shared_memory = -1) [perror ''shmat'', exit 1],
         bindS (sysv (Semget SEM_KEY 6 CREAT_0666)) (\<lambda>semid. block [
           only_if (semid = -1) [perror ''semget'', exit 1],
           do_call (Semctl semid 0 SETVAL 1),
           do_call (Semctl semid 1 SETVAL 0),
           for_loop 2 6 (\<lambda>i _. do_call (Semctl semid i SETVAL 0)) (),
           multisem_op semid 2 6 1,
           bindS (sysv Fork) (\<lambda>pid.
             if pid = 0 then producer semid shared_memory numtrans
             else consumer semid shmid shared_memory numtrans)])])])])"

subsection \<open>The scratch semaphores\<close>

lemma multisem_inside:
  "i + n = length sb \<Longrightarrow> for_from n (int i) (multisem_body p) sb s =
     (Ret (take i sb @ map (\<lambda>k. sembuf (int k) p UNDO_NOWAIT) [i..<length sb]), s)"
proof (induction n arbitrary: i sb)
  case 0
  then show ?case by (simp add: run_simps)
next
  case (Suc n)
  let ?sb = "sb[i := sembuf (int i) p UNDO_NOWAIT]"
  have "multisem_body p (int i) sb s = (Ret ?sb, s)"
    using Suc.prems by (simp add: multisem_body_def run_simps)
  moreover have "for_from n (int i + 1) (multisem_body p) ?sb s =
      (Ret (take (Suc i) ?sb @ map (\<lambda>k. sembuf (int k) p UNDO_NOWAIT) [Suc i..<length sb]), s)"
    using Suc.IH [of "Suc i" ?sb] Suc.prems by (simp add: ac_simps)
  moreover have "take (Suc i) ?sb = take i sb @ [sembuf (int i) p UNDO_NOWAIT]"
    using Suc.prems by (simp add: take_Suc_conv_app_nth)
  moreover have "[i..<length sb] = i # [Suc i..<length sb]"
    using Suc.prems by (simp add: upt_conv_Cons)
  ultimately show ?case
    by (simp add: bindS_result(1))
qed

lemma multisem_outside:
  assumes "i \<le> j" "j < i + int n" "j < 0 \<or> int (length sb) \<le> j"
  shows "for_from n i (multisem_body p) sb s = (Undefined ''sb[semnum] is outside the array'', s)"
  using assms
proof (induction n arbitrary: i sb)
  case 0
  then show ?case by simp
next
  case (Suc n)
  show ?case
  proof (cases "0 \<le> i \<and> i < int (length sb)")
    case True
    with Suc.prems have "i + 1 \<le> j" "j < i + 1 + int n" "j < 0 \<or> int (length (sb[nat i := sembuf i p UNDO_NOWAIT])) \<le> j"
      by auto
    from Suc.IH [OF this] True show ?thesis
      by (simp add: multisem_body_def run_simps)
  next
    case False
    then show ?thesis
      by (auto simp: multisem_body_def run_simps)
  qed
qed

lemma multisem_op_inside:
  assumes "0 < hi"
  shows "multisem_op semid 0 hi p = bindS (sysv (Semop semid
      (map (\<lambda>k. sembuf (int k) p UNDO_NOWAIT) [0..<nat hi]))) (\<lambda>v. only_if (v = -1) [perror ''semop'', exit 1])"
proof
  fix s
  have "for_loop 0 hi (multisem_body p) (replicate (nat hi) (0, 0, 0)) s =
      (Ret (map (\<lambda>k. sembuf (int k) p UNDO_NOWAIT) [0..<nat hi]), s)"
    using multisem_inside [of 0 "nat hi" "replicate (nat hi) (0, 0, 0)" p s] by (simp add: for_loop_def)
  then show "multisem_op semid 0 hi p s = bindS (sysv (Semop semid
      (map (\<lambda>k. sembuf (int k) p UNDO_NOWAIT) [0..<nat hi]))) (\<lambda>v. only_if (v = -1) [perror ''semop'', exit 1]) s"
    using assms by (simp add: multisem_op_def bindS_result(1))
qed

text \<open>C35. \<^verbatim>\<open>multisem_op\<close> stays inside its array exactly when the range of semaphores starts at 0: the
  array is as long as the range but is indexed by the semaphore's number.\<close>

theorem multisem_op_defined_iff:
  "(\<exists>w. fst (multisem_op semid lo hi p s) = Undefined w) \<longleftrightarrow> \<not> (lo = 0 \<and> 0 < hi)"
proof (cases "lo = 0 \<and> 0 < hi")
  case True
  then have "well_defined {} (multisem_op semid lo hi p)"
    by (auto simp: multisem_op_inside intro!: defined_intros)
  with True show ?thesis
    using well_definedD by blast
next
  case False
  show ?thesis
  proof (cases "hi \<le> lo")
    case True
    with False show ?thesis
      by (auto simp: multisem_op_def run_simps)
  next
    case lt: False
    let ?j = "if lo < 0 then lo else hi - 1"
    have "for_from (nat (hi - lo)) lo (multisem_body p) (replicate (nat (hi - lo)) (0, 0, 0)) s =
        (Undefined ''sb[semnum] is outside the array'', s)"
      using lt False by (intro multisem_outside [where j = ?j]) auto
    with lt False show ?thesis
      by (simp add: multisem_op_def for_loop_def bindS_result(6))
  qed
qed

text \<open>So whenever the segment and the semaphores can be made, \<^verbatim>\<open>main\<close> itself writes outside an
  array before it forks.\<close>

theorem semaphore_main_undefined:
  assumes "rv a \<noteq> -1" "rv b \<noteq> -1" "rv c \<noteq> -1" "length cs = 6"
  shows "\<exists>w. fst (semaphore_main argv (start m (a # b # c # cs @ rest))) = Undefined w"
proof -
  from assms(4) obtain c1 c2 c3 c4 c5 c6 where cs: "cs = [c1, c2, c3, c4, c5, c6]"
    by (auto simp: numeral_eq_Suc length_Suc_conv)
  have "multisem_op semid 2 6 1 s = (Undefined ''sb[semnum] is outside the array'', s)" for semid s
    by (simp add: multisem_op_def for_loop_def bindS_result(6) multisem_outside [where j = 5])
  then show ?thesis
    using assms(1-3)
    by (simp add: semaphore_main_def Let_def cs run_simps obs_simps for_loop_step bindS_result(6))
qed

subsection \<open>The two loops\<close>

definition producer_call :: "int \<Rightarrow> int \<Rightarrow> int \<Rightarrow> nat \<Rightarrow> call" where
  "producer_call semid shared_memory i k = [
     Semop semid [(0, -1, 0)], Store shared_memory (message i), Load shared_memory,
     Semop semid [(1, 1, 0)], Sleep 1] ! k"

definition wrote_text :: "string \<Rightarrow> string" where
  "wrote_text t = ''Producer: Wrote '' @ [CHR 0x27] @ t @ [CHR 0x27, NL]"

definition producer_text :: "int \<Rightarrow> reply list \<Rightarrow> string" where
  "producer_text i rs = (if 2 < length rs then wrote_text (bytes (rs ! 2)) else [])"

definition consumer_call :: "int \<Rightarrow> int \<Rightarrow> int \<Rightarrow> nat \<Rightarrow> call" where
  "consumer_call semid shared_memory i k = [
     Semop semid [(1, -1, 0)], Load shared_memory, Semop semid [(0, 1, 0)], Sleep 2] ! k"

definition read_text :: "string \<Rightarrow> string" where
  "read_text t = ''Consumer: Read '' @ [CHR 0x27] @ t @ [CHR 0x27, NL]"

definition consumer_text :: "int \<Rightarrow> reply list \<Rightarrow> string" where
  "consumer_text i rs = (if 1 < length rs then read_text (bytes (rs ! 1)) else [])"

lemma sembuf_small [simp]: "sembuf 0 (-1) 0 = (0, -1, 0)" "sembuf 1 1 0 = (1, 1, 0)"
  "sembuf 1 (-1) 0 = (1, -1, 0)" "sembuf 0 1 0 = (0, 1, 0)"
  by (simp_all add: sembuf_def)

lemma length_less_Suc: "length xs < Suc n \<longleftrightarrow> xs = [] \<or> (\<exists>y ys. xs = y # ys \<and> length ys < n)"
  by (cases xs) auto

interpretation producer_cy: cycle "producer_body semid shared_memory" 5
    "producer_call semid shared_memory" producer_text for semid shared_memory
proof
  fix i and s :: process
  assume "length (answers s) < 5" "list_all fine (answers s)"
  then show "\<exists>s'. producer_body semid shared_memory i () s =
      (Blocked (producer_call semid shared_memory i (length (answers s))), s') \<and>
    printed s' = printed s @ producer_text i (answers s)"
    by (auto simp: numeral_eq_Suc length_less_Suc producer_body_def sem_op_def producer_call_def
        producer_text_def wrote_text_def fine_def run_simps obs_simps)
next
  fix i and s :: process and rs rest
  assume "answers s = rs @ rest" "length rs = 5" "list_all fine rs"
  then show "\<exists>s'. producer_body semid shared_memory i () s = (Ret (), s') \<and> answers s' = rest \<and>
    printed s' = printed s @ producer_text i rs"
    by (auto simp: numeral_eq_Suc length_Suc_conv producer_body_def sem_op_def producer_text_def
        wrote_text_def fine_def run_simps obs_simps)
qed (simp_all add: producer_text_def)

interpretation consumer_cy: cycle "consumer_body semid shared_memory" 4
    "consumer_call semid shared_memory" consumer_text for semid shared_memory
proof
  fix i and s :: process
  assume "length (answers s) < 4" "list_all fine (answers s)"
  then show "\<exists>s'. consumer_body semid shared_memory i () s =
      (Blocked (consumer_call semid shared_memory i (length (answers s))), s') \<and>
    printed s' = printed s @ consumer_text i (answers s)"
    by (auto simp: numeral_eq_Suc length_less_Suc consumer_body_def sem_op_def consumer_call_def
        consumer_text_def read_text_def fine_def run_simps obs_simps)
next
  fix i and s :: process and rs rest
  assume "answers s = rs @ rest" "length rs = 4" "list_all fine rs"
  then show "\<exists>s'. consumer_body semid shared_memory i () s = (Ret (), s') \<and> answers s' = rest \<and>
    printed s' = printed s @ consumer_text i rs"
    by (auto simp: numeral_eq_Suc length_Suc_conv consumer_body_def sem_op_def consumer_text_def
        read_text_def fine_def run_simps obs_simps)
qed (simp_all add: consumer_text_def)

subsection \<open>What a process has printed after its replies\<close>

definition messages :: "(string \<Rightarrow> string) \<Rightarrow> nat \<Rightarrow> string" where
  "messages line n = concat (map (\<lambda>j. line (message (int j))) [0..<n])"

lemma producer_text_messages:
  assumes "length ps \<le> N * 5" "\<And>j. j < passed 5 2 (length ps) \<Longrightarrow> bytes (ps ! (5 * j + 2)) = message (int j)"
  shows "cycle_text 5 producer_text N 0 ps = messages wrote_text (passed 5 2 (length ps))"
proof -
  let ?n = "passed 5 2 (length ps)"
  have "map (\<lambda>j. wrote_text (bytes (ps ! (5 * j + 2)))) [0..<?n] = map (\<lambda>j. wrote_text (message (int j))) [0..<?n]"
    using assms(2) by (intro map_cong) auto
  moreover have "cycle_text 5 producer_text N 0 ps =
      concat (map (\<lambda>j. wrote_text (bytes (ps ! (5 * j + 2)))) [0..<passed 5 2 (length ps)])"
    using assms(1) by (intro picked_text) (simp_all add: producer_text_def)
  ultimately show ?thesis
    by (simp add: messages_def del: map_eq_conv)
qed

lemma consumer_text_messages:
  assumes "length cs \<le> N * 4" "\<And>j. j < passed 4 1 (length cs) \<Longrightarrow> bytes (cs ! (4 * j + 1)) = message (int j)"
  shows "cycle_text 4 consumer_text N 0 cs = messages read_text (passed 4 1 (length cs))"
proof -
  let ?n = "passed 4 1 (length cs)"
  have "map (\<lambda>j. read_text (bytes (cs ! (4 * j + 1)))) [0..<?n] = map (\<lambda>j. read_text (message (int j))) [0..<?n]"
    using assms(2) by (intro map_cong) auto
  moreover have "cycle_text 4 consumer_text N 0 cs =
      concat (map (\<lambda>j. read_text (bytes (cs ! (4 * j + 1)))) [0..<passed 4 1 (length cs)])"
    using assms(1) by (intro picked_text) (simp_all add: consumer_text_def)
  ultimately show ?thesis
    by (simp add: messages_def del: map_eq_conv)
qed

lemma producer_blocked:
  assumes "list_all fine ps" "length ps < 5 * nat n"
  shows "\<exists>s'. producer semid mem n (fresh ps) =
      (Blocked (producer_call semid mem (int (length ps div 5)) (length ps mod 5)), s') \<and>
    printed s' = cycle_text 5 producer_text (nat n) 0 ps"
proof -
  have "int (length (answers (fresh ps))) < n * int 5" "list_all fine (answers (fresh ps))"
    using assms by (simp_all add: fresh_def obs_simps)
  from producer_cy.loop_blocks [OF this] show ?thesis
    unfolding producer_def by (auto simp: fresh_def obs_simps)
qed

lemma producer_exited:
  assumes "list_all fine ps" "length ps = 5 * nat n"
  shows "\<exists>s'. producer semid mem n (fresh ps) = (Exited 0, s') \<and>
    printed s' = cycle_text 5 producer_text (nat n) 0 ps"
proof -
  have "answers (fresh ps) = ps @ []" "length ps = nat n * 5"
    using assms by (simp_all add: fresh_def obs_simps)
  from producer_cy.loop_runs [OF this assms(1), of semid mem "\<lambda>_. exit 0"] show ?thesis
    unfolding producer_def by (auto simp: fresh_def obs_simps exit_def)
qed

lemma consumer_blocked:
  assumes "list_all fine cs" "length cs < 4 * nat n"
  shows "\<exists>s'. consumer semid shmid mem n (fresh cs) =
      (Blocked (consumer_call semid mem (int (length cs div 4)) (length cs mod 4)), s') \<and>
    printed s' = cycle_text 4 consumer_text (nat n) 0 cs"
proof -
  have "int (length (answers (fresh cs))) < n * int 4" "list_all fine (answers (fresh cs))"
    using assms by (simp_all add: fresh_def obs_simps)
  from consumer_cy.loop_blocks [OF this] show ?thesis
    unfolding consumer_def by (auto simp: fresh_def obs_simps)
qed

definition cleaned_text :: string where
  "cleaned_text = ''Resources cleaned up. Exiting.\<newline>''"

definition removal :: "int \<Rightarrow> int \<Rightarrow> int \<Rightarrow> call list" where
  "removal semid shmid mem = [Wait, Shmdt mem, Shmctl shmid IPC_RMID, Semctl semid 0 IPC_RMID 0]"

lemma consumer_removes:
  assumes "list_all fine cs" "length cs = 4 * nat n" "length ts \<le> 4"
  shows "\<exists>s' before. consumer semid shmid mem n (fresh (cs @ ts)) =
      (if length ts < 4 then Blocked (removal semid shmid mem ! length ts) else Exited 0, s') \<and>
    printed s' = cycle_text 4 consumer_text (nat n) 0 cs @ (if length ts < 4 then [] else cleaned_text) \<and>
    calls s' = before @ zip (removal semid shmid mem) ts"
proof -
  have "answers (fresh (cs @ ts)) = cs @ ts" "length cs = nat n * 4"
    using assms by (simp_all add: fresh_def obs_simps)
  from consumer_cy.loop_runs [OF this assms(1), of semid mem "\<lambda>_. block [do_call Wait, do_call (Shmdt mem),
      do_call (Shmctl shmid IPC_RMID), do_call (Semctl semid 0 IPC_RMID 0), printf cleaned_text, exit 0]"]
  obtain s1 where
    s1: "consumer semid shmid mem n (fresh (cs @ ts)) = block [do_call Wait, do_call (Shmdt mem),
      do_call (Shmctl shmid IPC_RMID), do_call (Semctl semid 0 IPC_RMID 0), printf cleaned_text, exit 0] s1"
      "answers s1 = ts" "printed s1 = cycle_text 4 consumer_text (nat n) 0 cs"
    unfolding consumer_def cleaned_text_def by (auto simp: fresh_def obs_simps)
  consider "ts = []" | a where "ts = [a]" | a b where "ts = [a, b]" | a b c where "ts = [a, b, c]" |
      a b c d where "ts = [a, b, c, d]"
    using assms(3) by (cases ts) (auto simp: numeral_eq_Suc length_Suc_conv le_Suc_eq)
  then show ?thesis
    unfolding s1(1) using s1(2,3) by cases (simp_all add: removal_def run_simps obs_simps)
qed

lemma consumer_tail:
  assumes "list_all fine cs" "length cs = 4 * nat n" "length ts \<le> 4"
  shows "\<exists>s'. consumer semid shmid mem n (fresh (cs @ ts)) =
      (if length ts < 4 then Blocked ([Wait, Shmdt mem, Shmctl shmid IPC_RMID, Semctl semid 0 IPC_RMID 0] ! length ts)
       else Exited 0, s') \<and>
    printed s' = cycle_text 4 consumer_text (nat n) 0 cs @ (if length ts < 4 then [] else cleaned_text)"
  using consumer_removes [OF assms, of semid shmid mem] unfolding removal_def by blast

subsection \<open>The kernel\<close>

text \<open>
  What \<^verbatim>\<open>semop(2)\<close> and shared memory promise. \<open>sem_val k n\<close> is the value of semaphore \<open>n\<close> of the set
  \<open>semid\<close>, \<open>seg k\<close> the text in the segment at \<open>mem\<close>: an operation \<open>p\<close> on a semaphore completes only
  if the value stays non-negative, and does complete then; a load sees the last store; nothing else
  the two processes call while they work changes either.
\<close>

locale sem_kernel =
  fixes sem_val :: "'k \<Rightarrow> int \<Rightarrow> int"
    and seg :: "'k \<Rightarrow> string"
    and kstep :: "'k \<Rightarrow> call \<Rightarrow> reply \<Rightarrow> 'k \<Rightarrow> bool"
    and semid mem shmid :: int
  assumes semop_done: "kstep k (Semop semid [(n, p, 0)]) r k' \<Longrightarrow> rv r = 0 \<and> 0 \<le> sem_val k n + p \<and>
      sem_val k' = (sem_val k)(n := sem_val k n + p) \<and> seg k' = seg k"
    and semop_free: "p \<noteq> 0 \<Longrightarrow> 0 \<le> sem_val k n + p \<Longrightarrow> \<exists>r k'. kstep k (Semop semid [(n, p, 0)]) r k'"
    and store_done: "kstep k (Store mem t) r k' \<Longrightarrow> fine r \<and> sem_val k' = sem_val k \<and> seg k' = t"
    and store_free: "\<exists>r k'. kstep k (Store mem t) r k'"
    and load_done: "kstep k (Load mem) r k' \<Longrightarrow> fine r \<and> bytes r = seg k \<and> sem_val k' = sem_val k \<and> seg k' = seg k"
    and load_free: "\<exists>r k'. kstep k (Load mem) r k'"
    and sleep_done: "kstep k (Sleep secs) r k' \<Longrightarrow> fine r \<and> sem_val k' = sem_val k \<and> seg k' = seg k"
    and sleep_free: "\<exists>r k'. kstep k (Sleep secs) r k'"
    and detach_free: "\<exists>r k'. kstep k (Shmdt mem) r k'" "\<exists>r k'. kstep k (Shmctl shmid IPC_RMID) r k'"
      "\<exists>r k'. kstep k (Semctl semid 0 IPC_RMID 0) r k'"
begin

definition step :: "int \<Rightarrow> 'k pair_state \<Rightarrow> 'k pair_state \<Rightarrow> bool" where
  "step n = pair_step kstep (producer semid mem n) (consumer semid shmid mem n)"

text \<open>
  The invariant, in terms of the numbers of replies \<open>p\<close> and \<open>c\<close> of the two processes:
  \<open>passed 5 0 p\<close> counts the producer's waits on empty, \<open>passed 5 1 p\<close> its stores, and so on.
\<close>

definition at_work :: "nat \<Rightarrow> nat \<Rightarrow> 'k \<Rightarrow> bool" where
  "at_work p c k \<longleftrightarrow>
     sem_val k 0 = 1 - int (passed 5 0 p) + int (passed 4 2 c) \<and> 0 \<le> sem_val k 0 \<and>
     sem_val k 1 = int (passed 5 3 p) - int (passed 4 0 c) \<and> 0 \<le> sem_val k 1 \<and>
     (0 < passed 5 1 p \<longrightarrow> seg k = message (int (passed 5 1 p) - 1))"

definition handover :: "nat \<Rightarrow> 'k pair_state \<Rightarrow> bool" where
  "handover N = (\<lambda>(k, ps, cs). list_all fine ps \<and> list_all fine (take (4 * N) cs) \<and>
     length ps \<le> 5 * N \<and> length cs \<le> 4 * N + 4 \<and>
     (\<forall>j < passed 5 2 (length ps). bytes (ps ! (5 * j + 2)) = message (int j)) \<and>
     (\<forall>j < passed 4 1 (length cs). j < N \<longrightarrow> bytes (cs ! (4 * j + 1)) = message (int j)) \<and>
     (length cs \<le> 4 * N \<longrightarrow> at_work (length ps) (length cs) k) \<and>
     (4 * N < length cs \<longrightarrow> length ps = 5 * N))"

lemma producer_moves:
  assumes "kstep k (producer_call semid mem (int (p div 5)) (p mod 5)) r k'" "at_work p c k"
  shows "at_work (Suc p) c k' \<and> fine r \<and> (p mod 5 = 2 \<longrightarrow> bytes r = message (int (p div 5)))"
proof -
  consider "p mod 5 = 0" | "p mod 5 = 1" | "p mod 5 = 2" | "p mod 5 = 3" | "p mod 5 = 4"
    by linarith
  then show ?thesis
  proof cases
    case 1
    with assms semop_done [of k 0 "-1" r k'] show ?thesis
      by (simp add: producer_call_def at_work_def fine_def passed_Suc)
  next
    case 2
    with assms store_done [of k "message (int (p div 5))" r k'] show ?thesis
      by (simp add: producer_call_def at_work_def passed_Suc) (simp add: passed_def)
  next
    case 3
    with assms load_done [of k r k'] show ?thesis
      by (simp add: producer_call_def at_work_def passed_Suc) (simp add: passed_def)
  next
    case 4
    with assms semop_done [of k 1 1 r k'] show ?thesis
      by (simp add: producer_call_def at_work_def fine_def passed_Suc)
  next
    case 5
    with assms sleep_done [of k 1 r k'] show ?thesis
      by (simp add: producer_call_def at_work_def passed_Suc)
  qed
qed

lemma consumer_moves:
  assumes "kstep k (consumer_call semid mem (int (c div 4)) (c mod 4)) r k'" "at_work p c k"
  shows "at_work p (Suc c) k' \<and> fine r \<and> (c mod 4 = 1 \<longrightarrow> bytes r = message (int (c div 4)))"
proof -
  consider "c mod 4 = 0" | "c mod 4 = 1" | "c mod 4 = 2" | "c mod 4 = 3"
    by linarith
  then show ?thesis
  proof cases
    case 1
    with assms semop_done [of k 1 "-1" r k'] show ?thesis
      by (simp add: consumer_call_def at_work_def fine_def passed_Suc)
  next
    case 2
    have "passed 4 0 c = Suc (c div 4)" "passed 4 2 c = c div 4"
      using 2 by (simp_all add: passed_def)
    moreover have "passed 5 3 p \<le> passed 5 1 p" "passed 5 1 p \<le> passed 5 0 p"
      by (simp_all add: passed_def)
    ultimately have "passed 5 1 p = Suc (c div 4)"
      using assms(2) by (simp add: at_work_def)
    with 2 assms load_done [of k r k'] show ?thesis
      by (simp add: consumer_call_def at_work_def passed_Suc)
  next
    case 3
    with assms semop_done [of k 0 1 r k'] show ?thesis
      by (simp add: consumer_call_def at_work_def fine_def passed_Suc)
  next
    case 4
    with assms sleep_done [of k 2 r k'] show ?thesis
      by (simp add: consumer_call_def at_work_def passed_Suc)
  qed
qed

lemma handover_producer:
  assumes "handover (nat n) (k, ps, cs)" "fst (producer semid mem n (fresh ps)) = Blocked c" "kstep k c r k'"
  shows "handover (nat n) (k', ps @ [r], cs)"
proof -
  have inv: "list_all fine ps" "length ps \<le> 5 * nat n" "4 * nat n < length cs \<longrightarrow> length ps = 5 * nat n"
    "length cs \<le> 4 * nat n \<longrightarrow> at_work (length ps) (length cs) k"
    "\<forall>j < passed 5 2 (length ps). bytes (ps ! (5 * j + 2)) = message (int j)"
    using assms(1) by (auto simp: handover_def)
  have lt: "length ps < 5 * nat n"
    using producer_exited [OF inv(1), of n semid mem] assms(2) inv(2) by (cases "length ps = 5 * nat n") auto
  with producer_blocked [OF inv(1) lt, of semid mem] assms(2,3)
  have "kstep k (producer_call semid mem (int (length ps div 5)) (length ps mod 5)) r k'"
    by auto
  from producer_moves [OF this, of "length cs"] inv(3,4) lt
  have m: "at_work (Suc (length ps)) (length cs) k'" "fine r" "length ps mod 5 = 2 \<longrightarrow> bytes r = message (int (length ps div 5))"
    by auto
  have "\<forall>j < passed 5 2 (length (ps @ [r])). j < Suc (passed 5 2 (length ps)) \<longrightarrow>
      bytes ((ps @ [r]) ! (5 * j + 2)) = message (int j)"
    by (rule nth_snoc_passed) (use inv(5) m(3) in auto)
  then have "\<forall>j < passed 5 2 (length (ps @ [r])). bytes ((ps @ [r]) ! (5 * j + 2)) = message (int j)"
    by (auto simp: passed_Suc split: if_splits)
  with assms(1) m lt show ?thesis
    by (auto simp: handover_def)
qed

lemma handover_consumer:
  assumes "handover (nat n) (k, ps, cs)" "fst (consumer semid shmid mem n (fresh cs)) = Blocked c"
    and "c \<noteq> Wait \<and> kstep k c r k' \<or> c = Wait \<and> k' = k \<and> fst (producer semid mem n (fresh ps)) = Exited e"
  shows "handover (nat n) (k', ps, cs @ [r])"
proof -
  let ?N = "nat n"
  have inv: "list_all fine ps" "list_all fine (take (4 * ?N) cs)" "length ps \<le> 5 * ?N" "length cs \<le> 4 * ?N + 4"
    "\<forall>j < passed 4 1 (length cs). j < ?N \<longrightarrow> bytes (cs ! (4 * j + 1)) = message (int j)"
    "length cs \<le> 4 * ?N \<longrightarrow> at_work (length ps) (length cs) k"
    "4 * ?N < length cs \<longrightarrow> length ps = 5 * ?N"
    using assms(1) by (auto simp: handover_def)
  show ?thesis
  proof (cases "length cs < 4 * ?N")
    case True
    then have "list_all fine cs"
      using inv(2) by simp
    from consumer_blocked [OF this True, of semid shmid mem] assms(2)
    have c: "c = consumer_call semid mem (int (length cs div 4)) (length cs mod 4)"
      by auto
    have "length cs mod 4 < 4"
      by simp
    then have "c \<noteq> Wait"
      unfolding c consumer_call_def by (auto simp: nth_Cons split: nat.splits)
    with assms(3) c consumer_moves [of k "length cs" r k' "length ps"] inv(6) True
    have m: "at_work (length ps) (Suc (length cs)) k'" "fine r" "length cs mod 4 = 1 \<longrightarrow> bytes r = message (int (length cs div 4))"
      by auto
    have "\<forall>j < passed 4 1 (length (cs @ [r])). j < ?N \<longrightarrow> bytes ((cs @ [r]) ! (4 * j + 1)) = message (int j)"
      by (rule nth_snoc_passed) (use inv(5) m(3) in auto)
    with assms(1) m True inv(2) show ?thesis
      by (auto simp: handover_def)
  next
    case False
    let ?ts = "drop (4 * ?N) cs"
    have "length (take (4 * ?N) cs) = 4 * ?N" "length ?ts \<le> 4" "take (4 * ?N) cs @ ?ts = cs"
      using False inv(4) by auto
    from consumer_tail [OF inv(2) this(1,2), of semid shmid mem] assms(2) this(3)
    have ts: "length ?ts < 4" "c = [Wait, Shmdt mem, Shmctl shmid IPC_RMID, Semctl semid 0 IPC_RMID 0] ! length ?ts"
      by (auto split: if_splits)
    have "length ps = 5 * ?N"
    proof (cases "length cs = 4 * ?N")
      case True
      with ts have "c = Wait"
        by simp
      with assms(3) have "fst (producer semid mem n (fresh ps)) = Exited e"
        by simp
      with producer_blocked [OF inv(1), of n semid mem] inv(3) show ?thesis
        by (cases "length ps < 5 * ?N") auto
    next
      case 2: False
      with False inv(7) show ?thesis
        by simp
    qed
    moreover have "\<forall>j < passed 4 1 (length (cs @ [r])). j < ?N \<longrightarrow> bytes ((cs @ [r]) ! (4 * j + 1)) = message (int j)"
    proof (rule nth_snoc_passed)
      assume "length cs div 4 < ?N"
      with False show "bytes r = message (int (length cs div 4))"
        by simp
    qed (use inv(5) in auto)
    ultimately show ?thesis
      using assms(1) ts(1) False by (auto simp: handover_def)
  qed
qed

lemma handover_step: "handover (nat n) st \<Longrightarrow> step n st st' \<Longrightarrow> handover (nat n) st'"
  unfolding step_def
  by (cases st) (auto elim!: pair_stepE intro: handover_producer handover_consumer)

lemma handover_init: "sem_val k 0 = 1 \<Longrightarrow> sem_val k 1 = 0 \<Longrightarrow> handover (nat n) (k, [], [])"
  by (simp add: handover_def at_work_def)

lemma handover_reachable:
  assumes "(step n)\<^sup>*\<^sup>* (k0, [], []) st" "sem_val k0 0 = 1" "sem_val k0 1 = 0"
  shows "handover (nat n) st"
  using assms(1) handover_init [OF assms(2,3), of n] handover_step
  unfolding step_def by (rule pair_invariant)

lemma producer_enabled:
  assumes "at_work p c k" "p mod 5 = 0 \<Longrightarrow> 0 < sem_val k 0"
  shows "\<exists>r k'. kstep k (producer_call semid mem i (p mod 5)) r k'"
proof -
  consider "p mod 5 = 0" | "p mod 5 = 1" | "p mod 5 = 2" | "p mod 5 = 3" | "p mod 5 = 4"
    by linarith
  then show ?thesis
    using assms semop_free [of "-1" k 0] semop_free [of 1 k 1] store_free [of k "message i"] load_free [of k]
      sleep_free [of k 1]
    by cases (simp_all add: producer_call_def at_work_def)
qed

lemma consumer_enabled:
  assumes "at_work p c k" "c mod 4 = 0 \<Longrightarrow> 0 < sem_val k 1"
  shows "\<exists>r k'. kstep k (consumer_call semid mem i (c mod 4)) r k'"
proof -
  consider "c mod 4 = 0" | "c mod 4 = 1" | "c mod 4 = 2" | "c mod 4 = 3"
    by linarith
  then show ?thesis
    using assms semop_free [of "-1" k 1] semop_free [of 1 k 0] load_free [of k] sleep_free [of k 2]
    by cases (simp_all add: consumer_call_def at_work_def)
qed

text \<open>While both are at work, a producer that has to wait for empty and a consumer that has to wait
  for full cannot both be stuck.\<close>

lemma one_enabled:
  assumes "at_work p c k" "c \<le> 4 * N" "p \<le> 5 * N" "p < 5 * N \<Longrightarrow> p mod 5 = 0 \<and> sem_val k 0 \<le> 0"
    and "c < 4 * N \<Longrightarrow> c mod 4 = 0 \<and> sem_val k 1 \<le> 0"
  shows "p = 5 * N \<and> c = 4 * N"
proof -
  have m: "p mod 5 = 0" "c mod 4 = 0"
    using assms(2-5) by (auto simp: le_less)
  then have p: "p = 5 * (p div 5)" and c: "c = 4 * (c div 4)"
    by auto
  have "sem_val k 0 = 1 - int (p div 5) + int (c div 4)" "sem_val k 1 = int (p div 5) - int (c div 4)" "0 \<le> sem_val k 0" "0 \<le> sem_val k 1"
    using assms(1) m by (simp_all add: at_work_def passed_def)
  with assms(2-5) p c show ?thesis
    by linarith
qed

lemma consumer_call_not_wait: "q < 4 \<Longrightarrow> consumer_call semid mem i q \<noteq> Wait"
  by (auto simp: consumer_call_def nth_Cons split: nat.splits)

lemma stuck_means_done:
  assumes "handover (nat n) (k, ps, cs)" "\<And>st. \<not> step n (k, ps, cs) st"
  shows "length ps = 5 * nat n \<and> length cs = 4 * nat n + 4"
proof -
  let ?N = "nat n"
  have inv: "list_all fine ps" "list_all fine (take (4 * ?N) cs)" "length ps \<le> 5 * ?N" "length cs \<le> 4 * ?N + 4"
    "length cs \<le> 4 * ?N \<longrightarrow> at_work (length ps) (length cs) k"
    "4 * ?N < length cs \<longrightarrow> length ps = 5 * ?N"
    using assms(1) by (auto simp: handover_def)
  have pstuck: "\<not> kstep k c r k'" if "fst (producer semid mem n (fresh ps)) = Blocked c" for c r k'
    using assms(2) that unfolding step_def by (blast intro: pair_step.intros)
  have cstuck: "\<not> kstep k c r k'" if "fst (consumer semid shmid mem n (fresh cs)) = Blocked c" "c \<noteq> Wait" for c r k'
    using assms(2) that unfolding step_def by (blast intro: pair_step.intros)
  show ?thesis
  proof (cases "length cs \<le> 4 * ?N")
    case True
    with inv(5) have w: "at_work (length ps) (length cs) k"
      by blast
    have a1: "length ps mod 5 = 0 \<and> sem_val k 0 \<le> 0" if "length ps < 5 * ?N"
    proof (rule ccontr)
      assume "\<not> ?thesis"
      then obtain r k' where "kstep k (producer_call semid mem (int (length ps div 5)) (length ps mod 5)) r k'"
        using producer_enabled [OF w, of "int (length ps div 5)"] by force
      with producer_blocked [OF inv(1) that, of semid mem] pstuck show False
        by fastforce
    qed
    have a2: "length cs mod 4 = 0 \<and> sem_val k 1 \<le> 0" if "length cs < 4 * ?N"
    proof (rule ccontr)
      assume "\<not> ?thesis"
      then obtain r k' where "kstep k (consumer_call semid mem (int (length cs div 4)) (length cs mod 4)) r k'"
        using consumer_enabled [OF w, of "int (length cs div 4)"] by force
      with consumer_blocked [of cs n semid shmid mem] inv(2) that cstuck consumer_call_not_wait show False
        by fastforce
    qed
    from one_enabled [OF w True inv(3) a1 a2] inv(2) consumer_tail [of cs n "[]" semid shmid mem] producer_exited [OF inv(1), of n semid mem]
    have "fst (consumer semid shmid mem n (fresh cs)) = Blocked Wait" "fst (producer semid mem n (fresh ps)) = Exited 0"
      by auto
    then have "step n (k, ps, cs) (k, ps, cs @ [rep 1])"
      unfolding step_def by (intro parent_wait) simp_all
    with assms(2) show ?thesis
      by blast
  next
    case False
    let ?ts = "drop (4 * ?N) cs"
    have "length (take (4 * ?N) cs) = 4 * ?N" "length ?ts \<le> 4" "take (4 * ?N) cs @ ?ts = cs" "0 < length ?ts"
      using False inv(4) by auto
    note tail = consumer_tail [OF inv(2) this(1,2), of semid shmid mem, unfolded this(3)] this(4)
    have "length ?ts = 4"
    proof (rule ccontr)
      assume "length ?ts \<noteq> 4"
      with tail \<open>length ?ts \<le> 4\<close> have "length ?ts = 1 \<or> length ?ts = 2 \<or> length ?ts = 3"
        by linarith
      then show False
        using tail cstuck detach_free [of k] by (elim disjE) fastforce+
    qed
    with inv(6) False show ?thesis
      by auto
  qed
qed

lemma consumer_printed:
  assumes "list_all fine (take (4 * nat n) cs)" "length cs \<le> 4 * nat n + 4"
    and "\<forall>j < passed 4 1 (length cs). j < nat n \<longrightarrow> bytes (cs ! (4 * j + 1)) = message (int j)"
  shows "printed (snd (consumer semid shmid mem n (fresh cs))) =
    messages read_text (min (nat n) (passed 4 1 (length cs))) @ (if length cs = 4 * nat n + 4 then cleaned_text else [])"
proof -
  let ?N = "nat n"
  let ?a = "take (4 * ?N) cs" and ?ts = "drop (4 * ?N) cs"
  have len: "length ?a \<le> ?N * 4" "length ?ts \<le> 4"
    using assms(2) by auto
  have p: "passed 4 1 (length ?a) = min ?N (passed 4 1 (length cs))"
  proof (cases "length cs \<le> 4 * ?N")
    case True
    then have "passed 4 1 (length cs) \<le> ?N"
      by (intro passed_le) simp_all
    with True show ?thesis
      by simp
  next
    case False
    then have "?N \<le> passed 4 1 (length cs)"
      by (simp add: passed_def)
    with False show ?thesis
      by (simp add: min_def)
  qed
  have "bytes (?a ! (4 * j + 1)) = message (int j)" if "j < passed 4 1 (length ?a)" for j
    using that assms(3) p by simp
  from consumer_text_messages [OF len(1) this] p
  have "cycle_text 4 consumer_text ?N 0 ?a = messages read_text (min ?N (passed 4 1 (length cs)))"
    by simp
  moreover have "printed (snd (consumer semid shmid mem n (fresh cs))) =
      cycle_text 4 consumer_text ?N 0 ?a @ (if length cs = 4 * ?N + 4 then cleaned_text else [])"
  proof (cases "length cs < 4 * ?N")
    case True
    with consumer_blocked [of cs n semid shmid mem] assms(1) show ?thesis
      by auto
  next
    case False
    then have "length ?a = 4 * ?N" "length ?ts < 4 \<longleftrightarrow> length cs \<noteq> 4 * ?N + 4"
      using assms(2) by auto
    with consumer_tail [OF assms(1) this(1) len(2), of semid shmid mem] show ?thesis
      by auto
  qed
  ultimately show ?thesis
    by simp
qed

lemma producer_printed:
  assumes "list_all fine ps" "length ps \<le> 5 * nat n"
    and "\<forall>j < passed 5 2 (length ps). bytes (ps ! (5 * j + 2)) = message (int j)"
  shows "printed (snd (producer semid mem n (fresh ps))) = messages wrote_text (passed 5 2 (length ps))"
proof -
  have "cycle_text 5 producer_text (nat n) 0 ps = messages wrote_text (passed 5 2 (length ps))"
    using assms(2,3) by (intro producer_text_messages) auto
  with producer_blocked [OF assms(1), of n semid mem] producer_exited [OF assms(1), of n semid mem] assms(2) show ?thesis
    by (cases "length ps < 5 * nat n") auto
qed

lemma handover_printed:
  assumes "handover (nat n) (k, ps, cs)"
  shows "\<exists>i j. j \<le> i \<and> i \<le> Suc j \<and> i \<le> nat n \<and>
    printed (snd (producer semid mem n (fresh ps))) = messages wrote_text i \<and>
    printed (snd (consumer semid shmid mem n (fresh cs))) =
      messages read_text j @ (if length cs = 4 * nat n + 4 then cleaned_text else [])"
proof -
  let ?N = "nat n"
  let ?i = "passed 5 2 (length ps)" and ?j = "min ?N (passed 4 1 (length cs))"
  have le: "?i \<le> ?N"
    using assms by (intro passed_le) (simp_all add: handover_def)
  have "?j \<le> ?i \<and> ?i \<le> Suc ?j"
  proof (cases "length cs \<le> 4 * ?N")
    case True
    then have "at_work (length ps) (length cs) k"
      using assms by (simp add: handover_def)
    then have "passed 5 0 (length ps) \<le> Suc (passed 4 2 (length cs))" "passed 4 0 (length cs) \<le> passed 5 3 (length ps)"
      by (simp_all add: at_work_def)
    moreover have "passed 5 3 p \<le> passed 5 2 p" "passed 5 2 p \<le> passed 5 0 p"
      "passed 4 2 c \<le> passed 4 1 c" "passed 4 1 c \<le> passed 4 0 c" for p c
      by (simp_all add: passed_def)
    ultimately have "passed 4 1 (length cs) \<le> ?i" "?i \<le> Suc (passed 4 1 (length cs))"
      by (meson le_trans Suc_le_mono)+
    with le show ?thesis
      by simp
  next
    case False
    then have "length ps = 5 * ?N" "?N \<le> passed 4 1 (length cs)"
      using assms by (auto simp: handover_def passed_def)
    then show ?thesis
      by simp
  qed
  with le producer_printed [of ps n] consumer_printed [of n cs] assms show ?thesis
    by (auto simp: handover_def)
qed

lemma finished:
  assumes "handover (nat n) (k, ps, cs)" "length ps = 5 * nat n" "length cs = 4 * nat n + 4"
  shows "fst (producer semid mem n (fresh ps)) = Exited 0" "fst (consumer semid shmid mem n (fresh cs)) = Exited 0"
    and "printed (snd (producer semid mem n (fresh ps))) = messages wrote_text (nat n)"
    and "printed (snd (consumer semid shmid mem n (fresh cs))) = messages read_text (nat n) @ cleaned_text"
    and "\<exists>before a b c d. calls (snd (consumer semid shmid mem n (fresh cs))) =
      before @ [(Wait, a), (Shmdt mem, b), (Shmctl shmid IPC_RMID, c), (Semctl semid 0 IPC_RMID 0, d)]"
proof -
  let ?N = "nat n"
  have inv: "list_all fine ps" "list_all fine (take (4 * ?N) cs)"
    using assms(1) by (auto simp: handover_def)
  have four: "\<exists>a b c d. xs = [a, b, c, d]" if "length xs = 4" for xs :: "reply list"
    using that by (auto simp: numeral_eq_Suc length_Suc_conv)
  obtain a b c d where ts: "drop (4 * ?N) cs = [a, b, c, d]"
    using four [of "drop (4 * ?N) cs"] assms(3) by auto
  then have "take (4 * ?N) cs @ [a, b, c, d] = cs"
    by (metis append_take_drop_id)
  with consumer_removes [OF inv(2), of n "[a, b, c, d]" semid shmid mem] assms(3)
  show "\<exists>before a b c d. calls (snd (consumer semid shmid mem n (fresh cs))) =
      before @ [(Wait, a), (Shmdt mem, b), (Shmctl shmid IPC_RMID, c), (Semctl semid 0 IPC_RMID 0, d)]"
    by (auto simp: removal_def)
  show "fst (producer semid mem n (fresh ps)) = Exited 0"
    using producer_exited [OF inv(1) assms(2), of semid mem] by auto
  show "fst (consumer semid shmid mem n (fresh cs)) = Exited 0"
    using consumer_tail [OF inv(2), of n "drop (4 * ?N) cs" semid shmid mem] assms(3) by auto
  show "printed (snd (producer semid mem n (fresh ps))) = messages wrote_text ?N"
    using producer_printed [OF inv(1), of n] assms by (simp add: handover_def)
  have "?N \<le> passed 4 1 (length cs)"
    using assms(3) by (simp add: passed_def)
  then show "printed (snd (consumer semid shmid mem n (fresh cs))) = messages read_text ?N @ cleaned_text"
    using consumer_printed [OF inv(2)] assms by (simp add: handover_def min_def)
qed

end

subsection \<open>A kernel that keeps the promise\<close>

record ipc =
  sems :: "int \<Rightarrow> int"
  segment :: string

text \<open>A concrete kernel: the calls that remove the resources leave the semaphores and the text alone.\<close>

inductive ipc_step :: "int \<Rightarrow> int \<Rightarrow> int \<Rightarrow> ipc \<Rightarrow> call \<Rightarrow> reply \<Rightarrow> ipc \<Rightarrow> bool"
  for semid mem shmid :: int where
  "0 \<le> sems k n + p \<Longrightarrow>
     ipc_step semid mem shmid k (Semop semid [(n, p, 0)]) (rep 0) (k\<lparr>sems := (sems k)(n := sems k n + p)\<rparr>)"
| "ipc_step semid mem shmid k (Store mem t) (rep 0) (k\<lparr>segment := t\<rparr>)"
| "ipc_step semid mem shmid k (Load mem) ((rep 0)\<lparr>bytes := segment k\<rparr>) k"
| "ipc_step semid mem shmid k (Sleep secs) (rep 0) k"
| "ipc_step semid mem shmid k (Shmdt mem) (rep 0) k"
| "ipc_step semid mem shmid k (Shmctl shmid IPC_RMID) (rep 0) k"
| "ipc_step semid mem shmid k (Semctl semid 0 IPC_RMID 0) (rep 0) k"

interpretation ipc: sem_kernel sems segment "ipc_step semid mem shmid" semid mem shmid for semid mem shmid
  by unfold_locales (auto elim!: ipc_step.cases simp: fine_def intro: ipc_step.intros [simplified])

subsection \<open>The protocol\<close>

lemma handover_holds:
  assumes "sem_kernel sem_val seg kstep semid mem shmid" "sem_val k0 0 = 1" "sem_val k0 1 = 0"
    and "pair_steps kstep (producer semid mem n) (consumer semid shmid mem n) (k0, [], []) st"
  shows "sem_kernel.handover sem_val seg (nat n) st"
  using sem_kernel.handover_reachable [OF assms(1) _ assms(2,3)] assms(4)
  by (simp add: sem_kernel.step_def [OF assms(1)])

text \<open>C1. \<^verbatim>\<open>semaphore.c\<close>, in every interleaving on every kernel that keeps the promise of \<^verbatim>\<open>semop\<close>: at
  any moment the producer has announced messages 1 to \<open>i\<close> and the consumer has printed exactly
  messages 1 to \<open>j\<close>, in order, none lost and none twice, with \<open>j \<le> i \<le> j + 1\<close>.\<close>

theorem semaphore_in_order:
  assumes "sem_kernel sem_val seg kstep semid mem shmid" "sem_val k0 0 = 1" "sem_val k0 1 = 0"
    and "pair_steps kstep (producer semid mem n) (consumer semid shmid mem n) (k0, [], []) (k, ps, cs)"
  shows "\<exists>i j. j \<le> i \<and> i \<le> Suc j \<and> i \<le> nat n \<and>
    printed (snd (producer semid mem n (fresh ps))) = messages wrote_text i \<and>
    printed (snd (consumer semid shmid mem n (fresh cs))) =
      messages read_text j @ (if length cs = 4 * nat n + 4 then cleaned_text else [])"
  by (rule sem_kernel.handover_printed [OF assms(1) handover_holds [OF assms]])

text \<open>C2. \<^verbatim>\<open>semaphore.c\<close> never deadlocks and always ends: a run of the two processes has at most
  \<open>9 n + 4\<close> steps, and where no step is possible both have exited with 0, every message has been
  handed over, and the last calls of the consumer were to wait for the producer, to detach and to remove the segment
  and to remove the semaphores.\<close>

theorem semaphore_completes:
  assumes "sem_kernel sem_val seg kstep semid mem shmid" "sem_val k0 0 = 1" "sem_val k0 1 = 0"
    and "pair_steps kstep (producer semid mem n) (consumer semid shmid mem n) (k0, [], []) (k, ps, cs)"
  shows "length ps + length cs \<le> 9 * nat n + 4 \<and>
    ((\<exists>st. pair_step kstep (producer semid mem n) (consumer semid shmid mem n) (k, ps, cs) st) \<or>
     fst (producer semid mem n (fresh ps)) = Exited 0 \<and> fst (consumer semid shmid mem n (fresh cs)) = Exited 0 \<and>
     printed (snd (producer semid mem n (fresh ps))) = messages wrote_text (nat n) \<and>
     printed (snd (consumer semid shmid mem n (fresh cs))) = messages read_text (nat n) @ cleaned_text \<and>
     (\<exists>before a b c d. calls (snd (consumer semid shmid mem n (fresh cs))) =
       before @ [(Wait, a), (Shmdt mem, b), (Shmctl shmid IPC_RMID, c), (Semctl semid 0 IPC_RMID 0, d)]))"
proof -
  note inv = handover_holds [OF assms]
  have "length ps + length cs \<le> 9 * nat n + 4"
    using inv by (simp add: sem_kernel.handover_def [OF assms(1)])
  moreover have "length ps = 5 * nat n \<and> length cs = 4 * nat n + 4"
    if "\<nexists>st. pair_step kstep (producer semid mem n) (consumer semid shmid mem n) (k, ps, cs) st"
    using sem_kernel.stuck_means_done [OF assms(1) inv] that unfolding sem_kernel.step_def [OF assms(1)] by blast
  ultimately show ?thesis
    using sem_kernel.finished [OF assms(1) inv] by blast
qed

definition ipc_start :: ipc where
  "ipc_start = \<lparr>sems = (\<lambda>n. if n = 0 then 1 else 0), segment = []\<rparr>"

lemma ipc_first:
  "pair_steps (ipc_step 7 4096 3) (producer 7 4096 1) (consumer 7 3 4096 1) (ipc_start, [], [])
     (ipc_start\<lparr>sems := (sems ipc_start)(0 := 0)\<rparr>, [rep 0], [])"
proof -
  have "fst (producer 7 4096 1 (fresh [])) = Blocked (Semop 7 [(0, -1, 0)])"
    by (simp add: producer_def producer_body_def sem_op_def fresh_def for_loop_step run_simps obs_simps)
  moreover have "ipc_step 7 4096 3 ipc_start (Semop 7 [(0, -1, 0)]) (rep 0) (ipc_start\<lparr>sems := (sems ipc_start)(0 := 0)\<rparr>)"
    using ipc_step.intros(1) [of ipc_start 0 "-1" 7 4096 3] by (simp add: ipc_start_def)
  ultimately have "pair_step (ipc_step 7 4096 3) (producer 7 4096 1) (consumer 7 3 4096 1) (ipc_start, [], [])
      (ipc_start\<lparr>sems := (sems ipc_start)(0 := 0)\<rparr>, [] @ [rep 0], [])"
    by (rule child_call)
  then show ?thesis
    by simp
qed

lemma ipc_second:
  "pair_step (ipc_step 7 4096 3) (producer 7 4096 1) (consumer 7 3 4096 1) (ipc_start\<lparr>sems := (sems ipc_start)(0 := 0)\<rparr>, [rep 0], [])
     (ipc_start\<lparr>sems := (sems ipc_start)(0 := 0), segment := message 0\<rparr>, [rep 0, rep 0], [])"
proof -
  let ?k = "ipc_start\<lparr>sems := (sems ipc_start)(0 := 0)\<rparr>"
  have "fst (producer 7 4096 1 (fresh [rep 0])) = Blocked (Store 4096 (message 0))"
    by (simp add: producer_def producer_body_def sem_op_def fresh_def for_loop_step run_simps obs_simps)
  moreover have "ipc_step 7 4096 3 ?k (Store 4096 (message 0)) (rep 0) (?k\<lparr>segment := message 0\<rparr>)"
    by (rule ipc_step.intros)
  ultimately have "pair_step (ipc_step 7 4096 3) (producer 7 4096 1) (consumer 7 3 4096 1) (?k, [rep 0], [])
      (?k\<lparr>segment := message 0\<rparr>, [rep 0] @ [rep 0], [])"
    by (rule child_call)
  then show ?thesis
    by simp
qed

lemma ipc_run:
  "pair_steps (ipc_step 7 4096 3) (producer 7 4096 1) (consumer 7 3 4096 1) (ipc_start, [], [])
     (ipc_start\<lparr>sems := (sems ipc_start)(0 := 0), segment := message 0\<rparr>, [rep 0, rep 0], [])"
  using ipc_first ipc_second by (rule rtranclp.rtrancl_into_rtrancl)

text \<open>The semaphores as \<^verbatim>\<open>main\<close> initialises them, after the producer's first two calls.\<close>

theorem semaphore_in_order_witness:
  "\<exists>i j. j \<le> i \<and> i \<le> Suc j \<and> i \<le> nat 1 \<and>
    printed (snd (producer 7 4096 1 (fresh [rep 0, rep 0]))) = messages wrote_text i \<and>
    printed (snd (consumer 7 3 4096 1 (fresh []))) =
      messages read_text j @ (if length ([] :: reply list) = 4 * nat 1 + 4 then cleaned_text else [])"
  by (rule semaphore_in_order [OF ipc.sem_kernel_axioms _ _ ipc_run]) (simp_all add: ipc_start_def)

theorem semaphore_completes_witness:
  "length [rep 0, rep 0] + length ([] :: reply list) \<le> 9 * nat 1 + 4 \<and>
    ((\<exists>st. pair_step (ipc_step 7 4096 3) (producer 7 4096 1) (consumer 7 3 4096 1)
        (ipc_start\<lparr>sems := (sems ipc_start)(0 := 0), segment := message 0\<rparr>, [rep 0, rep 0], []) st) \<or>
     fst (producer 7 4096 1 (fresh [rep 0, rep 0])) = Exited 0 \<and> fst (consumer 7 3 4096 1 (fresh [])) = Exited 0 \<and>
     printed (snd (producer 7 4096 1 (fresh [rep 0, rep 0]))) = messages wrote_text (nat 1) \<and>
     printed (snd (consumer 7 3 4096 1 (fresh []))) = messages read_text (nat 1) @ cleaned_text \<and>
     (\<exists>before a b c d. calls (snd (consumer 7 3 4096 1 (fresh []))) =
       before @ [(Wait, a), (Shmdt 4096, b), (Shmctl 3 IPC_RMID, c), (Semctl 7 0 IPC_RMID 0, d)]))"
  by (rule semaphore_completes [OF ipc.sem_kernel_axioms _ _ ipc_run]) (simp_all add: ipc_start_def)

theorem semaphore_main_undefined_witness:
  "\<exists>w. fst (semaphore_main [''semaphore''] (start Unbuffered
     (rep 1 # rep 4096 # rep 7 # replicate 6 (rep 0) @ []))) = Undefined w"
  by (rule semaphore_main_undefined) simp_all

end
