(* ===== verification/One_Place_Buffer.thy ===== *)
theory One_Place_Buffer
  imports Semaphore
begin

text \<open>
  What \<^verbatim>\<open>semaphore.c\<close> implements with two semaphores and a shared segment: a buffer with one place. The
  specification knows how many messages have been put in, what is in the buffer, and what has been taken
  out. \<open>buffer_view\<close> reads these off a state of the two processes: the stores the producer has made, the text in
  the segment while it has not been loaded yet, and the bytes the consumer's loads returned.
\<close>

type_synonym buffer = "nat \<times> string list \<times> string list"

inductive buffer_step :: "nat \<Rightarrow> buffer \<Rightarrow> buffer \<Rightarrow> bool" for N :: nat where
  put: "i < N \<Longrightarrow> buffer_step N (i, [], out) (Suc i, [message (int i)], out)"
| get: "buffer_step N (i, [t], out) (i, [], out @ [t])"

definition taken :: "reply list \<Rightarrow> nat \<Rightarrow> string list" where
  "taken cs got = map (\<lambda>j. bytes (cs ! (4 * j + 1))) [0..<got]"

definition buffer_view :: "('k \<Rightarrow> string) \<Rightarrow> nat \<Rightarrow> 'k pair_state \<Rightarrow> buffer" where
  "buffer_view seg N = (\<lambda>(k, ps, cs).
     let sent = passed 5 1 (length ps); got = min N (passed 4 1 (length cs)) in
     (sent, if got < sent then [seg k] else [], taken cs got))"

text \<open>The bytes of an iteration that is complete do not change when a reply is added.\<close>

lemma taken_snoc:
  assumes "got \<le> passed 4 1 (length cs)"
  shows "taken (cs @ [r]) got = taken cs got"
  unfolding taken_def
proof (rule map_cong [OF refl])
  fix j
  assume "j \<in> set [0..<got]"
  with assms have "j < length cs div 4 \<or> j = length cs div 4 \<and> 1 < length cs mod 4"
    by (auto simp: passed_def split: if_splits)
  then have "4 * j + 1 < length cs"
    using div_mult_mod_eq [of "length cs" 4] by linarith
  then show "bytes ((cs @ [r]) ! (4 * j + 1)) = bytes (cs ! (4 * j + 1))"
    by (simp add: nth_append)
qed

lemma taken_Suc: "taken cs (Suc n) = taken cs n @ [bytes (cs ! (4 * n + 1))]"
  by (simp add: taken_def)

context sem_kernel
begin

lemma counts:
  "passed 5 3 p \<le> passed 5 1 p" "passed 5 1 p \<le> passed 5 0 p" "passed 4 2 c \<le> passed 4 1 c" "passed 4 1 c \<le> passed 4 0 c"
  by (simp_all add: passed_def)

lemma at_work_counts:
  assumes "at_work p c k"
  shows "passed 5 0 p \<le> Suc (passed 4 2 c)" "passed 4 0 c \<le> passed 5 3 p"
  using assms by (simp_all add: at_work_def)

text \<open>The producer and the consumer are never both inside.\<close>

lemma exclusive:
  assumes "at_work p c k"
  shows "\<not> (p mod 5 \<in> {1, 2, 3} \<and> c mod 4 \<in> {1, 2})"
proof
  assume "p mod 5 \<in> {1, 2, 3} \<and> c mod 4 \<in> {1, 2}"
  then have "passed 5 0 p = Suc (p div 5)" "passed 5 3 p = p div 5" "passed 4 0 c = Suc (c div 4)" "passed 4 2 c = c div 4"
    by (auto simp: passed_def)
  with at_work_counts [OF assms] show False
    by simp
qed

lemma view_producer:
  assumes "at_work p c k" "p = length ps" "c = length cs" "p < 5 * N" "c \<le> 4 * N"
    and "kstep k (producer_call semid mem (int (p div 5)) (p mod 5)) r k'"
  shows "buffer_view seg N (k', ps @ [r], cs) = buffer_view seg N (k, ps, cs) \<or>
    buffer_step N (buffer_view seg N (k, ps, cs)) (buffer_view seg N (k', ps @ [r], cs))"
proof (cases "p mod 5 = 1")
  case True
  have n: "passed 5 1 p = p div 5" "passed 5 0 p = Suc (p div 5)" "passed 5 3 p = p div 5" "p div 5 < N"
    using True assms(4) by (auto simp: passed_def)
  with at_work_counts [OF assms(1)] counts(3,4) [of c] have g: "passed 4 1 c = p div 5"
    by linarith
  have "seg k' = message (int (p div 5))"
    using store_done assms(6) True by (simp add: producer_call_def)
  with n g True assms(2,3) put [of "p div 5" N "taken cs (p div 5)"] show ?thesis
    by (simp add: buffer_view_def Let_def passed_Suc)
next
  case False
  then consider "p mod 5 = 0" | "p mod 5 = 2" | "p mod 5 = 3" | "p mod 5 = 4"
    by linarith
  then have "seg k' = seg k"
    using assms(6) semop_done [of k 0 "-1" r k'] load_done [of k r k'] semop_done [of k 1 1 r k'] sleep_done [of k 1 r k']
    by cases (simp_all add: producer_call_def)
  with False assms(2,3) show ?thesis
    by (simp add: buffer_view_def Let_def passed_Suc)
qed

lemma view_consumer:
  assumes "at_work p c k" "p = length ps" "c = length cs" "p \<le> 5 * N" "c < 4 * N"
    and "kstep k (consumer_call semid mem (int (c div 4)) (c mod 4)) r k'"
  shows "buffer_view seg N (k', ps, cs @ [r]) = buffer_view seg N (k, ps, cs) \<or>
    buffer_step N (buffer_view seg N (k, ps, cs)) (buffer_view seg N (k', ps, cs @ [r]))"
proof (cases "c mod 4 = 1")
  case True
  have n: "passed 4 1 c = c div 4" "passed 4 0 c = Suc (c div 4)" "passed 4 2 c = c div 4" "c div 4 < N"
    using True assms(5) by (auto simp: passed_def)
  with at_work_counts [OF assms(1)] counts(1,2) [of p] have g: "passed 5 1 p = Suc (c div 4)"
    by linarith
  have r: "bytes r = seg k"
    using load_done assms(6) True by (simp add: consumer_call_def)
  have "length cs = 4 * (c div 4) + 1"
    using True assms(3) div_mult_mod_eq [of c 4] by simp
  then have "bytes ((cs @ [r]) ! (4 * (c div 4) + 1)) = seg k"
    using r by (simp add: nth_append)
  with n g True assms(2,3) get [of N "Suc (c div 4)" "seg k" "taken cs (c div 4)"]
    taken_snoc [of "c div 4" cs r] show ?thesis
    by (simp add: buffer_view_def Let_def passed_Suc taken_Suc)
next
  case False
  then consider "c mod 4 = 0" | "c mod 4 = 2" | "c mod 4 = 3"
    by linarith
  then have "seg k' = seg k"
    using assms(6) semop_done [of k 1 "-1" r k'] semop_done [of k 0 1 r k'] sleep_done [of k 2 r k']
    by cases (simp_all add: consumer_call_def)
  with False assms(2,3) show ?thesis
    by (simp add: buffer_view_def Let_def passed_Suc taken_snoc)
qed

text \<open>Once all messages have been taken the view does not change.\<close>

lemma view_tail:
  assumes "length ps \<le> 5 * N" "4 * N \<le> length cs"
  shows "buffer_view seg N (k', ps, cs @ [r]) = buffer_view seg N (k, ps, cs)"
proof -
  have "passed 4 1 (4 * N) \<le> passed 4 1 (length cs)"
    using assms(2) by (auto simp: passed_def div_le_mono intro: le_trans [OF div_le_mono [of "4 * N" "length cs" 4]])
  then have n: "N \<le> passed 4 1 (length cs)" "N \<le> passed 4 1 (Suc (length cs))"
    by (simp_all add: passed_Suc)
  moreover have "passed 5 1 (length ps) \<le> N"
    using passed_le assms(1) by simp
  ultimately show ?thesis
    by (simp add: buffer_view_def min_absorb1 taken_snoc)
qed

lemma view_step:
  assumes "handover (nat n) st" "step n st st'"
  shows "buffer_view seg (nat n) st' = buffer_view seg (nat n) st \<or>
    buffer_step (nat n) (buffer_view seg (nat n) st) (buffer_view seg (nat n) st')"
proof -
  let ?N = "nat n"
  obtain k ps cs where st: "st = (k, ps, cs)"
    by (cases st)
  have inv: "list_all fine ps" "list_all fine (take (4 * ?N) cs)" "length ps \<le> 5 * ?N"
    "length cs \<le> 4 * ?N \<longrightarrow> at_work (length ps) (length cs) k" "4 * ?N < length cs \<longrightarrow> length ps = 5 * ?N"
    using assms(1) by (auto simp: handover_def st)
  have prod: "length ps < 5 * ?N \<and> c = producer_call semid mem (int (length ps div 5)) (length ps mod 5)"
    if "fst (producer semid mem n (fresh ps)) = Blocked c" for c
    using producer_exited [OF inv(1), of n semid mem] producer_blocked [OF inv(1), of n semid mem] inv(3) that
    by (cases "length ps = 5 * ?N") auto
  have cons: "c = consumer_call semid mem (int (length cs div 4)) (length cs mod 4)"
    if "fst (consumer semid shmid mem n (fresh cs)) = Blocked c" "length cs < 4 * ?N" for c
    using consumer_blocked [of cs n semid shmid mem] inv(2) that by auto
  from assms(2) show ?thesis
    unfolding step_def st
  proof (rule pair_stepE, goal_cases)
    case (1 c r k')
    with prod inv(4,5) view_producer [of "length ps" "length cs" k ps cs ?N r k'] show ?case
      by (cases "4 * ?N < length cs") (auto simp: st not_less)
  next
    case (2 c r k')
    with cons inv(3,4) view_consumer [of "length ps" "length cs" k ps cs ?N r k'] view_tail [OF inv(3), of cs k' r k] show ?case
      by (cases "length cs < 4 * ?N") (auto simp: st not_less)
  next
    case (3 e r)
    with cons consumer_call_not_wait [of "length cs mod 4" "int (length cs div 4)"] view_tail [OF inv(3), of cs k r k] show ?case
      by (cases "length cs < 4 * ?N") (fastforce simp: st not_less)+
  qed
qed

lemma excludes:
  assumes "handover (nat n) (k, ps, cs)"
  shows "\<not> ((fst (producer semid mem n (fresh ps)) = Blocked (Store mem t) \<or> fst (producer semid mem n (fresh ps)) = Blocked (Load mem)) \<and>
    fst (consumer semid shmid mem n (fresh cs)) = Blocked (Load mem))"
proof
  let ?N = "nat n"
  assume b: "(fst (producer semid mem n (fresh ps)) = Blocked (Store mem t) \<or> fst (producer semid mem n (fresh ps)) = Blocked (Load mem)) \<and>
    fst (consumer semid shmid mem n (fresh cs)) = Blocked (Load mem)"
  have inv: "list_all fine ps" "list_all fine (take (4 * ?N) cs)" "length ps \<le> 5 * ?N" "length cs \<le> 4 * ?N + 4"
    "length cs \<le> 4 * ?N \<longrightarrow> at_work (length ps) (length cs) k"
    using assms by (auto simp: handover_def)
  have p: "length ps < 5 * ?N"
    using producer_exited [OF inv(1), of n semid mem] b inv(3) by (cases "length ps = 5 * ?N") auto
  with producer_blocked [OF inv(1) p, of semid mem] b have "producer_call semid mem (int (length ps div 5)) (length ps mod 5) \<in> {Store mem t, Load mem}"
    by auto
  moreover have "length ps mod 5 < 5"
    by simp
  ultimately have "length ps mod 5 \<in> {1, 2}"
    by (auto simp: producer_call_def nth_Cons split: nat.splits)
  moreover have c: "length cs < 4 * ?N"
  proof (rule ccontr)
    assume "\<not> ?thesis"
    then have "length (take (4 * ?N) cs) = 4 * ?N" "length (drop (4 * ?N) cs) \<le> 4"
      using inv(4) by auto
    from consumer_tail [OF inv(2) this, of semid shmid mem] b show False
      by (auto simp: nth_Cons split: if_splits nat.splits)
  qed
  moreover have "length cs mod 4 = 1"
  proof -
    have "list_all fine cs"
      using inv(2) c by simp
    from consumer_blocked [OF this c, of semid shmid mem] b
    have "consumer_call semid mem (int (length cs div 4)) (length cs mod 4) = Load mem"
      by auto
    moreover have "length cs mod 4 < 4"
      by simp
    ultimately show ?thesis
      by (auto simp: consumer_call_def nth_Cons split: nat.splits)
  qed
  ultimately show False
    using exclusive [of "length ps" "length cs" k] inv(5) by auto
qed

end

subsection \<open>The properties\<close>

text \<open>C3. The two processes of \<^verbatim>\<open>semaphore.c\<close>, in every interleaving on every kernel that keeps the promise, refine
  the buffer with one place: each of their steps leaves the view alone, or puts the next message into the empty
  buffer, or takes out the message that is in it. At the start the buffer is empty.\<close>

theorem semaphore_refines_buffer:
  assumes "sem_kernel sem_val seg kstep semid mem shmid" "sem_val k0 0 = 1" "sem_val k0 1 = 0"
    and "pair_steps kstep (producer semid mem n) (consumer semid shmid mem n) (k0, [], []) st"
    and "pair_step kstep (producer semid mem n) (consumer semid shmid mem n) st st'"
  shows "buffer_view seg (nat n) (k0, [], []) = (0, [], []) \<and>
    (buffer_view seg (nat n) st' = buffer_view seg (nat n) st \<or>
     buffer_step (nat n) (buffer_view seg (nat n) st) (buffer_view seg (nat n) st'))"
  using sem_kernel.view_step [OF assms(1) handover_holds [OF assms(1-4)]] assms(5)
  unfolding sem_kernel.step_def [OF assms(1)] by (simp add: buffer_view_def taken_def)

theorem semaphore_refines_buffer_witness:
  "buffer_step 1 (buffer_view segment 1 (ipc_start\<lparr>sems := (sems ipc_start)(0 := 0)\<rparr>, [rep 0], []))
    (buffer_view segment 1 (ipc_start\<lparr>sems := (sems ipc_start)(0 := 0), segment := message 0\<rparr>, [rep 0, rep 0], []))"
proof -
  have "buffer_view segment 1 (ipc_start\<lparr>sems := (sems ipc_start)(0 := 0), segment := message 0\<rparr>, [rep 0, rep 0], []) \<noteq>
      buffer_view segment 1 (ipc_start\<lparr>sems := (sems ipc_start)(0 := 0)\<rparr>, [rep 0], [])"
    by (simp add: buffer_view_def passed_def)
  with semaphore_refines_buffer [OF ipc.sem_kernel_axioms _ _ ipc_first ipc_second] show ?thesis
    by (simp add: ipc_start_def)
qed

text \<open>C14. Mutual exclusion, an invariant of all interleavings: while the consumer is about to load the message from the
  segment, the producer is about neither to store one nor to load the one it has stored.\<close>

theorem semaphore_excludes:
  assumes "sem_kernel sem_val seg kstep semid mem shmid" "sem_val k0 0 = 1" "sem_val k0 1 = 0"
    and "pair_steps kstep (producer semid mem n) (consumer semid shmid mem n) (k0, [], []) (k, ps, cs)"
  shows "\<not> ((fst (producer semid mem n (fresh ps)) = Blocked (Store mem t) \<or> fst (producer semid mem n (fresh ps)) = Blocked (Load mem)) \<and>
    fst (consumer semid shmid mem n (fresh cs)) = Blocked (Load mem))"
  by (rule sem_kernel.excludes [OF assms(1) handover_holds [OF assms]])

theorem semaphore_excludes_witness:
  "fst (producer 7 4096 1 (fresh [rep 0, rep 0])) = Blocked (Load 4096) \<and>
    fst (consumer 7 3 4096 1 (fresh [])) \<noteq> Blocked (Load 4096)"
proof -
  have "fst (producer 7 4096 1 (fresh [rep 0, rep 0])) = Blocked (Load 4096)"
    by (simp add: producer_def producer_body_def sem_op_def fresh_def for_loop_step run_simps obs_simps)
  with semaphore_excludes [OF ipc.sem_kernel_axioms _ _ ipc_run] show ?thesis
    by (simp add: ipc_start_def)
qed

end
