(* ===== verification/Shared_Memory.thy ===== *)
theory Shared_Memory
  imports Sys
begin

text \<open>
  \<^verbatim>\<open>shmtest.c\<close>: a parent that fills a shared segment and a child that prints what it sees until
  the parent sets a flag. The segment holds two integers and a buffer (\<^verbatim>\<open>struct shmseg\<close>); every
  access to it is a call, since the other process may change it.
\<close>

subsection \<open>The program\<close>

abbreviation BUF_SIZE :: int where "BUF_SIZE \<equiv> 1024"
abbreviation SHM_KEY1 :: int where "SHM_KEY1 \<equiv> 0x1234"
abbreviation SHM_KEY2 :: int where "SHM_KEY2 \<equiv> 0x5678"
abbreviation SHMSEG_SIZE :: int where "SHMSEG_SIZE \<equiv> 1032"
abbreviation CREAT_0644 :: int where "CREAT_0644 \<equiv> 932" \<comment> \<open>0644 | IPC_CREAT\<close>
abbreviation EXCL_0644 :: int where "EXCL_0644 \<equiv> 1956" \<comment> \<open>0644 | IPC_CREAT | IPC_EXCL\<close>

text \<open>Addresses of the fields of \<^verbatim>\<open>struct shmseg\<close>.\<close>

definition cnt_at :: "int \<Rightarrow> int" where "cnt_at shmp = shmp"
definition complete_at :: "int \<Rightarrow> int" where "complete_at shmp = shmp + 4"
definition buf_at :: "int \<Rightarrow> int" where "buf_at shmp = shmp + 8"

text \<open>The static variable \<^verbatim>\<open>ch\<close> is passed along; \<open>next_ch\<close> is its update.\<close>

definition next_ch :: "int \<Rightarrow> int" where
  "next_ch ch =
     (let ch = (if ch > 122 then 65 else ch);
          ch = (if ch \<ge> 65 \<and> ch \<le> 122 then (if ch \<ge> 91 \<and> ch \<le> 96 then 65 else ch) else ch)
      in ch + 1)"

definition fill_buffer :: "int \<Rightarrow> int \<Rightarrow> int \<Rightarrow> (int \<times> int) stm" where
  "fill_buffer bufptr sz ch =
     bindS (do_call (Store bufptr (replicate (nat (sz - 1)) (char_of ch)))) (\<lambda>_.
     bindS (do_call (Store (bufptr + sz - 1) [NUL])) (\<lambda>_.
     bindS (sys (Load bufptr)) (\<lambda>r. ret (int (strlen (bytes r)), next_ch ch))))"

definition writer_body :: "int \<Rightarrow> int \<Rightarrow> int \<Rightarrow> int stm" where
  "writer_body shmp numtimes ch =
     bindS (fill_buffer (buf_at shmp) BUF_SIZE ch) (\<lambda>(filled_count, ch).
     bindS (do_call (Store_int (cnt_at shmp) filled_count)) (\<lambda>_.
     bindS (do_call (Store_int (complete_at shmp) 0)) (\<lambda>_.
     bindS (sys (Load_int (cnt_at shmp))) (\<lambda>r. yields [
       printf (''Writing Process: Shared Memory Write: Wrote '' @ fmt_d (out_int 0 r) @ '' bytes\<newline>''),
       fflush,
       do_call (Sleep 1)] ch))))"

abbreviation DOITERS :: int where "DOITERS \<equiv> 2"

definition writer_end :: "int \<Rightarrow> int \<Rightarrow> unit stm" where
  "writer_end shmid shmp = block [
     printf (''Writing Process: Wrote '' @ fmt_d DOITERS @ '' times\<newline>''),
     fflush,
     do_call (Store_int (complete_at shmp) 1),
     bindS (sysv (Shmdt shmp)) (\<lambda>v. only_if (v = -1) [perror ''shmdt'', exit 1]),
     bindS (sysv (Shmctl shmid 0)) (\<lambda>v. only_if (v = -1) [perror ''shmctl'', exit 1]),
     printf ''Writing Process: Complete\<newline>'',
     fflush,
     exit 0]"

definition writer :: "unit stm" where
  "writer =
     bindS (sysv (Shmget SHM_KEY1 SHMSEG_SIZE CREAT_0644)) (\<lambda>shmid. block [
       only_if (shmid = -1) [perror ''Shared memory get of key1 failed'', exit 1],
       bindS (sysv (Shmget SHM_KEY2 SHMSEG_SIZE CREAT_0644)) (\<lambda>shmid2.
         only_if (shmid2 = -1) [perror ''Shared memory get of key2 failed'', exit 2]),
       bindS (sysv (Shmget SHM_KEY2 SHMSEG_SIZE EXCL_0644)) (\<lambda>shmid2.
         only_if (shmid2 \<noteq> -1) [perror ''Shared memory get of key2 a second time succeeded'', exit 2]),
       bindS (sysv (Shmat shmid)) (\<lambda>shmp. block [
         only_if (shmp = -1) [perror ''Shared memory attach'', exit 1],
         printf (''Writing Process: shmid = 0x'' @ fmt_x shmid @ '' shmaddr = 0x'' @ fmt_p shmp @ ''\<newline>''),
         fflush,
         bindS (for_loop 0 DOITERS (writer_body shmp) 65) (\<lambda>_. skip),
         writer_end shmid shmp])])"

text \<open>One test of the reader's loop condition, with the iteration that follows it.\<close>

definition reader_body :: "int \<Rightarrow> bool stm" where
  "reader_body shmp = bindS (sys (Load_int (complete_at shmp))) (\<lambda>c.
     if out_int 0 c = 1 then ret False
     else bindS (sys (Load (buf_at shmp))) (\<lambda>b.
       bindS (block [printf (''segment contains : \<newline>'' @ [CHR 0x22] @ cstr (bytes b) @ [CHR 0x22, NL]), fflush]) (\<lambda>_.
       bindS (sys (Load_int (cnt_at shmp))) (\<lambda>n.
       bindS (only_if (out_int 0 n = -1) [perror ''read'', exit 1]) (\<lambda>_.
       bindS (sys (Load_int (cnt_at shmp))) (\<lambda>n. yields [
         printf (''Reading Process: Shared Memory: Read '' @ fmt_d (out_int 0 n) @ '' bytes\<newline>''),
         fflush,
         do_call (Sleep 1)] True))))))"

definition reader_loop :: "int \<Rightarrow> unit stm" where
  "reader_loop shmp = do_while (reader_body shmp)"

definition reader_end :: "int \<Rightarrow> unit stm" where
  "reader_end shmp = block [
     printf ''Reading Process: Reading Done, Detaching Shared Memory\<newline>'',
     fflush,
     bindS (sysv (Shmdt shmp)) (\<lambda>v. only_if (v = -1) [perror ''shmdt'', exit 1]),
     printf ''Reading Process: Complete\<newline>'',
     fflush,
     exit 0]"

definition reader :: "unit stm" where
  "reader =
     bindS (sysv (Shmget SHM_KEY1 SHMSEG_SIZE CREAT_0644)) (\<lambda>shmid. block [
       only_if (shmid = -1) [perror ''Shared memory'', exit 1],
       bindS (sysv (Shmat shmid)) (\<lambda>shmp. block [
         only_if (shmp = -1) [perror ''Shared memory attach'', exit 1],
         printf (''Reading Process: shmid = 0x'' @ fmt_x shmid @ '' shmaddr = 0x'' @ fmt_p shmp @ ''\<newline>''),
         fflush,
         reader_loop shmp,
         reader_end shmp])])"

definition shmtest_main :: "unit stm" where
  "shmtest_main = block [
     setbuf_null,
     bindS (sysv Fork) (\<lambda>child.
       if child = -1 then perror ''fork''
       else if child \<noteq> 0 then writer
       else reader),
     exit 0]"

subsection \<open>The letters\<close>

text \<open>The letter of fill number \<open>k\<close>: \<^verbatim>\<open>A\<close> the first time only, then \<^verbatim>\<open>B\<close> to \<^verbatim>\<open>Z\<close> and the bracket
  that follows it, round and round: the range test for lower case is never true.\<close>

theorem fill_letters:
  "(next_ch ^^ k) 65 = (if k = 0 then 65 else 66 + int ((k - 1) mod 26))"
proof (induction k)
  case 0
  then show ?case by simp
next
  case (Suc k)
  show ?case
  proof (cases k)
    case 0
    then show ?thesis by (simp add: next_ch_def)
  next
    case (Suc j)
    have "j mod 26 < 26"
      by simp
    with Suc.IH \<open>k = Suc j\<close> show ?thesis
      by (auto simp: next_ch_def Let_def mod_Suc)
  qed
qed

subsection \<open>The writer\<close>

text \<open>The replies of one iteration of the writer, and what they should hold.\<close>

definition fill_ok :: "int \<Rightarrow> reply list \<Rightarrow> bool" where
  "fill_ok ch rs \<longleftrightarrow> length rs = 7 \<and> bytes (rs ! 2) = replicate 1023 (char_of ch) @ [NUL] \<and> out_int 0 (rs ! 5) = 1023"

definition fill_calls :: "int \<Rightarrow> int \<Rightarrow> call list" where
  "fill_calls shmp ch = [
     Store (buf_at shmp) (replicate 1023 (char_of ch)), Store (buf_at shmp + 1023) [NUL], Load (buf_at shmp),
     Store_int (cnt_at shmp) 1023, Store_int (complete_at shmp) 0, Load_int (cnt_at shmp), Sleep 1]"

definition wrote_line :: string where
  "wrote_line = ''Writing Process: Shared Memory Write: Wrote 1023 bytes\<newline>''"

lemma fmt_d_1023: "fmt_d 1023 = ''1023''"
  by (simp add: fmt_d_def fmt_u_def radix.simps)

lemma writer_iteration:
  assumes "answers s = rs @ rest" "fill_ok ch rs" "(char_of ch :: char) \<noteq> NUL"
  shows "\<exists>s'. writer_body shmp i ch s = (Ret (next_ch ch), s') \<and> answers s' = rest \<and>
    printed s' = printed s @ wrote_line \<and> calls s' = calls s @ zip (fill_calls shmp ch) rs"
proof -
  from assms(2) obtain a b c d e f g where rs: "rs = [a, b, c, d, e, f, g]"
    by (auto simp: fill_ok_def numeral_eq_Suc length_Suc_conv)
  have "strlen (replicate 1023 (char_of ch) @ [NUL]) = 1023"
    using assms(3) by (simp add: strlen_def cstr_append_NUL [of _ "[]", simplified])
  with assms(1,2) show ?thesis
    by (simp add: rs fill_ok_def writer_body_def fill_buffer_def run_simps obs_simps wrote_line_def fill_calls_def
        fmt_d_1023)
qed

text \<open>C20. The writer, when its calls succeed (the exclusive creation of the second segment is the
  one that has to fail) and it reads back what it stored: it fills the buffer with \<^verbatim>\<open>A\<close> and then
  with \<^verbatim>\<open>B\<close>, 1023 bytes each, sets the flag, detaches and removes the first segment and exits 0;
  the second segment is never removed.\<close>

theorem writer_run:
  assumes "rv g1 \<noteq> -1" "rv g2 \<noteq> -1" "rv g3 = -1" "rv a \<noteq> -1" "rv d \<noteq> -1" "rv c \<noteq> -1"
    and "fill_ok 65 r1" "fill_ok 66 r2"
  shows "\<exists>s'. writer (start m ([g1, g2, g3, a] @ r1 @ r2 @ [z, d, c])) = (Exited 0, s') \<and>
    calls s' = [(Shmget SHM_KEY1 SHMSEG_SIZE CREAT_0644, g1), (Shmget SHM_KEY2 SHMSEG_SIZE CREAT_0644, g2),
        (Shmget SHM_KEY2 SHMSEG_SIZE EXCL_0644, g3), (Shmat (rv g1), a)] @
      zip (fill_calls (rv a) 65) r1 @ zip (fill_calls (rv a) 66) r2 @
      [(Store_int (complete_at (rv a)) 1, z), (Shmdt (rv a), d), (Shmctl (rv g1) 0, c)] \<and>
    written s' = ''Writing Process: shmid = 0x'' @ fmt_x (rv g1) @ '' shmaddr = 0x'' @ fmt_p (rv a) @ ''\<newline>'' @
      wrote_line @ wrote_line @ ''Writing Process: Wrote 2 times\<newline>Writing Process: Complete\<newline>''"
proof -
  have n: "(char_of (65 :: int) :: char) \<noteq> NUL" "(char_of (66 :: int) :: char) \<noteq> NUL"
    by code_simp+
  let ?rs = "[g1, g2, g3, a] @ r1 @ r2 @ [z, d, c]"
  define s0 where "s0 = flush_out (put_out (''Writing Process: shmid = 0x'' @ fmt_x (rv g1) @ '' shmaddr = 0x'' @
    fmt_p (rv a) @ ''\<newline>'') (logged (Shmat (rv g1)) a (logged (Shmget SHM_KEY2 SHMSEG_SIZE EXCL_0644) g3
    (logged (Shmget SHM_KEY2 SHMSEG_SIZE CREAT_0644) g2 (logged (Shmget SHM_KEY1 SHMSEG_SIZE CREAT_0644) g1 (start m ?rs))))))"
  have s0: "answers s0 = r1 @ r2 @ [z, d, c]"
    by (simp add: s0_def obs_simps)
  from writer_iteration [OF s0 assms(7) n(1), of "rv a" 0] obtain s1 where
    s1: "writer_body (rv a) 0 65 s0 = (Ret 66, s1)" "answers s1 = r2 @ [z, d, c]"
      "printed s1 = printed s0 @ wrote_line" "calls s1 = calls s0 @ zip (fill_calls (rv a) 65) r1"
    by (auto simp: next_ch_def)
  from writer_iteration [OF s1(2) assms(8) n(2), of "rv a" 1] obtain s2 where
    s2: "writer_body (rv a) 1 66 s1 = (Ret 67, s2)" "answers s2 = [z, d, c]"
      "printed s2 = printed s1 @ wrote_line" "calls s2 = calls s1 @ zip (fill_calls (rv a) 66) r2"
    by (auto simp: next_ch_def)
  have loop: "for_loop 0 DOITERS (writer_body (rv a)) 65 s0 = (Ret 67, s2)"
    using s1(1) s2(1) by (simp add: for_loop_step for_loop_empty run_simps bindS_result(1))
  have "writer (start m ?rs) = bindS (for_loop 0 DOITERS (writer_body (rv a)) 65) (\<lambda>_. writer_end (rv g1) (rv a)) s0"
    using assms(1-4) by (simp add: writer_def run_simps obs_simps s0_def bindS_skip)
  also have "\<dots> = writer_end (rv g1) (rv a) s2"
    using loop by (simp add: bindS_result(1))
  finally show ?thesis
    using assms(5,6) s2(2-4) s1(3,4)
    by (simp add: writer_end_def run_simps obs_simps fmt_d_def fmt_u_def radix.simps) (simp add: s0_def obs_simps)
qed


subsection \<open>The reader\<close>

text \<open>The replies of one iteration of the reader that does not see the flag.\<close>

definition look :: "reply list \<Rightarrow> bool" where
  "look rs \<longleftrightarrow> length rs = 5 \<and> out_int 0 (rs ! 0) \<noteq> 1 \<and> out_int 0 (rs ! 2) \<noteq> -1"

definition look_text :: "reply list \<Rightarrow> string" where
  "look_text rs = ''segment contains : \<newline>'' @ [CHR 0x22] @ cstr (bytes (rs ! 1)) @ [CHR 0x22, NL] @
     ''Reading Process: Shared Memory: Read '' @ fmt_d (out_int 0 (rs ! 3)) @ '' bytes\<newline>''"

lemma reader_looks:
  assumes "answers s = rs @ rest" "look rs"
  shows "\<exists>s'. reader_body shmp s = (Ret True, s') \<and> answers s' = rest \<and> printed s' = printed s @ look_text rs"
proof -
  from assms(2) obtain a b c d e where "rs = [a, b, c, d, e]"
    by (auto simp: look_def numeral_eq_Suc length_Suc_conv)
  with assms show ?thesis
    by (simp add: look_def look_text_def reader_body_def run_simps obs_simps)
qed

lemma reader_loop_looks:
  assumes "answers s = concat rss @ rest" "list_all look rss"
  shows "\<exists>s'. reader_loop shmp s = reader_loop shmp s' \<and> answers s' = rest \<and>
    printed s' = printed s @ concat (map look_text rss)"
  using assms
proof (induction rss arbitrary: s)
  case Nil
  then show ?case by auto
next
  case (Cons rs rss)
  have rs: "answers s = rs @ concat rss @ rest" "look rs" "rs \<noteq> []"
    using Cons.prems by (auto simp: look_def)
  from reader_looks [OF rs(1,2), of shmp] obtain s1 where
    s1: "reader_body shmp s = (Ret True, s1)" "answers s1 = concat rss @ rest" "printed s1 = printed s @ look_text rs"
    by blast
  have "length (answers s1) < length (answers s)"
    using rs by (simp add: s1(2))
  then have "reader_loop shmp s = reader_loop shmp s1"
    using s1(1) unfolding reader_loop_def do_while_def bindS_def
    by (simp add: while_loop_next [where v' = True and s' = s1])
  with Cons.IH [OF s1(2)] Cons.prems(2) s1(3) show ?case
    by auto
qed

definition attached_text :: "reply \<Rightarrow> reply \<Rightarrow> string" where
  "attached_text g a = ''Reading Process: shmid = 0x'' @ fmt_x (rv g) @ '' shmaddr = 0x'' @ fmt_p (rv a) @ ''\<newline>''"

lemma reader_reaches:
  assumes "rv g \<noteq> -1" "rv a \<noteq> -1" "list_all look rss"
  shows "\<exists>s. reader (start m ([g, a] @ concat rss @ rest)) = bindS (reader_loop (rv a)) (\<lambda>_. reader_end (rv a)) s \<and>
    answers s = rest \<and> printed s = attached_text g a @ concat (map look_text rss)"
proof -
  define s0 where "s0 = flush_out (put_out (attached_text g a) (logged (Shmat (rv g)) a
    (logged (Shmget SHM_KEY1 SHMSEG_SIZE CREAT_0644) g (start m (g # a # concat rss @ rest)))))"
  have s0: "answers s0 = concat rss @ rest" "printed s0 = attached_text g a"
    by (simp_all add: s0_def obs_simps)
  have "reader (start m ([g, a] @ concat rss @ rest)) = bindS (reader_loop (rv a)) (\<lambda>_. reader_end (rv a)) s0"
    using assms(1,2) by (simp add: reader_def attached_text_def run_simps obs_simps s0_def bindS_skip)
  with reader_loop_looks [OF s0(1) assms(3), of "rv a"] s0(2) show ?thesis
    by (auto simp: bindS_def)
qed

text \<open>The reader prints the buffer once per look and stops at the first look at which the flag
  is 1: as long as it is not, the reader goes on, whatever else it sees. In particular it never
  ends when it attaches to a fresh segment after the writer has removed the old one.\<close>

theorem reader_ends_with_flag:
  assumes "rv g \<noteq> -1" "rv a \<noteq> -1" "list_all look rss"
  shows "fst (reader (start m ([g, a] @ concat rss))) = Blocked (Load_int (complete_at (rv a))) \<and>
    (out_int 0 c = 1 \<and> rv d \<noteq> -1 \<longrightarrow> (\<exists>s'. reader (start m ([g, a] @ concat rss @ [c, d])) = (Exited 0, s') \<and>
      written s' = attached_text g a @ concat (map look_text rss) @
        ''Reading Process: Reading Done, Detaching Shared Memory\<newline>Reading Process: Complete\<newline>''))"
proof (intro conjI impI)
  from reader_reaches [OF assms, of m "[]"] obtain s where
    "reader (start m ([g, a] @ concat rss)) = bindS (reader_loop (rv a)) (\<lambda>_. reader_end (rv a)) s" "answers s = []"
    by auto
  then show "fst (reader (start m ([g, a] @ concat rss))) = Blocked (Load_int (complete_at (rv a)))"
    by (simp add: reader_loop_def reader_body_def do_while_blocked bindS_result(5))
next
  assume c: "out_int 0 c = 1 \<and> rv d \<noteq> -1"
  from reader_reaches [OF assms, of m "[c, d]"] obtain s where
    s: "reader (start m ([g, a] @ concat rss @ [c, d])) = bindS (reader_loop (rv a)) (\<lambda>_. reader_end (rv a)) s"
      "answers s = [c, d]" "printed s = attached_text g a @ concat (map look_text rss)"
    by auto
  have "reader_loop (rv a) s = (Ret (), logged (Load_int (complete_at (rv a))) c s)"
    unfolding reader_loop_def reader_body_def
    using c s(2) by (intro do_while_done [where rs = "[d]"]) (auto simp: run_simps obs_simps)
  with s c show "\<exists>s'. reader (start m ([g, a] @ concat rss @ [c, d])) = (Exited 0, s') \<and>
      written s' = attached_text g a @ concat (map look_text rss) @
        ''Reading Process: Reading Done, Detaching Shared Memory\<newline>Reading Process: Complete\<newline>''"
    by (simp add: bindS_result(1) reader_end_def run_simps obs_simps)
qed

theorem reader_ends_with_flag_witness:
  "fst (reader (start Unbuffered ([rep 1, rep 4096] @ concat [[rep 0, rep 0, rep 0, rep 0, rep 0]]))) =
     Blocked (Load_int (complete_at (rv (rep 4096))))"
  using reader_ends_with_flag [of "rep 1" "rep 4096" "[[rep 0, rep 0, rep 0, rep 0, rep 0]]" Unbuffered]
  by (simp add: look_def out_int_def)

definition readback :: "int \<Rightarrow> reply list" where
  "readback ch = [rep 0, rep 0, (rep 0)\<lparr>bytes := replicate 1023 (char_of ch) @ [NUL]\<rparr>, rep 0, rep 0,
     (rep 0)\<lparr>outs := [1023]\<rparr>, rep 0]"

theorem writer_run_witness:
  "\<exists>s'. writer (start Unbuffered ([rep 1, rep 2, rep (-1), rep 4096] @ readback 65 @ readback 66 @
      [rep 0, rep 0, rep 0])) = (Exited 0, s')"
  using writer_run [of "rep 1" "rep 2" "rep (-1)" "rep 4096" "rep 0" "rep 0" "readback 65" "readback 66" Unbuffered "rep 0"]
  by (auto simp: readback_def fill_ok_def out_int_def)

end
