(* ===== verification/Memory.thy ===== *)
theory Memory
  imports Sys
begin

text \<open>
  Arrays whose elements may not have been set, and what a kernel with a state answers.

  An array of \<^verbatim>\<open>char\<close> with automatic storage is a list of optional bytes: \<open>None\<close> is a byte that
  nothing has stored yet. Printing a string reads bytes up to a NUL or up to the precision; reading
  a byte that was never set, or one past the end of the array, is undefined behaviour.

  \<open>served kstep k cs k'\<close> says that a kernel described by \<open>kstep\<close> can give a process the replies in
  the log \<open>cs\<close> of its calls, going from state \<open>k\<close> to \<open>k'\<close>.
\<close>

subsection \<open>Arrays\<close>

type_synonym memory = "char option list"

definition unset :: "nat \<Rightarrow> memory" where
  "unset n = replicate n None"

definition zeros :: "nat \<Rightarrow> memory" where
  "zeros n = replicate n (Some NUL)"

text \<open>\<open>poke i t m\<close>: the bytes \<open>t\<close> are stored from index \<open>i\<close> on.\<close>

definition poke :: "nat \<Rightarrow> string \<Rightarrow> memory \<Rightarrow> memory" where
  "poke i t m = take i m @ map Some t @ drop (i + length t) m"

text \<open>\<open>scan n m\<close>: the text \<^verbatim>\<open>%.*s\<close> takes from \<open>m\<close> with precision \<open>n\<close>; \<open>scan_all\<close> is \<^verbatim>\<open>%s\<close>.\<close>

fun scan :: "nat \<Rightarrow> memory \<Rightarrow> string option" where
  "scan 0 m = Some []"
| "scan (Suc n) [] = None"
| "scan (Suc n) (None # m) = None"
| "scan (Suc n) (Some c # m) = (if c = NUL then Some [] else map_option (Cons c) (scan n m))"

definition scan_all :: "memory \<Rightarrow> string option" where
  "scan_all m = scan (Suc (length m)) m"

text \<open>\<open>with_value x f\<close>: \<open>f\<close> on the value \<open>x\<close> that was read from an array.\<close>

definition unset_byte :: string where
  "unset_byte = ''reads a byte that was never set''"

definition with_value :: "'b option \<Rightarrow> ('b \<Rightarrow> 'a stm) \<Rightarrow> 'a stm" where
  "with_value x f = (case x of None \<Rightarrow> undefined_behaviour unset_byte | Some t \<Rightarrow> f t)"

text \<open>The values of \<open>n\<close> bytes from index \<open>i\<close> on, and numbers made of bytes, most or least significant first.\<close>

definition byte_vals :: "memory \<Rightarrow> nat \<Rightarrow> nat \<Rightarrow> nat list option" where
  "byte_vals m i n = (if i + n \<le> length m then those (map (map_option of_char) (take n (drop i m))) else None)"

definition be_val :: "nat list \<Rightarrow> nat" where
  "be_val bs = foldl (\<lambda>v b. 256 * v + b) 0 bs"

definition le_val :: "nat list \<Rightarrow> nat" where
  "le_val bs = be_val (rev bs)"

definition raw_val :: "bool \<Rightarrow> nat list \<Rightarrow> nat" where
  "raw_val big_endian bs = (if big_endian then be_val bs else le_val bs)"

lemma with_value_run [run_simps]:
  "with_value x f s = (case x of None \<Rightarrow> (Undefined unset_byte, s) | Some t \<Rightarrow> f t s)"
  "bindS (with_value x f) g s = (case x of None \<Rightarrow> (Undefined unset_byte, s) | Some t \<Rightarrow> bindS (f t) g s)"
  by (simp_all add: with_value_def run_simps split: option.split)

lemma well_defined_with_value [defined_intros]:
  "unset_byte \<in> W \<or> x \<noteq> None \<Longrightarrow> (\<And>t. well_defined W (f t)) \<Longrightarrow> well_defined W (with_value x f)"
  by (auto simp: with_value_def intro: defined_intros split: option.split)

lemma length_unset [simp]: "length (unset n) = n" "length (zeros n) = n"
  by (simp_all add: unset_def zeros_def)

lemma length_poke: "i + length t \<le> length m \<Longrightarrow> length (poke i t m) = length m"
  by (simp add: poke_def)

lemma poke_nil [simp]: "poke i [] m = m"
  by (simp add: poke_def)

text \<open>Storing a text in two adjacent parts is storing it at once.\<close>

lemma poke_append: "i + length t \<le> length m \<Longrightarrow> poke (i + length t) u (poke i t m) = poke i (t @ u) m"
  by (simp add: poke_def ac_simps)

lemma cstr_id: "NUL \<notin> set t \<Longrightarrow> cstr t = t"
  by (auto simp: cstr_def takeWhile_eq_all_conv)

lemma those_map_Some: "those (map Some xs) = Some xs"
  by (induction xs) simp_all

lemma byte_vals_stored:
  "i + n \<le> length t \<Longrightarrow> byte_vals (map Some t @ m) i n = Some (map of_char (take n (drop i t)))"
  using those_map_Some [of "map of_char (take n (drop i t))"]
  by (simp add: byte_vals_def take_map drop_map comp_def)

lemma scan_map: "scan n (map Some t @ m) =
    (if NUL \<in> set (take n t) then Some (cstr t)
     else if n \<le> length t then Some (take n t) else map_option (\<lambda>u. t @ u) (scan (n - length t) m))"
proof (induction t arbitrary: n)
  case Nil
  then show ?case by (cases n; cases "scan n m") simp_all
next
  case (Cons c t)
  then show ?case
    by (cases n) (auto simp: cstr_def option.map_comp comp_def)
qed

lemma scan_within: "n \<le> length t \<Longrightarrow> scan n (map Some t @ m) = Some (cstr (take n t))"
  by (induction t arbitrary: n) (auto simp: cstr_def take_Cons' gr0_conv_Suc)

lemma scan_poke: "n \<le> length t \<Longrightarrow> scan n (poke 0 t m) = Some (cstr (take n t))"
  by (simp add: poke_def scan_within)

lemma scan_string: "NUL \<notin> set t \<Longrightarrow> length t < n \<Longrightarrow> scan n (map Some t @ Some NUL # m) = Some t"
proof -
  assume "NUL \<notin> set t" "length t < n"
  moreover then obtain k where "n - length t = Suc k"
    by (metis Suc_diff_Suc)
  ultimately show ?thesis
    using set_take_subset [of n t] by (auto simp: scan_map)
qed

lemma scan_all_string: "NUL \<notin> set t \<Longrightarrow> scan_all (map Some t @ Some NUL # m) = Some t"
  by (simp add: scan_all_def scan_string)

lemma scan_unset: "0 < n \<Longrightarrow> scan n (unset k) = None"
  by (cases n; cases k) (simp_all add: unset_def)

text \<open>Text followed by bytes that were never set.\<close>

lemma scan_partly:
  assumes "length t \<le> n"
  shows "scan n (map Some t @ None # m) =
    (if NUL \<in> set t then Some (cstr t) else if length t = n then Some t else None)"
proof -
  have "0 < n - length t \<Longrightarrow> scan (n - length t) (None # m) = None"
    by (cases "n - length t") simp_all
  with assms show ?thesis
    by (auto simp: scan_map)
qed

lemma scan_zeros: "0 < n \<Longrightarrow> 0 < k \<Longrightarrow> scan n (zeros k) = Some []"
  by (cases n; cases k) (simp_all add: zeros_def)

text \<open>Text read into an array that was all zero and is longer than the text.\<close>

lemma scan_all_zeros:
  assumes "length t < k"
  shows "scan_all (poke 0 t (zeros k)) = Some (cstr t)"
proof -
  have z: "drop (length t) (zeros k) = zeros (k - length t)"
    by (simp add: zeros_def)
  show ?thesis
  proof (cases "NUL \<in> set t")
    case True
    with assms show ?thesis
      by (simp add: scan_all_def poke_def z scan_map)
  next
    case False
    with assms show ?thesis
      using scan_zeros [of "Suc k - length t" "k - length t"]
      by (simp add: scan_all_def poke_def z scan_map cstr_id)
  qed
qed

subsection \<open>Numbers stored as bytes\<close>

text \<open>A 64-bit signed value, and a signed value of \<open>n\<close> bytes.\<close>

definition int64 :: "int \<Rightarrow> int" where
  "int64 v = (v + 9223372036854775808) mod 18446744073709551616 - 9223372036854775808"

definition signed_val :: "nat \<Rightarrow> nat \<Rightarrow> int" where
  "signed_val n v = (int v + 2 ^ (8 * n - 1)) mod 2 ^ (8 * n) - 2 ^ (8 * n - 1)"

primrec be_bytes :: "nat \<Rightarrow> nat \<Rightarrow> nat list" where
  "be_bytes 0 v = []"
| "be_bytes (Suc n) v = be_bytes n (v div 256) @ [v mod 256]"

definition raw_bytes :: "bool \<Rightarrow> nat \<Rightarrow> nat \<Rightarrow> nat list" where
  "raw_bytes big_endian n v = (if big_endian then be_bytes n v else rev (be_bytes n v))"

lemma length_be_bytes [simp]: "length (be_bytes n v) = n" "length (raw_bytes e n v) = n"
  by (induction n arbitrary: v) (simp_all add: raw_bytes_def)

lemma be_val_snoc: "be_val (bs @ [b]) = 256 * be_val bs + b"
  by (simp add: be_val_def)

lemma be_val_append: "be_val (xs @ ys) = be_val xs * 256 ^ length ys + be_val ys"
proof (induction ys rule: rev_induct)
  case (snoc y ys)
  then show ?case
    by (simp add: be_val_snoc flip: append_assoc)
qed (simp add: be_val_def)

lemma be_val_bound: "(\<And>b. b \<in> set bs \<Longrightarrow> b < 256) \<Longrightarrow> be_val bs < 256 ^ length bs"
proof (induction bs rule: rev_induct)
  case (snoc b bs)
  then have "be_val bs < 256 ^ length bs" "b < 256"
    by simp_all
  then show ?case
    by (simp add: be_val_snoc)
qed (simp add: be_val_def)

lemma be_val_bytes: "be_val (be_bytes n v) = v mod 256 ^ n"
proof (induction n arbitrary: v)
  case 0
  then show ?case by (simp add: be_val_def)
next
  case (Suc n)
  then show ?case
    by (simp add: be_val_snoc mod_mult2_eq [of v 256 "256 ^ n"])
qed

lemma raw_val_bytes: "v < 256 ^ n \<Longrightarrow> raw_val e (raw_bytes e n v) = v"
  by (simp add: raw_val_def raw_bytes_def le_val_def be_val_bytes)

lemma byte_bound: "b \<in> set (be_bytes n v) \<Longrightarrow> b < 256" "b \<in> set (raw_bytes e n v) \<Longrightarrow> b < 256"
proof -
  show "b \<in> set (be_bytes n v) \<Longrightarrow> b < 256" for b v
    by (induction n arbitrary: v) auto
  then show "b \<in> set (raw_bytes e n v) \<Longrightarrow> b < 256"
    by (auto simp: raw_bytes_def split: if_splits)
qed

lemma chars_of_raw: "map (of_char \<circ> char_of) (raw_bytes e n v) = raw_bytes e n v"
  by (rule map_idI) (use byte_bound(2) in auto)

lemma int64_mod: "- (2 ^ 63) \<le> v \<Longrightarrow> v < 2 ^ 63 \<Longrightarrow> int64 (int (nat (v mod 2 ^ 64))) = v"
  by (simp add: int64_def mod_add_left_eq)

lemma be_bytes_add: "be_bytes (m + n) v = be_bytes m (v div 256 ^ n) @ be_bytes n v"
  by (induction n arbitrary: v) (simp_all add: div_mult2_eq)

subsection \<open>Evaluation of nested statements\<close>

text \<open>With full buffering \<^verbatim>\<open>printf\<close> writes nothing.\<close>

lemma written_put_full: "bufmode s = FullyBuffered \<Longrightarrow> written (put_out t s) = written s"
  by (simp add: put_out_def written_def)

text \<open>\<open>eval_simps\<close> run a statement on a state whose replies are known.\<close>

lemma sys_eval:
  "sys c s = (case answers s of [] \<Rightarrow> (Blocked c, s) | r # _ \<Rightarrow> (Ret r, logged c r s))"
  "sysv c s = (case answers s of [] \<Rightarrow> (Blocked c, s) | r # _ \<Rightarrow> (Ret (rv r), logged c r s))"
  "do_call c s = (case answers s of [] \<Rightarrow> (Blocked c, s) | r # _ \<Rightarrow> (Ret (), logged c r s))"
  by (simp_all add: sysv_def do_call_def sys_def bindS_def ret_def skip_def split: list.split)

lemma perror_eval: "perror w s = (Ret (), noted (Perror w (errno s)) s)"
  "setbuf_null s = (Ret (), unbuffered s)"
  by (simp_all add: perror_def setbuf_null_def)

lemmas eval_simps = bindS_def sys_eval perror_eval plain_run yields_def with_value_run(1) if_run

subsection \<open>Statements that run to their end\<close>

text \<open>\<open>does m cs t\<close>: given the replies in \<open>cs\<close>, the statement \<open>m\<close> runs to its end, making just the calls in \<open>cs\<close> and
  printing \<open>t\<close>.\<close>

definition does :: "unit stm \<Rightarrow> (call \<times> reply) list \<Rightarrow> string \<Rightarrow> bool" where
  "does m cs t \<longleftrightarrow> (\<forall>s rest. answers s = map snd cs @ rest \<longrightarrow>
     (\<exists>s'. m s = (Ret (), s') \<and> answers s' = rest \<and> calls s' = calls s @ cs \<and> printed s' = printed s @ t))"

lemma doesI:
  fixes m :: "unit stm"
  assumes "\<And>s rest. answers s = map snd cs @ rest \<Longrightarrow>
    \<exists>s'. m s = (Ret (), s') \<and> answers s' = rest \<and> calls s' = calls s @ cs \<and> printed s' = printed s @ t"
  shows "does m cs t"
  using assms by (auto simp: does_def)

lemma doesE:
  assumes "does m cs t" "answers s = map snd cs @ rest"
  obtains s' where "m s = (Ret (), s')" "answers s' = rest" "calls s' = calls s @ cs" "printed s' = printed s @ t"
  using assms by (auto simp: does_def)

lemma does_basic:
  "does skip [] []" "does (printf t) [] t" "does fflush [] []" "does (do_call c) [(c, r)] []"
  by (auto simp: does_def eval_simps obs_simps)

lemma does_bindS:
  assumes "does m cs t" "does n cs' t'"
  shows "does (bindS m (\<lambda>_. n)) (cs @ cs') (t @ t')"
proof (rule doesI)
  fix s :: process and rest
  assume "answers s = map snd (cs @ cs') @ rest"
  with assms(1) obtain s1 where s1: "m s = (Ret (), s1)" "answers s1 = map snd cs' @ rest" "calls s1 = calls s @ cs" "printed s1 = printed s @ t"
    by (auto elim: doesE)
  with assms(2) obtain s2 where "n s1 = (Ret (), s2)" "answers s2 = rest" "calls s2 = calls s1 @ cs'" "printed s2 = printed s1 @ t'"
    by (auto elim: doesE)
  with s1 show "\<exists>s'. bindS m (\<lambda>_. n) s = (Ret (), s') \<and> answers s' = rest \<and> calls s' = calls s @ cs @ cs' \<and> printed s' = printed s @ t @ t'"
    by (simp add: bindS_result(1))
qed

lemma does_block:
  "does (block []) [] []"
  "does m cs t \<Longrightarrow> does (block ms) cs' t' \<Longrightarrow> does (block (m # ms)) (cs @ cs') (t @ t')"
  by (simp_all add: does_basic does_bindS)

text \<open>A \<^verbatim>\<open>for\<close> loop without a loop state does what its iterations do, one after the other.\<close>

lemma does_for_loop:
  assumes "\<And>i. lo \<le> i \<Longrightarrow> i < hi \<Longrightarrow> does (body i ()) (cs i) (t i)"
  shows "does (for_loop lo hi body ()) (concat (map cs [lo..hi - 1])) (concat (map t [lo..hi - 1]))"
  using assms
proof (induction "nat (hi - lo)" arbitrary: lo)
  case 0
  then show ?case
    by (simp add: for_loop_empty does_basic(1) [unfolded skip_def])
next
  case (Suc n)
  then have lt: "lo < hi" "n = nat (hi - (lo + 1))"
    by auto
  from Suc.hyps(1) [OF lt(2)] Suc.prems have "does (for_loop (lo + 1) hi body ())
      (concat (map cs [lo + 1..hi - 1])) (concat (map t [lo + 1..hi - 1]))"
    by simp
  from does_bindS [OF Suc.prems this] lt show ?case
    by (simp add: for_loop_step upto_rec1)
qed

lemma concat_nils [simp]: "concat (map (\<lambda>_. []) xs) = []"
  by (induction xs) simp_all

lemma block_append: "block (ms @ ns) = bindS (block ms) (\<lambda>_. block ns)"
  by (induction ms) (simp_all add: bindS_assoc bindS_ret)

lemma does_program:
  assumes "does (block ms) cs t"
  shows "\<exists>s'. block (ms @ [exit n]) (start m (map snd cs @ rest)) = (Exited n, s') \<and> answers s' = rest \<and> calls s' = cs \<and> written s' = t"
proof -
  obtain s1 where "block ms (start m (map snd cs @ rest)) = (Ret (), s1)" "answers s1 = rest" "calls s1 = cs" "printed s1 = t"
    using assms by (auto elim: doesE [where s = "start m (map snd cs @ rest)" and rest = rest] simp: obs_simps)
  then show ?thesis
    unfolding block_append by (simp add: bindS_def plain_run obs_simps)
qed

subsection \<open>Kernels with a state\<close>

primrec served :: "('k \<Rightarrow> call \<Rightarrow> reply \<Rightarrow> 'k \<Rightarrow> bool) \<Rightarrow> 'k \<Rightarrow> (call \<times> reply) list \<Rightarrow> 'k \<Rightarrow> bool" where
  "served kstep k [] k' \<longleftrightarrow> k' = k"
| "served kstep k (cr # cs) k' \<longleftrightarrow> (\<exists>k1. kstep k (fst cr) (snd cr) k1 \<and> served kstep k1 cs k')"

lemma served_append:
  "served kstep k (cs @ ds) k' \<longleftrightarrow> (\<exists>k1. served kstep k cs k1 \<and> served kstep k1 ds k')"
  by (induction cs arbitrary: k) auto

text \<open>An invariant of the kernel's steps holds after every log it serves.\<close>

lemma served_invariant:
  assumes "served kstep k cs k'" "Inv k" "\<And>k c r k'. Inv k \<Longrightarrow> kstep k c r k' \<Longrightarrow> Inv k'"
  shows "Inv k'"
  using assms(1,2) by (induction cs arbitrary: k) (auto intro: assms(3))

text \<open>\<open>meets kstep k m s Q\<close>: when \<open>m\<close> is run on the process \<open>s\<close> with replies that come from the kernel in
  state \<open>k\<close>, its end, its final process and the kernel's final state satisfy \<open>Q\<close>. A run whose replies
  are used up is one that waits: a call the kernel cannot complete yet.\<close>

definition meets :: "('k \<Rightarrow> call \<Rightarrow> reply \<Rightarrow> 'k \<Rightarrow> bool) \<Rightarrow> 'k \<Rightarrow> 'a stm \<Rightarrow> process \<Rightarrow>
    ('a result \<Rightarrow> process \<Rightarrow> 'k \<Rightarrow> bool) \<Rightarrow> bool" where
  "meets kstep k m s Q \<longleftrightarrow> (\<forall>cs k'. calls (snd (m s)) = calls s @ cs \<longrightarrow> served kstep k cs k' \<longrightarrow>
     Q (fst (m s)) (snd (m s)) k')"

text \<open>Statements only append to the log.\<close>

named_theorems appends_intros

definition appends :: "'a stm \<Rightarrow> bool" where
  "appends m \<longleftrightarrow> (\<forall>s. \<exists>cs. calls (snd (m s)) = calls s @ cs)"

lemma appends_basic [appends_intros]:
  "appends (ret x)" "appends skip" "appends (printf t)" "appends fflush" "appends (perror t)" "appends (exit n)"
  "appends (sys c)" "appends (undefined_behaviour w)" "appends (signalled n)" "appends setbuf_null"
  by (auto simp: appends_def eval_simps obs_simps split: list.split)

lemma appends_bindS [appends_intros]:
  assumes "appends m" "\<And>x. appends (f x)"
  shows "appends (bindS m f)"
  unfolding appends_def
proof
  fix s
  obtain e s1 where m: "m s = (e, s1)"
    by (cases "m s")
  from assms(1) have c: "\<exists>cs. calls s1 = calls s @ cs"
    unfolding appends_def by (metis m snd_conv)
  show "\<exists>cs. calls (snd (bindS m f s)) = calls s @ cs"
  proof (cases "\<exists>x. e = Ret x")
    case True
    then obtain x where "e = Ret x"
      by blast
    with m have "bindS m f s = f x s1"
      by (simp add: bindS_def)
    with c assms(2) [of x] show ?thesis
      unfolding appends_def by (metis append.assoc)
  next
    case False
    with m have "snd (bindS m f s) = s1"
      by (cases e) (auto simp: bindS_def)
    with c show ?thesis
      by simp
  qed
qed

lemma appends_derived [appends_intros]:
  "appends (sysv c)" "appends (do_call c)" "appends (block [])"
  "appends m \<Longrightarrow> appends (block ms) \<Longrightarrow> appends (block (m # ms))"
  "appends (block ms) \<Longrightarrow> appends (only_if b ms)"
  "(b \<Longrightarrow> appends m) \<Longrightarrow> (\<not> b \<Longrightarrow> appends n) \<Longrightarrow> appends (if b then m else n)"
  "(\<And>t. appends (h t)) \<Longrightarrow> appends (with_value x h)"
  by (auto simp: sysv_def do_call_def only_if_def with_value_def split: option.split intro!: appends_intros)

lemma meets_mono: "meets kstep k m s Q \<Longrightarrow> (\<And>e s' k'. Q e s' k' \<Longrightarrow> Q' e s' k') \<Longrightarrow> meets kstep k m s Q'"
  by (simp add: meets_def)

text \<open>The first of two statements ends with a value or waits.\<close>

lemma meets_bindS:
  assumes "appends m" "\<And>x. appends (f x)"
    and "meets kstep k m s (\<lambda>e s' k'. (\<exists>x. e = Ret x \<and> meets kstep k' (f x) s' Q) \<or> (\<exists>c. e = Blocked c \<and> Q (Blocked c) s' k'))"
  shows "meets kstep k (bindS m f) s Q"
  unfolding meets_def
proof (intro allI impI)
  fix cs k'
  assume cs: "calls (snd (bindS m f s)) = calls s @ cs" "served kstep k cs k'"
  obtain e s1 where m: "m s = (e, s1)"
    by (cases "m s")
  with assms(1) obtain ds where ds: "calls s1 = calls s @ ds"
    unfolding appends_def by (metis snd_conv)
  have fs: "\<exists>es. calls (snd (f x s1)) = calls s @ ds @ es" for x
    using assms(2) [of x] ds unfolding appends_def by (metis append.assoc)
  consider (ret) x es where "bindS m f s = f x s1" "e = Ret x" "calls (snd (f x s1)) = calls s1 @ es"
    | (blocked) c where "bindS m f s = (Blocked c, s1)" "e = Blocked c" "ds = cs"
    | (other) "\<forall>x. e \<noteq> Ret x" "\<forall>c. e \<noteq> Blocked c" "ds = cs"
    using m ds cs(1) fs by (cases e) (force simp: bindS_def)+
  then show "Q (fst (bindS m f s)) (snd (bindS m f s)) k'"
  proof cases
    case ret
    with ds cs obtain k1 where "served kstep k ds k1" "served kstep k1 es k'"
      by (auto simp: served_append)
    with ret ds m assms(3) show ?thesis
      by (auto simp: meets_def)
  qed (use m ds cs assms(3) in \<open>auto simp: meets_def\<close>)
qed

lemma meets_call:
  assumes "appends (f r)" "answers s = r # rest" "\<And>k1. kstep k c r k1 \<Longrightarrow> meets kstep k1 (f r) (logged c r s) Q"
  shows "meets kstep k (bindS (sys c) f) s Q"
proof -
  from assms(1) obtain ds where ds: "calls (snd (f r (logged c r s))) = calls s @ (c, r) # ds"
    unfolding appends_def by (metis append.assoc append_Cons append_Nil logged_obs(7))
  have "bindS (sys c) f s = f r (logged c r s)"
    using assms(2) by (simp add: run_simps)
  with ds assms(3) show ?thesis
    by (auto simp: meets_def obs_simps)
qed

lemma meets_sys:
  assumes "\<And>r. appends (f r)" "answers s = [] \<Longrightarrow> Q (Blocked c) s k"
    and "\<And>r rest k1. answers s = r # rest \<Longrightarrow> kstep k c r k1 \<Longrightarrow> meets kstep k1 (f r) (logged c r s) Q"
  shows "meets kstep k (bindS (sys c) f) s Q"
proof (cases "answers s")
  case Nil
  then show ?thesis
    using assms(2) by (simp add: meets_def run_simps)
next
  case (Cons r rest)
  show ?thesis
    using assms(1) Cons by (rule meets_call) (use assms(3) Cons in blast)
qed

lemma meets_sysv:
  assumes "\<And>v. appends (g v)" "answers s = [] \<Longrightarrow> Q (Blocked c) s k"
    and "\<And>r rest k1. answers s = r # rest \<Longrightarrow> kstep k c r k1 \<Longrightarrow> meets kstep k1 (g (rv r)) (logged c r s) Q"
  shows "meets kstep k (bindS (sysv c) g) s Q"
  unfolding sysv_def bindS_assoc bindS_ret by (rule meets_sys) (use assms in auto)

lemma meets_do_call:
  assumes "appends (g ())" "answers s = [] \<Longrightarrow> Q (Blocked c) s k"
    and "\<And>r rest k1. answers s = r # rest \<Longrightarrow> kstep k c r k1 \<Longrightarrow> meets kstep k1 (g ()) (logged c r s) Q"
  shows "meets kstep k (bindS (do_call c) g) s Q"
  unfolding do_call_def bindS_assoc bindS_ret by (rule meets_sys) (use assms in auto)

lemma meets_simps:
  "meets kstep k (bindS (printf t) g) s Q = meets kstep k (g ()) (put_out t s) Q"
  "meets kstep k (bindS fflush g) s Q = meets kstep k (g ()) (flush_out s) Q"
  "meets kstep k (bindS (perror w) g) s Q = meets kstep k (g ()) (noted (Perror w (errno s)) s) Q"
  "meets kstep k (bindS (only_if b ms) g) s Q = meets kstep k (if b then bindS (block ms) g else g ()) s Q"
  "meets kstep k (bindS (with_value x h) g) s Q =
     (case x of None \<Rightarrow> Q (Undefined unset_byte) s k | Some t \<Rightarrow> meets kstep k (bindS (h t) g) s Q)"
  "meets kstep k (exit n) s Q = Q (Exited n) (flush_out s) k"
  "meets kstep k (ret v) s Q = Q (Ret v) s k"
  "meets kstep k skip s Q' = Q' (Ret ()) s k"
  by (auto simp: meets_def eval_simps obs_simps split: option.split)

subsection \<open>Error text, standard error, macros\<close>

text \<open>\<^verbatim>\<open>strerror(errno)\<close> depends on the C library and the locale: the text comes with the reply.\<close>

abbreviation "Strerror n \<equiv> Call ''strerror'' [I n]"

definition get_errno :: "int stm" where
  "get_errno s = (Ret (errno s), s)"

definition set_errno :: "int \<Rightarrow> unit stm" where
  "set_errno n s = (Ret (), s\<lparr>errno := n\<rparr>)"

definition strerror_errno :: "string stm" where
  "strerror_errno = bindS get_errno (\<lambda>n. bindS (sys (Strerror n)) (\<lambda>r. ret (bytes r)))"

definition fprintf_stderr :: "string \<Rightarrow> unit stm" where
  "fprintf_stderr t s = (Ret (), noted (Err t) s)"

text \<open>Which macros the headers of the build define.\<close>

type_synonym build = "string \<Rightarrow> bool"

lemma errno_run [run_simps]:
  "get_errno s = (Ret (errno s), s)"
  "bindS get_errno f s = f (errno s) s"
  "set_errno n s = (Ret (), s\<lparr>errno := n\<rparr>)"
  "bindS (set_errno n) g s = g () (s\<lparr>errno := n\<rparr>)"
  "fprintf_stderr t s = (Ret (), noted (Err t) s)"
  "bindS (fprintf_stderr t) g s = g () (noted (Err t) s)"
  by (simp_all add: bindS_def get_errno_def set_errno_def fprintf_stderr_def)

lemmas eval_errno = errno_run(1,3,5) strerror_errno_def

lemma errno_obs [obs_simps]:
  "answers (s\<lparr>errno := n\<rparr>) = answers s"
  "obuf (s\<lparr>errno := n\<rparr>) = obuf s"
  "bufmode (s\<lparr>errno := n\<rparr>) = bufmode s"
  "written (s\<lparr>errno := n\<rparr>) = written s"
  "printed (s\<lparr>errno := n\<rparr>) = printed s"
  "calls (s\<lparr>errno := n\<rparr>) = calls s"
  "printed (noted (Err t) s) = printed s"
  "written (noted (Err t) s) = written s"
  "calls (noted (Err t) s) = calls s"
  by (simp_all add: printed_def written_def calls_def noted_def)

lemma meets_errno:
  "meets kstep k (bindS get_errno f) s Q = meets kstep k (f (errno s)) s Q"
  "meets kstep k (bindS (set_errno n) g) s Q = meets kstep k (g ()) (s\<lparr>errno := n\<rparr>) Q"
  by (auto simp: meets_def run_simps errno_obs)

lemma appends_errno [appends_intros]:
  "appends get_errno" "appends (set_errno n)" "appends (fprintf_stderr t)" "appends strerror_errno"
  by (auto simp: strerror_errno_def intro!: appends_bindS appends_basic)
    (auto simp: appends_def run_simps errno_obs)

lemma errno_logged [obs_simps]: "errno (logged c r s) = (if rv r = -1 then err r else errno s)"
  by (simp add: logged_def)

lemma well_defined_errno [defined_intros]:
  "well_defined W get_errno" "well_defined W (set_errno n)" "well_defined W (fprintf_stderr t)"
  "well_defined W strerror_errno"
  by (auto simp: strerror_errno_def intro!: defined_intros)
    (simp_all add: well_defined_def get_errno_def set_errno_def fprintf_stderr_def)

end
