(* ===== verification/Clock.thy ===== *)
theory Clock
  imports Memory
begin

unbundle bit_operations_syntax

text \<open>
  \<^verbatim>\<open>clock.c\<close>: print the time and the resolution of the system's clocks, the last one a dynamic
  clock whose number is made from a file descriptor. A \<^verbatim>\<open>struct timespec\<close> is the two integers a
  call stores; \<^verbatim>\<open>tv_sec\<close> and \<^verbatim>\<open>tv_nsec\<close> are 64-bit.
\<close>

definition SECS_IN_DAY :: int where "SECS_IN_DAY = 24 * 60 * 60"

text \<open>The four parts of a time as the program computes them, with its casts to \<^verbatim>\<open>int\<close>.\<close>

definition days_of :: "int \<Rightarrow> int" where
  "days_of tv_sec = c_div tv_sec SECS_IN_DAY"

definition hours_of :: "int \<Rightarrow> int" where
  "hours_of tv_sec = c_div (int32 (c_rem tv_sec SECS_IN_DAY)) 3600"

definition minutes_of :: "int \<Rightarrow> int" where
  "minutes_of tv_sec = c_div (int32 (c_rem tv_sec 3600)) 60"

definition seconds_of :: "int \<Rightarrow> int" where
  "seconds_of tv_sec = c_rem (int32 tv_sec) 60"

definition fmt_2d :: "int \<Rightarrow> string" where
  "fmt_2d i = pad_left CHR '' '' 2 (fmt_d i)"

definition fmt_08lx :: "int \<Rightarrow> string" where
  "fmt_08lx i = pad_left CHR ''0'' 8 (fmt_lx i)"

definition time_text :: "string \<Rightarrow> int \<Rightarrow> int \<Rightarrow> string" where
  "time_text name tv_sec tv_nsec =
     pad_right 15 name @ '': ['' @ fmt_08lx tv_sec @ '','' @ fmt_08lx tv_nsec @ ''] '' @
     pad_left CHR '' '' 10 (fmt_d tv_sec) @ ''.'' @ fmt_0d 3 (c_div tv_nsec 1000000) @ '' ('' @
     (if days_of tv_sec > 0 then fmt_d (days_of tv_sec) @ '' days + '' else []) @
     fmt_2d (hours_of tv_sec) @ ''h '' @ fmt_2d (minutes_of tv_sec) @ ''m '' @ fmt_2d (seconds_of tv_sec) @ ''s'' @
     '')\<newline>''"

definition resolution_text :: "int \<Rightarrow> int \<Rightarrow> string" where
  "resolution_text tv_sec tv_nsec = ''     resolution: '' @ pad_left CHR '' '' 10 (fmt_d tv_sec) @ ''.'' @
     fmt_0d 9 tv_nsec @ ''\<newline>''"

text \<open>The time is printed in up to four calls of \<^verbatim>\<open>printf\<close>; the text is the same.\<close>

definition displayClock :: "int \<Rightarrow> string \<Rightarrow> bool \<Rightarrow> unit stm" where
  "displayClock clock name showRes =
     bindS (sys (Clock_gettime clock)) (\<lambda>r. block [
       only_if (rv r = -1) [perror ''clock_gettime'', exit 1],
       printf (time_text name (out_int 0 r) (out_int 1 r)),
       bindS (sys (Clock_getres clock)) (\<lambda>q. block [
         only_if (rv q = -1) [perror ''clock_getres'', exit 1],
         only_if showRes [printf (resolution_text (out_int 0 q) (out_int 1 q))]])])"

text \<open>\<^verbatim>\<open>((~(clockid_t) (fd) << 3) | 3)\<close>, on 32 bits.\<close>

definition FD_TO_CLOCKID :: "32 word \<Rightarrow> 32 word" where
  "FD_TO_CLOCKID fd = (push_bit 3 (NOT fd)) OR 3"

text \<open>Two of the clocks are shown only when the headers define them.\<close>

definition clock_main :: "build \<Rightarrow> string list \<Rightarrow> unit stm" where
  "clock_main have_macro argv = (let showRes = argc argv > 1 in block [
     displayClock 0 ''CLOCK_REALTIME'' showRes,
     only_if (have_macro ''CLOCK_TAI'') [displayClock 11 ''CLOCK_TAI'' showRes],
     displayClock 1 ''CLOCK_MONOTONIC'' showRes,
     only_if (have_macro ''CLOCK_BOOTTIME'') [displayClock 7 ''CLOCK_BOOTTIME'' showRes],
     bindS (sysv (Open ''/dev/ptp0'' 2)) (\<lambda>fd.
       displayClock (sint (FD_TO_CLOCKID (word_of_int fd))) ''/dev/ptp0'' showRes),
     exit 0])"

subsection \<open>Days, hours, minutes, seconds\<close>

lemma split_time:
  fixes t :: int
  shows "t = 86400 * (t div 86400) + 3600 * (t mod 86400 div 3600) + 60 * (t mod 3600 div 60) + t mod 60"
    and "0 \<le> t mod 86400 div 3600" "t mod 86400 div 3600 < 24" "0 \<le> t mod 3600 div 60" "t mod 3600 div 60 < 60"
proof -
  let ?d = "t mod 86400" and ?h = "t mod 3600"
  have m: "?d mod 3600 = ?h" "?h mod 60 = t mod 60"
    by (rule mod_mod_cancel, simp)+
  have "t = 86400 * (t div 86400) + ?d"
    by (rule mult_div_mod_eq [symmetric])
  moreover have e: "?d = 3600 * (?d div 3600) + ?h" "?h = 60 * (?h div 60) + t mod 60"
    using mult_div_mod_eq [of 3600 ?d, symmetric] mult_div_mod_eq [of 60 ?h, symmetric] by (simp_all only: m)
  ultimately show "t = 86400 * (t div 86400) + 3600 * (?d div 3600) + 60 * (?h div 60) + t mod 60"
    by linarith
  show "0 \<le> ?d div 3600" "0 \<le> ?h div 60"
    by (simp_all add: pos_imp_zdiv_nonneg_iff)
  have "?d < 86400" "0 \<le> ?h" "?h < 3600" "0 \<le> t mod 60"
    by simp_all
  with e show "?d div 3600 < 24" "?h div 60 < 60"
    by linarith+
qed

text \<open>C36. Up to the year 2038 the line names the time: the parts are in range and add up to the
  number of seconds.\<close>

theorem clock_parts:
  assumes "0 \<le> t" "t < 2147483648"
  shows "t = 86400 * days_of t + 3600 * hours_of t + 60 * minutes_of t + seconds_of t \<and> 0 \<le> days_of t \<and>
    0 \<le> hours_of t \<and> hours_of t < 24 \<and> 0 \<le> minutes_of t \<and> minutes_of t < 60 \<and> 0 \<le> seconds_of t \<and> seconds_of t < 60"
proof -
  have "int32 t = t" "int32 (t mod 86400) = t mod 86400" "int32 (t mod 3600) = t mod 3600"
    using assms pos_mod_bound [of 86400 t] pos_mod_bound [of 3600 t] by (auto intro!: int32_id simp: int_limits)
  then have eqs: "days_of t = t div 86400" "hours_of t = t mod 86400 div 3600" "minutes_of t = t mod 3600 div 60" "seconds_of t = t mod 60"
    using assms by (simp_all add: days_of_def hours_of_def minutes_of_def seconds_of_def SECS_IN_DAY_def c_div_nonneg c_rem_nonneg)
  show ?thesis
    unfolding eqs by (intro conjI split_time) (simp_all add: pos_imp_zdiv_nonneg_iff assms)
qed

text \<open>From \<open>2 ^ 31\<close> seconds on, for the following 68 years, the printed seconds are zero or
  negative: the cast to \<^verbatim>\<open>int\<close> is applied before the remainder is taken.\<close>

theorem clock_seconds_wrap:
  assumes "2147483648 \<le> t" "t < 4294967296"
  shows "seconds_of t = - ((4294967296 - t) mod 60) \<and> hours_of t = t mod 86400 div 3600 \<and> minutes_of t = t mod 3600 div 60"
proof -
  have "(t + 2147483648) mod 4294967296 = (t - 2147483648 + 4294967296) mod 4294967296"
    by (simp add: ac_simps)
  also have "\<dots> = t - 2147483648"
    using assms by (simp only: mod_add_self2) (simp add: mod_pos_pos_trivial)
  finally have "int32 t = t - 4294967296"
    by (simp add: int32_def)
  moreover have "int32 (t mod 86400) = t mod 86400" "int32 (t mod 3600) = t mod 3600"
    using pos_mod_bound [of 86400 t] pos_mod_bound [of 3600 t] by (auto intro!: int32_id simp: int_limits)
  ultimately show ?thesis
    using assms by (simp add: hours_of_def minutes_of_def seconds_of_def SECS_IN_DAY_def c_div_nonneg c_rem_nonneg c_rem_neg)
qed

subsection \<open>The dynamic clock\<close>

lemma clockid_int: "push_bit 3 (NOT fd) OR 3 = 8 * (- fd - 1) + (3 :: int)"
proof -
  have "push_bit 3 (NOT fd) + 3 = push_bit 3 (NOT fd) OR (3 :: int)"
  proof (rule disjunctive_add)
    fix n
    have "(3 :: int) = mask 2"
      by (simp add: mask_eq_exp_minus_1)
    then have "bit (3 :: int) n \<longleftrightarrow> n < 2"
      by (simp only: bit_mask_iff) simp
    then show "\<not> bit (push_bit 3 (NOT fd)) n \<or> \<not> bit (3 :: int) n"
      by (auto simp: bit_push_bit_iff)
  qed
  then show ?thesis
    by (simp add: push_bit_eq_mult not_int_def)
qed

lemma FD_TO_CLOCKID_word: "FD_TO_CLOCKID (word_of_int fd) = word_of_int (8 * (- fd - 1) + 3)"
proof -
  have "FD_TO_CLOCKID (word_of_int fd) = word_of_int (push_bit 3 (NOT fd) OR 3)"
    unfolding FD_TO_CLOCKID_def by (rule bit_word_eqI) (auto simp: bit_simps)
  then show ?thesis
    by (simp only: clockid_int)
qed

text \<open>C37. The clock number of a descriptor is negative, has 3 in its low three bits, and gives the
  descriptor back as \<^verbatim>\<open>~(clock >> 3)\<close>.\<close>

theorem clockid_roundtrip:
  assumes "0 \<le> fd" "fd < 2 ^ 28"
  shows "let clk = sint (FD_TO_CLOCKID (word_of_int fd)) in clk < 0 \<and> clk mod 8 = 3 \<and> - (clk div 8) - 1 = fd"
proof -
  have "sint (FD_TO_CLOCKID (word_of_int fd)) = 8 * (- fd - 1) + 3"
    unfolding FD_TO_CLOCKID_word int_word_sint using assms by simp
  moreover have "(8 * (- fd - 1) + 3) mod 8 = 3" "(8 * (- fd - 1) + 3) div 8 = - fd - 1"
    by presburger+
  ultimately show ?thesis
    using assms by (simp only: Let_def) simp
qed

definition shown :: "int \<Rightarrow> string \<Rightarrow> bool \<Rightarrow> reply \<Rightarrow> reply \<Rightarrow> process \<Rightarrow> process" where
  "shown clock name showRes g q s =
     (let s1 = logged (Clock_getres clock) q (put_out (time_text name (out_int 0 g) (out_int 1 g))
         (logged (Clock_gettime clock) g s))
      in if showRes then put_out (resolution_text (out_int 0 q) (out_int 1 q)) s1 else s1)"

lemma shown_obs [obs_simps]:
  "answers (shown clock name showRes g q s) = drop 2 (answers s)"
  "calls (shown clock name showRes g q s) = calls s @ [(Clock_gettime clock, g), (Clock_getres clock, q)]"
  "printed (shown clock name showRes g q s) = printed s @ time_text name (out_int 0 g) (out_int 1 g) @
     (if showRes then resolution_text (out_int 0 q) (out_int 1 q) else [])"
  by (simp_all add: shown_def Let_def obs_simps numeral_eq_Suc drop_Suc)

lemma displayClock_run [run_simps]:
  "answers s = g # q # rest \<Longrightarrow> rv g \<noteq> -1 \<Longrightarrow> rv q \<noteq> -1 \<Longrightarrow>
     bindS (displayClock clock name showRes) k s = k () (shown clock name showRes g q s)"
  by (simp add: displayClock_def shown_def Let_def run_simps obs_simps)

text \<open>A clock that cannot be read ends the program with status 1 before anything is printed
  for it.\<close>

theorem displayClock_error:
  assumes "answers s = g # rest" "rv g = -1"
  shows "\<exists>s'. displayClock clock name showRes s = (Exited 1, s') \<and> written s' = printed s \<and> answers s' = rest"
  using assms by (simp add: displayClock_def run_simps obs_simps)

text \<open>The clocks the build knows, with the names under which they are shown.\<close>

definition known_clocks :: "build \<Rightarrow> (int \<times> string) list" where
  "known_clocks have_macro = (0, ''CLOCK_REALTIME'') # (if have_macro ''CLOCK_TAI'' then [(11, ''CLOCK_TAI'')] else []) @
     (1, ''CLOCK_MONOTONIC'') # (if have_macro ''CLOCK_BOOTTIME'' then [(7, ''CLOCK_BOOTTIME'')] else [])"

text \<open>When \<^verbatim>\<open>/dev/ptp0\<close> cannot be opened the program goes on with descriptor -1, whose clock
  number is 3, and prints the time of that clock (the thread's CPU time) under the device's name.\<close>

theorem clock_main_no_device:
  assumes "list_all (\<lambda>r. rv r \<noteq> -1) rs" "length rs = 2 * length (known_clocks have_macro)" "rv f = -1" "rv g \<noteq> -1" "rv q \<noteq> -1"
  shows "\<exists>s' before. clock_main have_macro argv (start m (rs @ [f, g, q])) = (Exited 0, s') \<and>
    map fst (calls s') = concat (map (\<lambda>(clk, name). [Clock_gettime clk, Clock_getres clk]) (known_clocks have_macro)) @
      [Open ''/dev/ptp0'' 2, Clock_gettime 3, Clock_getres 3] \<and>
    written s' = before @ time_text ''/dev/ptp0'' (out_int 0 g) (out_int 1 g) @
      (if argc argv > 1 then resolution_text (out_int 0 q) (out_int 1 q) else [])"
proof -
  have three: "sint (FD_TO_CLOCKID (word_of_int (-1))) = 3"
    by (simp only: FD_TO_CLOCKID_word) simp
  note run = clock_main_def known_clocks_def Let_def run_simps obs_simps three [simplified]
  consider "have_macro ''CLOCK_TAI''" "have_macro ''CLOCK_BOOTTIME''" | "have_macro ''CLOCK_TAI''" "\<not> have_macro ''CLOCK_BOOTTIME''"
    | "\<not> have_macro ''CLOCK_TAI''" "have_macro ''CLOCK_BOOTTIME''" | "\<not> have_macro ''CLOCK_TAI''" "\<not> have_macro ''CLOCK_BOOTTIME''"
    by blast
  then show ?thesis
  proof cases
    case 1
    with assms(2) obtain a b c d e f' g' h where "rs = [a, b, c, d, e, f', g', h]"
      by (auto simp: known_clocks_def numeral_eq_Suc length_Suc_conv)
    with 1 assms show ?thesis by (simp add: run)
  next
    case 2
    with assms(2) obtain a b c d e f' where "rs = [a, b, c, d, e, f']"
      by (auto simp: known_clocks_def numeral_eq_Suc length_Suc_conv)
    with 2 assms show ?thesis by (simp add: run)
  next
    case 3
    with assms(2) obtain a b c d e f' where "rs = [a, b, c, d, e, f']"
      by (auto simp: known_clocks_def numeral_eq_Suc length_Suc_conv)
    with 3 assms show ?thesis by (simp add: run)
  next
    case 4
    with assms(2) obtain a b c d where "rs = [a, b, c, d]"
      by (auto simp: known_clocks_def numeral_eq_Suc length_Suc_conv)
    with 4 assms show ?thesis by (simp add: run)
  qed
qed

subsection \<open>Examples of the hypotheses\<close>

theorem clock_parts_witness:
  "1700000000 = 86400 * days_of 1700000000 + 3600 * hours_of 1700000000 + 60 * minutes_of 1700000000 + seconds_of 1700000000"
  using clock_parts [of 1700000000] by simp

theorem clock_seconds_wrap_witness: "seconds_of 2147483648 = -8"
  using clock_seconds_wrap [of 2147483648] by simp

theorem clockid_roundtrip_witness:
  "let clk = sint (FD_TO_CLOCKID (word_of_int 5)) in clk < 0 \<and> clk mod 8 = 3 \<and> - (clk div 8) - 1 = 5"
  by (rule clockid_roundtrip) simp_all

theorem clock_main_no_device_witness:
  "\<exists>s'. clock_main (\<lambda>_. True) [''clock''] (start Unbuffered (replicate 8 (rep 0) @ [rep (-1), rep 0, rep 0])) = (Exited 0, s')"
  using clock_main_no_device [of "replicate 8 (rep 0)" "\<lambda>_. True" "rep (-1)" "rep 0" "rep 0" "[''clock'']" Unbuffered]
  by (auto simp: list_all_iff known_clocks_def)

end
