(* ===== verification/Sockets.thy ===== *)
theory Sockets
  imports Thread_Pool
begin

text \<open>
  \<^verbatim>\<open>socket.c\<close> and \<^verbatim>\<open>socketforkserver.c\<close>: a server that polls three client connections, as a
  thread of the clients' process or as a process of its own. The two servers differ in the
  condition of their poll loop, in the time-out, and in what they print.
\<close>

abbreviation PORT :: int where "PORT \<equiv> 8080"
abbreviation NUM_THREADS :: int where "NUM_THREADS \<equiv> 3"
abbreviation BUFFER_SIZE :: int where "BUFFER_SIZE \<equiv> 1024"
abbreviation TIMEOUT :: int where "TIMEOUT \<equiv> 5000"
abbreviation FS_TIMEOUT :: int where "FS_TIMEOUT \<equiv> 5000000"
abbreviation POLLIN :: int where "POLLIN \<equiv> 1"

text \<open>\<^verbatim>\<open>char buffer[BUFFER_SIZE] = {0}\<close>, and the buffer after a \<^verbatim>\<open>read\<close>.\<close>

definition zeroed :: string where
  "zeroed = replicate 1024 NUL"

definition received :: "string \<Rightarrow> reply \<Rightarrow> string" where
  "received buffer r = (if rv r > 0 then overwrite buffer (take (nat (rv r)) (bytes r)) else buffer)"

text \<open>\<^verbatim>\<open>printf("...%s\n", buffer)\<close>: the buffer has to contain a NUL byte.\<close>

definition print_buffer :: "string \<Rightarrow> string \<Rightarrow> unit stm" where
  "print_buffer prefix buffer =
     (if terminated buffer then printf (prefix @ cstr buffer @ ''\<newline>'')
      else undefined_behaviour ''the buffer has no end of string'')"

subsection \<open>The clients\<close>

definition client_talk :: "int \<Rightarrow> int \<Rightarrow> unit stm" where
  "client_talk thread_id sock = (let hello = ''Hello from client '' @ fmt_d thread_id;
       buffer = overwrite zeroed (hello @ [NUL]) in block [
     do_call (Sleep (6 - 2 * thread_id)),
     do_call (Send sock (cstr buffer)),
     print_buffer (''Client '' @ fmt_d thread_id @ '': Sent message: '') buffer,
     fflush,
     bindS (sys (Read sock BUFFER_SIZE)) (\<lambda>r.
       print_buffer (''Client '' @ fmt_d thread_id @ '': Received message: '') (received buffer r)),
     fflush,
     do_call (Close sock),
     printf (''Client '' @ fmt_d thread_id @ '': Closed socket\<newline>''),
     fflush])"

definition client_thread :: "int \<Rightarrow> unit stm" where
  "client_thread thread_id = bindS (sysv Socket) (\<lambda>sock.
     if sock < 0 then printf ''Socket creation error\<newline>''
     else bindS (sysv (Inet_pton ''127.0.0.1'')) (\<lambda>v.
     if v \<le> 0 then printf ''Invalid address / Address not supported\<newline>''
     else bindS (sysv (Connect sock PORT)) (\<lambda>v.
     if v < 0 then printf ''Connection failed\<newline>''
     else client_talk thread_id sock)))"

definition fs_client_thread :: "int \<Rightarrow> unit stm" where
  "fs_client_thread thread_id = bindS (sysv Socket) (\<lambda>sock.
     if sock < 0 then printf ''Socket creation error\<newline>''
     else bindS (sysv (Inet_pton ''127.0.0.1'')) (\<lambda>v.
     if v \<le> 0 then printf ''Invalid address / Address not supported\<newline>''
     else bindS (sysv (Connect sock PORT)) (\<lambda>v.
     if v < 0 then printf ''Connection failed\<newline>''
     else bindS (sys (Getpeername sock)) (\<lambda>p.
     if rv p < 0 then printf ''getpeername failed\<newline>''
     else block [
       printf (''Connected to '' @ bytes p @ '':'' @ fmt_d (out_int 0 p) @ ''\<newline>''),
       client_talk thread_id sock]))))"

subsection \<open>The server\<close>

text \<open>The variables of the poll loop: the receive buffer, the \<^verbatim>\<open>events\<close> fields of \<^verbatim>\<open>fds\<close>, the two
  counters, and whether the loop has been left with \<^verbatim>\<open>break\<close>.\<close>

record server =
  buffer :: string
  events :: "int list"
  num_open :: int
  timeouts :: int
  left :: bool

definition closefd :: "int \<Rightarrow> int \<Rightarrow> unit stm" where
  "closefd i fd = bindS (sysv (Close fd)) (\<lambda>v.
     if v = -1 then block [perror ''Error closing fd'',
       printf (''Error closing fd '' @ fmt_d i @ '' '' @ fmt_d fd @ ''\<newline>'')]
     else printf (''Closed fd '' @ fmt_d i @ '' '' @ fmt_d fd @ ''\<newline>''))"

definition fs_closefd :: "int \<Rightarrow> int \<Rightarrow> unit stm" where
  "fs_closefd i fd = bindS (sysv (Close fd)) (\<lambda>v.
     if v = -1 then block [perror ''Error closing fd'',
       printf (''Error closing fd '' @ fmt_d i @ '' '' @ fmt_d fd @ ''\<newline>''), fflush]
     else block [printf (''Closed fd '' @ fmt_d i @ '' '' @ fmt_d fd @ ''\<newline>''), fflush])"

text \<open>A descriptor that \<^verbatim>\<open>poll\<close> reports as readable.\<close>

definition read_client :: "(int \<Rightarrow> int \<Rightarrow> unit stm) \<Rightarrow> int \<Rightarrow> int \<Rightarrow> server \<Rightarrow> server stm" where
  "read_client close_it i fd v = bindS (sys (Read fd BUFFER_SIZE)) (\<lambda>r.
     let v = v\<lparr>buffer := received (buffer v) r\<rparr> in
     if rv r > 0 then yields [
       print_buffer (''Server: Received from client '' @ fmt_d (i + 1) @ '': '') (buffer v),
       fflush,
       do_call (Send fd ''Hello from server'')] v
     else if rv r = 0 then yields [
       printf (''Server: Received EOF from client '' @ fmt_d (i + 1) @ ''\<newline>''),
       close_it i fd,
       fflush] (v\<lparr>num_open := num_open v - 1\<rparr>)
     else ret v)"

definition server_fd :: "int list \<Rightarrow> reply \<Rightarrow> int \<Rightarrow> server \<Rightarrow> server stm" where
  "server_fd fds p i v = (let revents = out_int (nat i) p in
     if odd revents then read_client closefd i (fds ! nat i) v
     else if revents \<noteq> 0 then yields [
       printf (''Server: Polled 0x'' @ fmt_x revents @ '' from client '' @ fmt_d (i + 1) @ ''\<newline>''),
       fflush] (v\<lparr>events := (events v)[nat i := 0]\<rparr>)
     else ret v)"

definition fs_server_fd :: "int list \<Rightarrow> reply \<Rightarrow> int \<Rightarrow> server \<Rightarrow> server stm" where
  "fs_server_fd fds p i v = (let revents = out_int (nat i) p in
     if odd revents then read_client fs_closefd i (fds ! nat i) v
     else if revents \<noteq> 0 then ret (v\<lparr>events := (events v)[nat i := 0]\<rparr>)
     else ret v)"

text \<open>One iteration; \<open>handle\<close> is what is done per descriptor.\<close>

definition server_round :: "int \<Rightarrow> (reply \<Rightarrow> int \<Rightarrow> server \<Rightarrow> server stm) \<Rightarrow> int list \<Rightarrow> server \<Rightarrow> server stm" where
  "server_round timeout handle fds v = bindS (sys (Poll fds (events v) timeout)) (\<lambda>p.
     bindS fflush (\<lambda>_.
     bindS (if rv p < 0 then yields [perror ''Poll error'', exit 1] v
        else if rv p = 0 then yields [
          printf (''Server: Poll timed out. No data in '' @ fmt_d timeout @ '' ms\<newline>''),
          fflush] (v\<lparr>timeouts := timeouts v + 1\<rparr>)
        else for_loop 0 NUM_THREADS (handle p) v) (\<lambda>v.
     ret (v\<lparr>left := rv p = 3\<rparr>))))"

definition server_goes_on :: "server \<Rightarrow> bool" where
  "server_goes_on v \<longleftrightarrow> \<not> left v \<and> (num_open v > 0 \<or> timeouts v > 3)"

definition fs_server_goes_on :: "server \<Rightarrow> bool" where
  "fs_server_goes_on v \<longleftrightarrow> \<not> left v \<and> (num_open v > 0 \<and> timeouts v < 3)"

definition server_loop :: "int list \<Rightarrow> server \<Rightarrow> server stm" where
  "server_loop fds = while_loop server_goes_on (server_round TIMEOUT (server_fd fds) fds)"

definition fs_server_loop :: "int list \<Rightarrow> server \<Rightarrow> server stm" where
  "fs_server_loop fds = while_loop fs_server_goes_on (server_round FS_TIMEOUT (fs_server_fd fds) fds)"

definition accept_body :: "int \<Rightarrow> int \<Rightarrow> int list \<Rightarrow> int list stm" where
  "accept_body listener i fds = bindS (sysv (Accept listener)) (\<lambda>fd.
     if fd < 0 then yields [perror ''Accept failed'', exit 1] fds
     else ret (fds @ [fd]))"

definition initial_server :: server where
  "initial_server = \<lparr>buffer = zeroed, events = [POLLIN, POLLIN, POLLIN], num_open = 3, timeouts = 0, left = False\<rparr>"

text \<open>The server up to its loop, and after it.\<close>

definition server_end :: "int \<Rightarrow> unit stm" where
  "server_end listener = block [do_call (Close listener), printf ''Server: Done\<newline>'', fflush]"

definition serve :: "(int list \<Rightarrow> server \<Rightarrow> server stm) \<Rightarrow> unit stm" where
  "serve loop = bindS (sysv Socket) (\<lambda>listener. block [
     only_if (listener = 0) [perror ''Socket failed'', exit 1],
     bindS (sysv (Bind listener PORT)) (\<lambda>v. only_if (v < 0) [perror ''Bind failed'', exit 1]),
     bindS (sysv (Listen listener 3)) (\<lambda>v. only_if (v < 0) [perror ''Listen failed'', exit 1]),
     printf (''Server: Listening on port '' @ fmt_d PORT @ ''...\<newline>''),
     fflush,
     bindS (for_loop 0 NUM_THREADS (accept_body listener) []) (\<lambda>fds. block [
       printf ''Server: Accepted connections from all children\<newline>'',
       fflush,
       bindS (loop fds initial_server) (\<lambda>_. skip)]),
     server_end listener])"

definition server_thread :: "unit stm" where
  "server_thread = serve server_loop"

definition fs_server_thread :: "unit stm" where
  "fs_server_thread = serve fs_server_loop"

subsection \<open>The main programs\<close>

text \<open>The result of \<^verbatim>\<open>pthread_create\<close> is not checked: a thread that could not be created leaves its handle without a value
  (\<open>None\<close>), and joining it reads that.\<close>

definition handle_of :: "reply \<Rightarrow> int option" where
  "handle_of r = (if rv r = 0 then Some (out_int 0 r) else None)"

definition join_handle :: "int option \<Rightarrow> unit stm" where
  "join_handle h = (case h of None \<Rightarrow> undefined_behaviour ''the handle has no value'' | Some tid \<Rightarrow> do_call (Pthread_join tid))"

definition client_create_body :: "int \<Rightarrow> int option list \<Rightarrow> int option list stm" where
  "client_create_body i threads =
     bindS (sys (Pthread_create ''client_thread'' (i + 1))) (\<lambda>r. ret (threads @ [handle_of r]))"

definition socket_main :: "unit stm" where
  "socket_main =
     bindS (sys (Pthread_create ''server_thread'' 0)) (\<lambda>r. let server_tid = handle_of r in block [
       do_call (Sleep 1),
       bindS (for_loop 0 NUM_THREADS client_create_body []) (\<lambda>threads. block [
         printf (''Created '' @ fmt_d NUM_THREADS @ '' threads\<newline>''),
         fflush,
         join_handle server_tid,
         for_loop 0 NUM_THREADS (\<lambda>i _. join_handle (threads ! nat i)) ()]),
       printf (''All '' @ fmt_d NUM_THREADS @ '' threads done\<newline>''),
       fflush,
       exit 0])"

definition socketforkserver_main :: "unit stm" where
  "socketforkserver_main = bindS (sysv Fork) (\<lambda>cpid. block [
     only_if (cpid = -1) [perror ''fork failed'', exit (-1)],
     if cpid = 0 then fs_server_thread
     else block [
       do_call (Sleep 1),
       bindS (for_loop 0 NUM_THREADS client_create_body []) (\<lambda>threads. block [
         printf (''Created '' @ fmt_d NUM_THREADS @ '' threads\<newline>''),
         fflush,
         for_loop 0 NUM_THREADS (\<lambda>i _. join_handle (threads ! nat i)) ()]),
       printf (''All '' @ fmt_d NUM_THREADS @ '' child threads done\<newline>''),
       fflush,
       bindS (sys (Waitpid cpid WAIT_OPTS)) (\<lambda>r. block [
         only_if (rv r = -1) [perror ''Waitpid failed'', exit (-1)],
         report_status ''server '' (wstat r)]),
       printf ''Server fork done\<newline>'',
       fflush],
     exit 0])"

subsection \<open>Messages and stale bytes\<close>

lemma received_text:
  assumes "rv r = int (length msg)" "msg \<noteq> []" "bytes r = msg" "NUL \<notin> set msg"
  shows "cstr (received b r) = msg @ cstr (drop (length msg) b)"
    and "terminated (received b r) \<longleftrightarrow> terminated (drop (length msg) b)"
proof -
  have "received b r = msg @ drop (length msg) b"
    using assms(1-3) by (simp add: received_def overwrite_def)
  with assms(4) show "cstr (received b r) = msg @ cstr (drop (length msg) b)"
      "terminated (received b r) \<longleftrightarrow> terminated (drop (length msg) b)"
    by (auto simp: cstr_append terminated_def)
qed

text \<open>C33. A server that reads a message prints it followed by what an earlier, longer message has
  left in the buffer, answers, and keeps the buffer; a message that fills the whole buffer (1024
  bytes, which it asks for) has no end of string and printing it is undefined.\<close>

theorem read_client_message:
  assumes "answers s = r # a # rest" "rv r = int (length msg)" "msg \<noteq> []" "bytes r = msg" "NUL \<notin> set msg"
    and "length (buffer v) = 1024"
  shows "(terminated (drop (length msg) (buffer v)) \<longrightarrow>
      (\<exists>s' v'. read_client cl i fd v s = (Ret v', s') \<and> answers s' = rest \<and>
        calls s' = calls s @ [(Read fd BUFFER_SIZE, r), (Send fd ''Hello from server'', a)] \<and>
        printed s' = printed s @ ''Server: Received from client '' @ fmt_d (i + 1) @ '': '' @ msg @
          cstr (drop (length msg) (buffer v)) @ ''\<newline>'' \<and>
        v' = v\<lparr>buffer := msg @ drop (length msg) (buffer v)\<rparr>)) \<and>
    (length msg = 1024 \<longrightarrow> (\<exists>w. fst (read_client cl i fd v s) = Undefined w))"
proof -
  note t = received_text [OF assms(2-5), of "buffer v"]
  have "received (buffer v) r = msg @ drop (length msg) (buffer v)"
    using assms(2-4) by (simp add: received_def overwrite_def)
  moreover have "0 < rv r"
    using assms(2,3) by simp
  ultimately show ?thesis
    using t assms(1,6)
    by (auto simp: read_client_def Let_def print_buffer_def run_simps obs_simps terminated_def)
qed

lemma hello_buffer: "overwrite zeroed (t @ [NUL]) = t @ NUL # replicate (1023 - length t) NUL"
  by (simp add: overwrite_def zeroed_def)

text \<open>A client that is answered prints the server's 17 bytes followed by the end of its own
  greeting, which is two bytes longer: the number of the thread appears in a message the server
  never sent.\<close>

theorem client_talk_stale:
  assumes "answers s = a # b # r # c # rest" "1 \<le> i" "i \<le> NUM_THREADS" "rv r = 17" "bytes r = ''Hello from server''"
  shows "\<exists>s'. client_talk i sock s = (Ret (), s') \<and> answers s' = rest \<and>
    calls s' = calls s @ [(Sleep (6 - 2 * i), a), (Send sock (''Hello from client '' @ fmt_d i), b),
      (Read sock BUFFER_SIZE, r), (Close sock, c)] \<and>
    printed s' = printed s @ ''Client '' @ fmt_d i @ '': Sent message: Hello from client '' @ fmt_d i @ ''\<newline>'' @
      ''Client '' @ fmt_d i @ '': Received message: Hello from server '' @ fmt_d i @ ''\<newline>'' @
      ''Client '' @ fmt_d i @ '': Closed socket\<newline>''"
proof -
  define t where "t = ''Hello from client '' @ fmt_d i"
  define u where "u = '' '' @ fmt_d i"
  define z where "z = replicate (1023 - length t) NUL"
  define b where "b = overwrite zeroed (t @ [NUL])"
  have n: "NUL \<notin> set t" "NUL \<notin> set u" "NUL \<notin> set ''Hello from server''"
    using fmt_d_no_NUL [of i] by (simp_all add: t_def u_def NUL_def)
  have b: "b = t @ NUL # z"
    by (simp add: b_def z_def hello_buffer)
  have cb: "cstr b = t" "terminated b"
    unfolding b using n(1) by (rule cstr_append_NUL) (simp add: terminated_def)
  have "drop (length ''Hello from server'') b = u @ NUL # z"
    unfolding b by (simp add: t_def u_def)
  with received_text [of r "''Hello from server''" b] assms(4,5) n(3)
  have "cstr (received b r) = ''Hello from server'' @ cstr (u @ NUL # z)" "terminated (received b r)"
    by (simp_all add: terminated_def)
  with cstr_append_NUL [OF n(2)] have cr: "cstr (received b r) = ''Hello from server'' @ u" "terminated (received b r)"
    by simp_all
  have "client_talk i sock = block [
     do_call (Sleep (6 - 2 * i)), do_call (Send sock t),
     printf (''Client '' @ fmt_d i @ '': Sent message: '' @ t @ ''\<newline>''), fflush,
     bindS (sys (Read sock BUFFER_SIZE)) (\<lambda>r.
       print_buffer (''Client '' @ fmt_d i @ '': Received message: '') (received b r)),
     fflush, do_call (Close sock), printf (''Client '' @ fmt_d i @ '': Closed socket\<newline>''), fflush]"
    unfolding client_talk_def Let_def t_def [symmetric] b_def [symmetric]
    using cb by (simp add: print_buffer_def)
  then show ?thesis
    using assms(1) cr by (simp add: print_buffer_def run_simps obs_simps) (simp add: t_def u_def)
qed

subsection \<open>Time-outs\<close>

lemma round_timeout:
  assumes "answers s = p # rest" "rv p = 0"
  shows "\<exists>s'. server_round timeout handle fds v s = (Ret (v\<lparr>timeouts := timeouts v + 1, left := False\<rparr>), s') \<and> answers s' = rest"
  using assms by (simp add: server_round_def run_simps obs_simps)


lemma fs_timeouts:
  assumes "answers s = ps @ rest" "list_all (\<lambda>p. rv p = 0) ps" "timeouts v + int (length ps) = 3" "num_open v > 0" "\<not> left v"
  shows "\<exists>s'. fs_server_loop fds v s = (Ret (v\<lparr>timeouts := 3\<rparr>), s') \<and> answers s' = rest"
  using assms
proof (induction ps arbitrary: s v)
  case Nil
  then have "fs_server_loop fds v s = (Ret v, s)" "v\<lparr>timeouts := 3\<rparr> = v"
    by (simp_all add: fs_server_loop_def while_loop_stop fs_server_goes_on_def)
  with Nil show ?case
    by simp
next
  case (Cons p ps)
  let ?v = "v\<lparr>timeouts := timeouts v + 1, left := False\<rparr>"
  have p: "answers s = p # ps @ rest" "rv p = 0"
    using Cons.prems by simp_all
  from round_timeout [OF p] obtain s1 where
    s1: "server_round FS_TIMEOUT (fs_server_fd fds) fds v s = (Ret ?v, s1)" "answers s1 = ps @ rest"
    by blast
  have "fs_server_goes_on v"
    using Cons.prems by (simp add: fs_server_goes_on_def)
  then have step: "fs_server_loop fds v s = fs_server_loop fds ?v s1"
    unfolding fs_server_loop_def using s1 p by (intro while_loop_next) auto
  from Cons.IH [OF s1(2), of ?v] Cons.prems obtain s' where
    "fs_server_loop fds ?v s1 = (Ret (?v\<lparr>timeouts := 3\<rparr>), s')" "answers s' = rest"
    by auto
  moreover have "?v\<lparr>timeouts := 3\<rparr> = v\<lparr>timeouts := 3\<rparr>"
    using Cons.prems(5) by simp
  ultimately show ?case
    unfolding step by auto
qed


lemma accepts:
  assumes "answers s = a # b # c # rest" "rv a \<ge> 0" "rv b \<ge> 0" "rv c \<ge> 0"
  shows "bindS (for_loop 0 NUM_THREADS (accept_body listener) []) k s =
    k [rv a, rv b, rv c] (logs (Accept listener) [a, b, c] s)"
  using assms by (simp add: for_loop_step for_loop_empty accept_body_def run_simps obs_simps)

text \<open>C25. \<^verbatim>\<open>socketforkserver.c\<close>: a server whose clients have connected and then say nothing ends after
  three time-outs and closes its socket.\<close>

theorem fs_server_gives_up:
  assumes "rv l > 0" "rv b \<ge> 0" "rv n \<ge> 0" "length as = 3" "list_all (\<lambda>a. rv a \<ge> 0) as"
    and "length ps = 3" "list_all (\<lambda>p. rv p = 0) ps"
  shows "\<exists>s'. fs_server_thread (start m ([l, b, n] @ as @ ps @ [c])) = (Ret (), s') \<and> answers s' = [] \<and>
    last (calls s') = (Close (rv l), c)"
proof -
  from assms(4) obtain a1 a2 a3 where as: "as = [a1, a2, a3]"
    by (auto simp: numeral_eq_Suc length_Suc_conv)
  let ?fds = "[rv a1, rv a2, rv a3]"
  define s0 where "s0 = flush_out (put_out ''Server: Accepted connections from all children\<newline>''
    (logs (Accept (rv l)) as (flush_out (put_out (''Server: Listening on port '' @ fmt_d PORT @ ''...\<newline>'')
    (logged (Listen (rv l) 3) n (logged (Bind (rv l) PORT) b (logged Socket l (start m ([l, b, n] @ as @ ps @ [c])))))))))"
  have s0: "answers s0 = ps @ [c]"
    by (simp add: s0_def as obs_simps)
  from fs_timeouts [OF s0 assms(7), of initial_server ?fds] assms(6) obtain s1 where
    s1: "fs_server_loop ?fds initial_server s0 = (Ret (initial_server\<lparr>timeouts := 3\<rparr>), s1)" "answers s1 = [c]"
    by (auto simp: initial_server_def)
  have "fs_server_thread (start m ([l, b, n] @ as @ ps @ [c])) = bindS (fs_server_loop ?fds initial_server)
      (\<lambda>_. server_end (rv l)) s0"
    using assms(1-3,5)
    by (simp add: fs_server_thread_def serve_def run_simps obs_simps accepts as s0_def bindS_skip)
  also have "\<dots> = server_end (rv l) s1"
    using s1(1) by (simp add: bindS_result(1))
  finally show ?thesis
    using s1(2) by (simp add: server_end_def run_simps obs_simps)
qed

text \<open>Neither server notices that its socket could not be made: \<^verbatim>\<open>socket\<close> reports failure with
  -1, but they compare with 0; the next call gets -1 as its descriptor.\<close>

theorem server_socket_failure:
  assumes "rv l = -1" "rv b = -1"
  shows "\<exists>s'. server_thread (start m [l, b]) = (Exited 1, s') \<and>
    calls s' = [(Socket, l), (Bind (-1) PORT, b)] \<and>
    fs_server_thread (start m [l, b]) = (Exited 1, s')"
  using assms by (simp add: server_thread_def fs_server_thread_def serve_def run_simps obs_simps)

text \<open>\<^verbatim>\<open>socket.c\<close> joins its server whether or not it could be created.\<close>

lemma client_creates:
  assumes "answers s = a # b # c # rest"
  shows "bindS (for_loop 0 NUM_THREADS client_create_body []) k s = k [handle_of a, handle_of b, handle_of c]
    (logged (Pthread_create ''client_thread'' 3) c (logged (Pthread_create ''client_thread'' 2) b
      (logged (Pthread_create ''client_thread'' 1) a s)))"
  by (rule bindS_result(1)) (use assms in \<open>simp add: for_loop_step for_loop_empty client_create_body_def run_simps obs_simps\<close>)

theorem socket_main_uncreated:
  assumes "rv r \<noteq> 0" "length rs = 4"
  shows "fst (socket_main (start m (r # rs))) = Undefined ''the handle has no value''"
proof -
  obtain a b c d where "rs = [a, b, c, d]"
    using assms(2) by (auto simp: numeral_eq_Suc length_Suc_conv)
  moreover have "handle_of r = None"
    using assms(1) by (simp add: handle_of_def)
  ultimately show ?thesis
    by (simp add: socket_main_def Let_def join_handle_def client_creates run_simps obs_simps)
qed

subsection \<open>Closed connections\<close>

text \<open>A connection that has been closed after its end of file stays in \<^verbatim>\<open>fds\<close>; \<^verbatim>\<open>poll\<close> returns
  at once and reports it with \<^verbatim>\<open>POLLNVAL\<close> (0x20), whatever its \<^verbatim>\<open>events\<close> are.\<close>

definition invalid_reply :: "nat \<Rightarrow> reply" where
  "invalid_reply i = (rep 1)\<lparr>outs := [0, 0, 0][i := 0x20]\<rparr>"

definition polled_line :: "nat \<Rightarrow> string" where
  "polled_line i = ''Server: Polled 0x20 from client '' @ fmt_d (int i + 1) @ ''\<newline>''"

lemma round_invalid:
  assumes "answers s = invalid_reply i # rest" "i < 3"
  shows "\<exists>s'. server_round timeout (server_fd fds) fds v s = (Ret (v\<lparr>events := (events v)[i := 0], left := False\<rparr>), s') \<and>
      answers s' = rest \<and> printed s' = printed s @ polled_line i"
    and "\<exists>s'. server_round timeout (fs_server_fd fds) fds v s = (Ret (v\<lparr>events := (events v)[i := 0], left := False\<rparr>), s') \<and>
      answers s' = rest \<and> printed s' = printed s"
proof -
  have "i = 0 \<or> i = 1 \<or> i = 2"
    using assms(2) by auto
  moreover have "fmt_x 0x20 = ''20''"
    by code_simp
  ultimately show "\<exists>s'. server_round timeout (server_fd fds) fds v s = (Ret (v\<lparr>events := (events v)[i := 0], left := False\<rparr>), s') \<and>
      answers s' = rest \<and> printed s' = printed s @ polled_line i"
    "\<exists>s'. server_round timeout (fs_server_fd fds) fds v s = (Ret (v\<lparr>events := (events v)[i := 0], left := False\<rparr>), s') \<and>
      answers s' = rest \<and> printed s' = printed s"
    using assms(1)
    by (auto simp: server_round_def server_fd_def fs_server_fd_def invalid_reply_def polled_line_def out_int_def
        for_loop_step for_loop_empty run_simps obs_simps)
qed

text \<open>A loop that goes on with every reply \<open>p\<close> is still waiting for the next one after any number of
  them.\<close>

lemma while_spins:
  assumes "P v" "answers s = replicate n p" "\<And>v. P v \<Longrightarrow> cond v"
    and step: "\<And>v s rest. P v \<Longrightarrow> answers s = p # rest \<Longrightarrow>
      \<exists>v' s'. body v s = (Ret v', s') \<and> P v' \<and> answers s' = rest \<and> printed s' = printed s @ line"
    and wait: "\<And>v s. answers s = [] \<Longrightarrow> body v s = (Blocked (c v), s)"
  shows "\<exists>v' s'. while_loop cond body v s = (Blocked (c v'), s') \<and> printed s' = printed s @ concat (replicate n line)"
  using assms(1,2)
proof (induction n arbitrary: s v)
  case 0
  with wait [of s v] assms(3) show ?case
    by (auto simp: while_loop_out(3))
next
  case (Suc n)
  from step [of v s] Suc.prems obtain v' s1 where
    s1: "body v s = (Ret v', s1)" "P v'" "answers s1 = replicate n p" "printed s1 = printed s @ line"
    by auto
  have "while_loop cond body v s = while_loop cond body v' s1"
    using Suc.prems assms(3) s1 by (intro while_loop_next) auto
  with Suc.IH [of v' s1] s1 show ?case
    by simp
qed

text \<open>As long as another client is connected, both servers poll the closed descriptor again and
  again: no reply of this kind ends the loop or counts as a time-out. \<^verbatim>\<open>socket.c\<close> prints a line in
  every round.\<close>

theorem closed_client_spins:
  assumes "num_open v > 0" "\<not> left v" "timeouts v < 3" "i < 3" "answers s = replicate n (invalid_reply i)"
  shows "(\<exists>ev s'. server_loop fds v s = (Blocked (Poll fds ev TIMEOUT), s') \<and>
      printed s' = printed s @ concat (replicate n (polled_line i))) \<and>
    (\<exists>ev s'. fs_server_loop fds v s = (Blocked (Poll fds ev FS_TIMEOUT), s') \<and> printed s' = printed s)"
proof -
  let ?P = "\<lambda>v :: server. num_open v > 0 \<and> \<not> left v \<and> timeouts v < 3"
  have w: "server_round t h fds v s = (Blocked (Poll fds (events v) t), s)" if "answers s = []" for t h v s
    using that by (simp add: server_round_def run_simps)
  have "\<exists>(v' :: server) s'. server_loop fds v s = (Blocked (Poll fds (events v') TIMEOUT), s') \<and>
      printed s' = printed s @ concat (replicate n (polled_line i))"
    unfolding server_loop_def
  proof (rule while_spins [where P = ?P and p = "invalid_reply i" and c = "\<lambda>v. Poll fds (events v) TIMEOUT"])
    show "\<exists>v' s'. server_round TIMEOUT (server_fd fds) fds v s = (Ret v', s') \<and> ?P v' \<and> answers s' = rest \<and>
        printed s' = printed s @ (polled_line i)" if "?P v" "answers s = invalid_reply i # rest" for v s rest
      using round_invalid(1) [OF that(2) assms(4), of TIMEOUT fds v] that(1) by auto
  qed (use assms w in \<open>auto simp: server_goes_on_def\<close>)
  moreover have "\<exists>(v' :: server) s'. fs_server_loop fds v s = (Blocked (Poll fds (events v') FS_TIMEOUT), s') \<and>
      printed s' = printed s @ concat (replicate n [])"
    unfolding fs_server_loop_def
  proof (rule while_spins [where P = ?P and p = "invalid_reply i" and c = "\<lambda>v. Poll fds (events v) FS_TIMEOUT"])
    show "\<exists>v' s'. server_round FS_TIMEOUT (fs_server_fd fds) fds v s = (Ret v', s') \<and> ?P v' \<and> answers s' = rest \<and>
        printed s' = printed s @ []" if "?P v" "answers s = invalid_reply i # rest" for v s rest
      using round_invalid(2) [OF that(2) assms(4), of FS_TIMEOUT fds v] that(1) by auto
  qed (use assms w in \<open>auto simp: fs_server_goes_on_def\<close>)
  ultimately show ?thesis
    by auto
qed

subsection \<open>Examples of the hypotheses\<close>

theorem read_client_message_witness:
  "\<exists>s' v'. read_client closefd 0 5 initial_server (start Unbuffered [(rep 2)\<lparr>bytes := ''hi''\<rparr>, rep 17]) = (Ret v', s') \<and>
    printed s' = ''Server: Received from client '' @ fmt_d 1 @ '': hi\<newline>''"
proof -
  have z: "drop (Suc (Suc 0)) (buffer initial_server) = replicate 1022 NUL" "length (buffer initial_server) = 1024"
    by (simp_all add: initial_server_def zeroed_def)
  have "cstr (replicate n NUL) = []" for n
    by (cases n) (simp_all add: cstr_def)
  with z read_client_message [of "start Unbuffered [(rep 2)\<lparr>bytes := ''hi''\<rparr>, rep 17]" "(rep 2)\<lparr>bytes := ''hi''\<rparr>"
      "rep 17" "[]" "''hi''" initial_server closefd 0 5] show ?thesis
    by (auto simp: obs_simps terminated_def NUL_def)
qed

theorem client_talk_stale_witness:
  "\<exists>s'. client_talk 2 7 (start Unbuffered [rep 0, rep 19, (rep 17)\<lparr>bytes := ''Hello from server''\<rparr>, rep 0]) = (Ret (), s')"
  using client_talk_stale [of "start Unbuffered [rep 0, rep 19, (rep 17)\<lparr>bytes := ''Hello from server''\<rparr>, rep 0]"
      "rep 0" "rep 19" "(rep 17)\<lparr>bytes := ''Hello from server''\<rparr>" "rep 0" "[]" 2 7]
  by (auto simp: obs_simps)


theorem socket_main_uncreated_witness:
  "fst (socket_main (start Unbuffered [rep 11, rep 0, rep 0, rep 0, rep 0])) = Undefined ''the handle has no value''"
  by (rule socket_main_uncreated) simp_all

theorem closed_client_spins_witness:
  "\<exists>ev s'. server_loop [4, 5, 6] initial_server (start Unbuffered (replicate 9 (invalid_reply 1))) =
    (Blocked (Poll [4, 5, 6] ev TIMEOUT), s')"
  using closed_client_spins [of initial_server 1 "start Unbuffered (replicate 9 (invalid_reply 1))" 9 "[4, 5, 6]"]
  by (auto simp: initial_server_def obs_simps)

theorem fs_server_gives_up_witness:
  "\<exists>s'. fs_server_thread (start Unbuffered ([rep 3, rep 0, rep 0] @ [rep 4, rep 5, rep 6] @ [rep 0, rep 0, rep 0] @ [rep 0])) =
    (Ret (), s')"
  using fs_server_gives_up [of "rep 3" "rep 0" "rep 0" "[rep 4, rep 5, rep 6]" "[rep 0, rep 0, rep 0]" Unbuffered "rep 0"]
  by auto

end
