(* ===== verification/Robust_Lock.thy ===== *)
theory Robust_Lock
  imports Sys
begin

unbundle bit_operations_syntax

text \<open>
  \<^verbatim>\<open>threadlockfail.c\<close>: a thread takes a futex lock and dies, a second one tries to recover it.
  Accesses to the futex word are calls; a compare-and-exchange replies 1 when it has stored.
  \<^verbatim>\<open>fflush(file)\<close> is called with the global \<^verbatim>\<open>file\<close>, which \<^verbatim>\<open>main\<close> never sets (it has a
  variable of its own with that name): \<^verbatim>\<open>fflush(NULL)\<close> flushes every stream.

  \<open>lock\<close> is the address of the futex word, the first member of \<^verbatim>\<open>struct robust_futex\<close>, \<open>w\<close> the size of a pointer: the
  member \<^verbatim>\<open>list\<close> lies at \<open>lock + w\<close>. \<open>head\<close> is the address of \<^verbatim>\<open>robust_head\<close>, whose first member is the list.
\<close>

abbreviation FUTEX_OWNER_DIED_BIT :: nat where "FUTEX_OWNER_DIED_BIT \<equiv> 30" \<comment> \<open>0x40000000\<close>

text \<open>\<^verbatim>\<open>offsetof(struct robust_futex, futex)\<close>.\<close>

definition futex_offset :: int where "futex_offset = 0"

definition set_robust :: "int \<Rightarrow> int stm" where
  "set_robust head = sysv (Set_robust_list head)"

definition get_robust :: "reply stm" where
  "get_robust = sys (Get_robust_list 0)"

definition futex_wait :: "int \<Rightarrow> int \<Rightarrow> int stm" where
  "futex_wait addr val = sysv (Futex_wait addr val)"

definition futex_wake :: "int \<Rightarrow> int \<Rightarrow> int stm" where
  "futex_wake addr n = sysv (Futex_wake addr n)"

definition lock_body :: "int \<Rightarrow> int \<Rightarrow> bool stm" where
  "lock_body lock tid = bindS (sys (Cas lock 0 (int32 tid))) (\<lambda>r.
     if rv r \<noteq> 0 then ret False
     else bindS (futex_wait lock 0) (\<lambda>_. ret True))"

definition lock_acquire :: "int \<Rightarrow> int \<Rightarrow> int \<Rightarrow> unit stm" where
  "lock_acquire w head lock = bindS (sysv Pthread_self) (\<lambda>tid. block [
     do_while (lock_body lock tid),
     do_call (Store_int (lock + w) head),
     do_call (Store_int head (lock + w))])"

definition lock_release :: "int \<Rightarrow> unit stm" where
  "lock_release lock = block [do_call (Store_int lock 0), bindS (futex_wake lock 1) (\<lambda>_. skip)]"

definition thread1 :: "int \<Rightarrow> int \<Rightarrow> int \<Rightarrow> unit stm" where
  "thread1 w head lock = block [
     printf ''[t1] Registering robust list and acquiring lock\<newline>'',
     fflush,
     bindS (set_robust head) (\<lambda>_. skip),
     lock_acquire w head lock,
     printf ''[t1] Lock acquired, now simulating crash...\<newline>'',
     fflush,
     do_call (Sleep 1),
     printf ''[t1] Exiting without releasing lock!\<newline>'',
     fflush]"

definition thread2_end :: "int \<Rightarrow> unit stm" where
  "thread2_end lock = block [
     printf ''[t2] Successfully recovered and acquired lock.\<newline>'',
     fflush,
     lock_release lock,
     printf ''[t2] lock released\<newline>'',
     fflush]"

definition thread2 :: "int \<Rightarrow> int \<Rightarrow> int \<Rightarrow> unit stm" where
  "thread2 w head lock = block [
     do_call (Sleep 10),
     printf ''[t2] Trying to acquire lock after t1 died\<newline>'',
     fflush,
     bindS (sys (Load_int lock)) (\<lambda>val.
       only_if (bit (out_int 0 val) FUTEX_OWNER_DIED_BIT) [
         printf ''[t2] Detected owner died (FUTEX_OWNER_DIED). Cleaning up.\<newline>'',
         fflush,
         do_call (Store_int lock 0)]),
     lock_acquire w head lock,
     thread2_end lock]"

definition threadlockfail_main :: "unit stm" where
  "threadlockfail_main =
     bindS (sys (Pthread_create ''thread1'' 0)) (\<lambda>t1. block [
       do_call (Pthread_join (out_int 0 t1)),
       bindS (sys (Pthread_create ''thread2'' 0)) (\<lambda>t2. do_call (Pthread_join (out_int 0 t2))),
       exit 0])"

subsection \<open>Acquiring\<close>

text \<open>A failed attempt: the exchange is refused, then \<^verbatim>\<open>futex_wait\<close> returns.\<close>

lemma lock_retry:
  assumes "answers s = a # w # rest" "rv a = 0"
  shows "do_while (lock_body lock tid) s = do_while (lock_body lock tid)
    (logged (Futex_wait lock 0) w (logged (Cas lock 0 (int32 tid)) a s))"
proof -
  have "lock_body lock tid s = (Ret True, logged (Futex_wait lock 0) w (logged (Cas lock 0 (int32 tid)) a s))"
    using assms by (simp add: lock_body_def futex_wait_def run_simps obs_simps)
  then have "while_loop (\<lambda>b. b) (\<lambda>_. lock_body lock tid) True s = while_loop (\<lambda>b. b) (\<lambda>_. lock_body lock tid) True
      (logged (Futex_wait lock 0) w (logged (Cas lock 0 (int32 tid)) a s))"
    using assms by (intro while_loop_next) (simp_all add: obs_simps)
  then show ?thesis
    by (simp add: do_while_def bindS_def)
qed

definition attempts :: "(reply \<times> reply) list \<Rightarrow> reply list" where
  "attempts aws = concat (map (\<lambda>(a, w). [a, w]) aws)"

definition refused :: "reply \<times> reply \<Rightarrow> bool" where
  "refused aw \<longleftrightarrow> rv (fst aw) = 0"

lemma lock_retries:
  assumes "answers s = attempts aws @ rest" "list_all refused aws"
  shows "\<exists>s'. do_while (lock_body lock tid) s = do_while (lock_body lock tid) s' \<and> answers s' = rest \<and>
    printed s' = printed s"
  using assms
proof (induction aws arbitrary: s)
  case Nil
  then show ?case by (auto simp: attempts_def)
next
  case (Cons aw aws)
  obtain a w where aw: "aw = (a, w)"
    by (cases aw)
  with Cons.prems have a: "answers s = a # w # attempts aws @ rest" "rv a = 0"
    by (simp_all add: attempts_def refused_def)
  let ?s = "logged (Futex_wait lock 0) w (logged (Cas lock 0 (int32 tid)) a s)"
  have "answers ?s = attempts aws @ rest"
    using a(1) by (simp add: obs_simps)
  from Cons.IH [OF this] Cons.prems(2) lock_retry [OF a, of lock tid] show ?case
    by (auto simp: obs_simps)
qed

lemma lock_taken:
  assumes "answers s = attempts aws @ a # rest" "list_all refused aws" "rv a \<noteq> 0"
  shows "\<exists>s'. do_while (lock_body lock tid) s = (Ret (), s') \<and> answers s' = rest \<and> printed s' = printed s"
proof -
  from lock_retries [OF assms(1,2), of lock tid] obtain s1 where
    s1: "do_while (lock_body lock tid) s = do_while (lock_body lock tid) s1" "answers s1 = a # rest" "printed s1 = printed s"
    by blast
  have "do_while (lock_body lock tid) s1 = (Ret (), logged (Cas lock 0 (int32 tid)) a s1)"
    unfolding lock_body_def using s1(2) assms(3) by (intro do_while_done) (auto simp: run_simps obs_simps)
  with s1 show ?thesis
    by (simp add: obs_simps)
qed

lemma lock_refused:
  assumes "answers s = attempts aws" "list_all refused aws"
  shows "fst (bindS (do_while (lock_body lock tid)) k s) = Blocked (Cas lock 0 (int32 tid))"
proof -
  from lock_retries [of s aws "[]" lock tid] assms obtain s1 where
    "do_while (lock_body lock tid) s = do_while (lock_body lock tid) s1" "answers s1 = []"
    by auto
  then have "fst (do_while (lock_body lock tid) s) = Blocked (Cas lock 0 (int32 tid))"
    by (simp add: lock_body_def do_while_blocked)
  then show ?thesis
    by (auto simp: bindS_def split: prod.splits)
qed

text \<open>The second thread recovers the lock when the word it loads has the owner-died bit: it then
  clears the word and, after any number of refused attempts, takes and releases the lock. Without
  the bit it does not touch the word, and as long as the word stays taken, so that every exchange is
  refused, it never gets past \<^verbatim>\<open>lock_acquire\<close>.\<close>

theorem thread2_recovers_iff_died:
  assumes "list_all refused aws"
  shows "(bit (out_int 0 val) FUTEX_OWNER_DIED_BIT \<and> rv a \<noteq> 0 \<longrightarrow>
      (\<exists>s'. thread2 w head lock (start m ([z, val, st, me] @ attempts aws @ [a, x, y, r, v])) = (Ret (), s') \<and>
        printed s' = ''[t2] Trying to acquire lock after t1 died\<newline>'' @
          ''[t2] Detected owner died (FUTEX_OWNER_DIED). Cleaning up.\<newline>'' @
          ''[t2] Successfully recovered and acquired lock.\<newline>[t2] lock released\<newline>'')) \<and>
    (\<not> bit (out_int 0 val) FUTEX_OWNER_DIED_BIT \<longrightarrow>
      fst (thread2 w head lock (start m ([z, val, me] @ attempts aws))) = Blocked (Cas lock 0 (int32 (rv me))))"
proof (intro conjI impI)
  assume d: "bit (out_int 0 val) FUTEX_OWNER_DIED_BIT \<and> rv a \<noteq> 0"
  let ?rs = "attempts aws @ [a, x, y, r, v]"
  obtain s0 where s0: "thread2 w head lock (start m ([z, val, st, me] @ ?rs)) =
      bindS (do_while (lock_body lock (rv me))) (\<lambda>_. block [do_call (Store_int (lock + w) head),
        do_call (Store_int head (lock + w)), thread2_end lock]) s0" "answers s0 = ?rs"
      "printed s0 = ''[t2] Trying to acquire lock after t1 died\<newline>'' @
        ''[t2] Detected owner died (FUTEX_OWNER_DIED). Cleaning up.\<newline>''"
    using d by (simp add: thread2_def lock_acquire_def run_simps obs_simps bindS_skip)
  from lock_taken [OF s0(2) assms, of lock "rv me"] d obtain s1 where
    "do_while (lock_body lock (rv me)) s0 = (Ret (), s1)" "answers s1 = [x, y, r, v]" "printed s1 = printed s0"
    by auto
  with s0 show "\<exists>s'. thread2 w head lock (start m ([z, val, st, me] @ ?rs)) = (Ret (), s') \<and>
        printed s' = ''[t2] Trying to acquire lock after t1 died\<newline>'' @
          ''[t2] Detected owner died (FUTEX_OWNER_DIED). Cleaning up.\<newline>'' @
          ''[t2] Successfully recovered and acquired lock.\<newline>[t2] lock released\<newline>''"
    by (simp add: bindS_result(1) thread2_end_def lock_release_def futex_wake_def run_simps obs_simps)
next
  assume "\<not> bit (out_int 0 val) FUTEX_OWNER_DIED_BIT"
  then obtain s0 where "thread2 w head lock (start m ([z, val, me] @ attempts aws)) =
      bindS (do_while (lock_body lock (rv me))) (\<lambda>_. block [do_call (Store_int (lock + w) head),
        do_call (Store_int head (lock + w)), thread2_end lock]) s0" "answers s0 = attempts aws"
    by (simp add: thread2_def lock_acquire_def run_simps obs_simps bindS_skip)
  with lock_refused [OF _ assms] show "fst (thread2 w head lock (start m ([z, val, me] @ attempts aws))) =
      Blocked (Cas lock 0 (int32 (rv me)))"
    by simp
qed

lemma bit_int32: "n < 31 \<Longrightarrow> bit (int32 v) n \<longleftrightarrow> bit v n"
proof -
  assume n: "n < 31"
  have "take_bit 31 (int32 v) = take_bit 31 v"
    unfolding int32_def take_bit_eq_mod by (simp add: mod_diff_left_eq [symmetric] mod_mod_cancel)
  then show ?thesis
    using n by (metis bit_take_bit_iff)
qed

lemma lock_at_once:
  assumes "answers s = a # rest" "rv a \<noteq> 0"
  shows "bindS (do_while (lock_body lock tid)) k s = k () (logged (Cas lock 0 (int32 tid)) a s)"
proof -
  have "do_while (lock_body lock tid) s = (Ret (), logged (Cas lock 0 (int32 tid)) a s)"
    unfolding lock_body_def using assms by (intro do_while_done) (auto simp: run_simps obs_simps)
  then show ?thesis
    by (simp add: bindS_result(1))
qed

text \<open>What the first thread leaves in the word is the low half of its \<^verbatim>\<open>pthread_self\<close> handle, not a
  thread id: when nothing changes the word, the second thread sees an owner that died exactly when
  bit 30 of that handle happens to be set.\<close>

theorem owner_died_is_a_handle_bit:
  assumes "rv a \<noteq> 0" "out_int 0 val = int32 (rv me)"
  shows "(\<exists>s'. thread1 w head lock (start m [z, me, a, x, y, z']) = (Ret (), s') \<and>
      calls s' = [(Set_robust_list head, z), (Pthread_self, me), (Cas lock 0 (int32 (rv me)), a),
        (Store_int (lock + w) head, x), (Store_int head (lock + w), y), (Sleep 1, z')]) \<and>
    printed (snd (thread2 w head lock (start m [z, val]))) = ''[t2] Trying to acquire lock after t1 died\<newline>'' @
      (if bit (rv me) 30 then ''[t2] Detected owner died (FUTEX_OWNER_DIED). Cleaning up.\<newline>'' else [])"
proof
  note take = lock_at_once [OF _ assms(1)]
  show "\<exists>s'. thread1 w head lock (start m [z, me, a, x, y, z']) = (Ret (), s') \<and>
      calls s' = [(Set_robust_list head, z), (Pthread_self, me), (Cas lock 0 (int32 (rv me)), a),
        (Store_int (lock + w) head, x), (Store_int head (lock + w), y), (Sleep 1, z')]"
    by (simp add: thread1_def set_robust_def lock_acquire_def run_simps obs_simps take)
  show "printed (snd (thread2 w head lock (start m [z, val]))) = ''[t2] Trying to acquire lock after t1 died\<newline>'' @
      (if bit (rv me) 30 then ''[t2] Detected owner died (FUTEX_OWNER_DIED). Cleaning up.\<newline>'' else [])"
    using assms(2) by (simp add: thread2_def lock_acquire_def bit_int32 run_simps obs_simps)
qed

subsection \<open>The robust list\<close>

text \<open>The words a sequence of calls has stored, and the entries of the list that starts at \<open>e\<close> and ends where it is
  back at its head.\<close>

fun put_word :: "call \<Rightarrow> (int \<Rightarrow> int) \<Rightarrow> int \<Rightarrow> int" where
  "put_word (Call f [I a, I v]) mem = (if f = ''store_int'' then mem(a := v) else mem)"
| "put_word c mem = mem"

primrec entries :: "nat \<Rightarrow> (int \<Rightarrow> int) \<Rightarrow> int \<Rightarrow> int \<Rightarrow> int list" where
  "entries 0 mem head e = []"
| "entries (Suc n) mem head e = (if e = head then [] else e # entries n mem head (mem e))"

text \<open>C32. When the first thread ends, the robust list has one entry, the member \<^verbatim>\<open>list\<close> of the lock. The kernel adds
  \<^verbatim>\<open>futex_offset\<close> to the address of an entry to find its futex word; the program gives the offset of the word
  in the structure, not its distance from the entry, so that address is not the lock's word: nobody marks the
  lock as one whose owner died.\<close>

theorem robust_entry_misses_lock:
  assumes "rv a \<noteq> 0" "0 < w" "head \<noteq> lock + w" "1 < n"
  shows "\<exists>s'. thread1 w head lock (start m [z, me, a, x, y, z']) = (Ret (), s') \<and>
    (let mem = fold put_word (map fst (calls s')) mem0 in
      entries n mem head (mem head) = [lock + w] \<and> (\<forall>e \<in> set (entries n mem head (mem head)). e + futex_offset \<noteq> lock))"
proof -
  obtain k where n: "n = Suc (Suc k)"
    using assms(4) by (auto dest!: less_imp_Suc_add)
  show ?thesis
    using assms(1-3)
    by (simp add: thread1_def set_robust_def lock_acquire_def run_simps obs_simps lock_at_once n futex_offset_def)
qed

subsection \<open>Examples of the hypotheses\<close>

theorem thread2_recovers_iff_died_witness:
  "fst (thread2 8 128 64 (start Unbuffered ([rep 0, (rep 0)\<lparr>outs := [7]\<rparr>, rep 9] @ attempts [(rep 0, rep (-1))]))) =
    Blocked (Cas 64 0 (int32 (rv (rep 9))))"
proof -
  have "\<not> bit (7 :: int) 30"
    by (simp add: bit_iff_odd)
  then show ?thesis
    using thread2_recovers_iff_died [where aws = "[(rep 0, rep (-1))]" and val = "(rep 0)\<lparr>outs := [7]\<rparr>" and w = 8 and head = 128 and
      lock = 64 and m = Unbuffered and z = "rep 0" and me = "rep 9"]
    by (simp add: refused_def out_int_def)
qed

theorem owner_died_is_a_handle_bit_witness:
  "printed (snd (thread2 8 128 64 (start Unbuffered [rep 0, (rep 0)\<lparr>outs := [0x40000000]\<rparr>]))) =
    ''[t2] Trying to acquire lock after t1 died\<newline>[t2] Detected owner died (FUTEX_OWNER_DIED). Cleaning up.\<newline>''"
proof -
  have "bit (0x40000000 :: int) 30" "int32 0x40000000 = 0x40000000"
    by (simp add: bit_iff_odd, simp add: int32_def)
  then show ?thesis
    using owner_died_is_a_handle_bit [where a = "rep 1" and val = "(rep 0)\<lparr>outs := [0x40000000]\<rparr>" and me = "rep 0x40000000" and w = 8 and
      head = 128 and lock = 64 and m = Unbuffered and z = "rep 0"]
    by (simp add: out_int_def)
qed

theorem robust_entry_misses_lock_witness:
  "\<exists>s'. thread1 8 128 64 (start Unbuffered [rep 0, rep 7, rep 1, rep 0, rep 0, rep 0]) = (Ret (), s') \<and>
    (let mem = fold put_word (map fst (calls s')) (\<lambda>_. 0) in entries 5 mem 128 (mem 128) = [72])"
  using robust_entry_misses_lock [of "rep 1" 8 128 64 5 Unbuffered "rep 0" "rep 7" "rep 0" "rep 0" "rep 0" "\<lambda>_. 0"]
  by (auto simp: Let_def)

end
