(* ===== verification/Namespace.thy ===== *)
theory Namespace
  imports Wait_Loop
begin

text \<open>
  \<^verbatim>\<open>mkuidns.c\<close>: start a command as root of a new user namespace, in a new root directory. The
  child waits on a socket until the parent has written its user and group maps.
\<close>

subsection \<open>The program\<close>

definition CLONE_FLAGS :: int where
  "CLONE_FLAGS = 0x3C020011" \<comment> \<open>NEWIPC | NEWNS | NEWPID | NEWUSER | NEWUTS | SIGCHLD\<close>

abbreviation SIGTERM :: int where "SIGTERM \<equiv> 15"

text \<open>\<^verbatim>\<open>sprintf(bigenoughbuf, ...)\<close> into the 2000 bytes of \<^verbatim>\<open>bigenoughbuf\<close>.\<close>

definition sprintf_buf :: "string \<Rightarrow> (string \<Rightarrow> unit stm) \<Rightarrow> unit stm" where
  "sprintf_buf t k = (if length t < 2000 then k t else undefined_behaviour ''bigenoughbuf is too small'')"

definition check :: "call \<Rightarrow> unit stm list \<Rightarrow> unit stm" where
  "check c ms = bindS (sysv c) (\<lambda>v. only_if (v \<noteq> 0) ms)"

primrec print_args :: "nat \<Rightarrow> string list \<Rightarrow> unit stm" where
  "print_args 0 as = skip"
| "print_args (Suc k) as = (case as of [] \<Rightarrow> skip
     | a # as' \<Rightarrow> bindS (printf ('' '' @ a)) (\<lambda>_. print_args k as'))"

definition bind_mount :: "string \<Rightarrow> string \<Rightarrow> unit stm list \<Rightarrow> unit stm" where
  "bind_mount source target on_error = sprintf_buf target (\<lambda>target. block [
     do_call (Mkdir target 365),
     check (Mount source target) on_error])"

definition exec_command :: "string \<Rightarrow> string list \<Rightarrow> string list \<Rightarrow> unit stm" where
  "exec_command cmd cmdargs envp = block [
     printf ''\<newline>'',
     bindS (execve cmd cmdargs envp) (\<lambda>ret. only_if (ret \<noteq> 0) [perror ''mkuidns: Execve failed'', exit (-2)]),
     exit 15]"

definition run_command :: "string list \<Rightarrow> string list \<Rightarrow> unit stm" where
  "run_command cmdargs envp = (case cmdargs of [] \<Rightarrow> undefined_behaviour ''cmd is a null pointer''
     | cmd # _ \<Rightarrow> block [
       check (Access cmd 0) [perror ''mkuidns: cmd does not exist'', exit (-2)],
       check (Access cmd 1) [perror ''mkuidns: No execute access to cmd'', exit (-2)],
       print_args 10 cmdargs,
       exec_command cmd cmdargs envp])"

definition childfunc :: "int \<Rightarrow> string list \<Rightarrow> string list \<Rightarrow> unit stm" where
  "childfunc sock args envp = bindS (sys (Read sock 2)) (\<lambda>_.
     case args of [] \<Rightarrow> undefined_behaviour ''args[1] is past the end of argv''
     | rootdir # cmdargs \<Rightarrow> block [
       bind_mount ''/lib64'' (rootdir @ ''/lib64'') [perror ''mkuidns: Mount of lib64 failed'', exit 11],
       bind_mount ''/u06/dsg/mountasqemu'' (rootdir @ ''/qemu'') [perror ''mkuidns: Mount of qemu failed'', exit 12],
       bind_mount ''/proc'' (rootdir @ ''/proc'') [perror ''mkuidns: Mount of proc failed''],
       check (Chroot rootdir) [perror ''mkuidns: Chroot failed'', exit 22],
       check (Chdir ''/'') [perror ''mkuidns: Chdir to / failed'', exit 66],
       run_command cmdargs envp])"

text \<open>The line for a map file; the program always writes its first 11 bytes.\<close>

definition map_line :: "int \<Rightarrow> string" where
  "map_line v = ''0 '' @ fmt_0d 6 v @ '' 1\<newline>''"

definition proc_file :: "int \<Rightarrow> string \<Rightarrow> string" where
  "proc_file pid name = ''/proc/'' @ fmt_d pid @ ''/'' @ name"

definition write_proc :: "int \<Rightarrow> string \<Rightarrow> string \<Rightarrow> (int \<Rightarrow> unit stm) \<Rightarrow> unit stm" where
  "write_proc childpid name what fill = bindS (sysv (Open (proc_file childpid name) 1)) (\<lambda>fd. block [
     only_if (fd = -1) [printf (''unable to open '' @ what @ ''\<newline>''), do_call (Kill childpid SIGTERM), exit 2],
     fill fd,
     do_call (Close fd)])"

definition ended_text :: "status \<Rightarrow> string" where
  "ended_text st =
     (if WIFEXITED st then (if st \<noteq> 0 then ''child exited, status='' @ fmt_d (WEXITSTATUS st) @ ''\<newline>'' else [])
      else if WIFSIGNALED st then ''killed by signal '' @ fmt_d (WTERMSIG st) @ ''\<newline>''
      else if WIFSTOPPED st then ''stopped by signal '' @ fmt_d (WSTOPSIG st) @ ''\<newline>''
      else if WIFCONTINUED st then ''continued\<newline>''
      else [])"

definition mkuidns_parent :: "int \<Rightarrow> int \<Rightarrow> unit stm" where
  "mkuidns_parent childpid sock = block [
     write_proc childpid ''uid_map'' ''uid map'' (\<lambda>fd.
       bindS (sysv Getuid) (\<lambda>uid. do_call (Write fd (take 11 (map_line uid))))),
     write_proc childpid ''setgroups'' ''setgroups'' (\<lambda>fd. do_call (Write fd ''deny\<newline>'')),
     write_proc childpid ''gid_map'' ''gid map'' (\<lambda>fd.
       bindS (sysv Getgid) (\<lambda>gid. do_call (Write fd (take 11 (map_line gid))))),
     do_call (Write sock ''go''),
     bindS (sys (Waitpid childpid 0)) (\<lambda>r. block [
       only_if (rv r \<le> 0) [perror ''parent waitpid failed'', exit 1],
       only_if (ended_text (wstat r) \<noteq> []) [printf (ended_text (wstat r))],
       exit 0])]"

definition mkuidns_main :: "string list \<Rightarrow> unit stm" where
  "mkuidns_main argv = block [
     setbuf_null,
     bindS (sys Socketpair) (\<lambda>sockets. block [
       only_if (rv sockets < 0) [perror ''opening stream socket pair'', exit 1],
       bindS (sysv (Malloc 1048576)) (\<lambda>stack. only_if (stack = 0) [perror ''child stack alloc failed'', exit 1]),
       bindS (sysv (Clone CLONE_FLAGS (drop 1 argv))) (\<lambda>childpid. block [
         only_if (childpid = -1) [perror ''clone failed'', exit 1],
         mkuidns_parent childpid (out_int 1 sockets)])])]"

subsection \<open>The map lines\<close>

lemma radix_length: "0 < k \<Longrightarrow> length (radix 10 n) \<le> k \<longleftrightarrow> n < 10 ^ k"
proof (induction k arbitrary: n)
  case 0
  then show ?case by simp
next
  case (Suc k)
  show ?case
  proof (cases "n < 10")
    case True
    then have "n < 10 ^ Suc k"
      by (meson less_le_trans one_le_numeral power_increasing power_one_right le_add1 plus_1_eq_Suc self_le_power zero_less_Suc)
    with True show ?thesis
      by (subst radix.simps) simp
  next
    case False
    then have "length (radix 10 n) = Suc (length (radix 10 (n div 10)))"
      by (subst radix.simps) simp
    moreover have "length (radix 10 (n div 10)) \<le> k \<longleftrightarrow> n div 10 < 10 ^ k"
    proof (cases k)
      case 0
      with False show ?thesis
        by (simp add: Suc_le_eq [symmetric] not_less)
    qed (use Suc.IH in simp)
    moreover have "n div 10 < 10 ^ k \<longleftrightarrow> n < 10 ^ Suc k"
      by (simp add: div_less_iff_less_mult mult.commute)
    ultimately show ?thesis
      by simp
  qed
qed

text \<open>The 11 bytes written to a map file are the whole line exactly for ids below a million.\<close>

theorem map_line_complete:
  assumes "0 \<le> v"
  shows "take 11 (map_line v) = map_line v \<longleftrightarrow> v < 1000000"
proof -
  have "take 11 (map_line v) = map_line v \<longleftrightarrow> length (map_line v) \<le> 11"
    by (metis le_refl length_take min.absorb_iff2 take_all min_def)
  also have "\<dots> \<longleftrightarrow> length (radix 10 (nat v)) \<le> 6"
    using assms by (simp add: map_line_def fmt_0d_def length_pad_left fmt_u_def)
  also have "\<dots> \<longleftrightarrow> v < 1000000"
    using assms radix_length [of 6 "nat v"] by (simp add: nat_less_iff)
  finally show ?thesis .
qed

subsection \<open>Parent and child\<close>

lemma ended_text_exit:
  "ended_text (exit_status n) =
     (if n mod 256 = 0 then [] else ''child exited, status='' @ fmt_d (n mod 256) @ ''\<newline>'')"
proof -
  have "exit_status n = 0 \<longleftrightarrow> n mod 256 = 0"
    using exit_status_read [of n] exit_status_read [of 0] by (auto simp: exit_status_def)
  then show ?thesis
    using exit_status_read [of n] by (simp add: ended_text_def)
qed

text \<open>The parent: when every call succeeds it writes the user map, denies \<^verbatim>\<open>setgroups\<close>, writes the
  group map, and only then tells the child to go on; it exits 0 after the child has ended, and prints
  nothing when the child exited with 0.\<close>

theorem mkuidns_parent_run:
  assumes "rv f1 \<noteq> -1" "rv f2 \<noteq> -1" "rv f3 \<noteq> -1" "rv w > 0"
  shows "\<exists>s'. mkuidns_parent pid sock (start Unbuffered [f1, u, w1, c1, f2, w2, c2, f3, g, w3, c3, go, w]) = (Exited 0, s') \<and>
    map fst (calls s') = [
      Open (proc_file pid ''uid_map'') 1, Getuid, Write (rv f1) (take 11 (map_line (rv u))), Close (rv f1),
      Open (proc_file pid ''setgroups'') 1, Write (rv f2) ''deny\<newline>'', Close (rv f2),
      Open (proc_file pid ''gid_map'') 1, Getgid, Write (rv f3) (take 11 (map_line (rv g))), Close (rv f3),
      Write sock ''go'', Waitpid pid 0] \<and>
    written s' = ended_text (wstat w) \<and>
    (wstat w = exit_status n \<longrightarrow> ended_text (wstat w) =
      (if n mod 256 = 0 then [] else ''child exited, status='' @ fmt_d (n mod 256) @ ''\<newline>''))"
  using assms by (auto simp: mkuidns_parent_def write_proc_def run_simps obs_simps ended_text_exit)


lemma print_args_run:
  "\<exists>s'. bindS (print_args k as) g s = g () s' \<and> answers s' = answers s \<and> calls s' = calls s \<and>
     printed s' = printed s @ concat (map (\<lambda>a. '' '' @ a) (take k as))"
proof (induction k arbitrary: as s)
  case 0
  then show ?case by (auto simp: run_simps)
next
  case (Suc k)
  show ?case
  proof (cases as)
    case Nil
    then show ?thesis by (auto simp: run_simps)
  next
    case (Cons a as')
    then have "bindS (print_args (Suc k) as) g s = bindS (print_args k as') g (put_out ('' '' @ a) s)"
      by (simp add: bindS_assoc bindS_run)
    with Suc.IH [of as' "put_out ('' '' @ a) s"] Cons show ?thesis
      by (auto simp: obs_simps)
  qed
qed

text \<open>The child: before the parent's message it has done nothing at all; after it, when every call
  succeeds, it mounts the three directories below the new root, changes the root and only then runs
  the command with its arguments and the environment.\<close>

theorem childfunc_run:
  assumes "length rs = 10" "list_all (\<lambda>r. rv r = 0) rs" "rv e \<noteq> -1" "length root < 1900"
  shows "childfunc sock (root # cmd # as) envp (start m []) = (Blocked (Read sock 2), start m []) \<and>
    (\<exists>s'. childfunc sock (root # cmd # as) envp (start Unbuffered (g # rs @ [e])) = (Replaced cmd (cmd # as) envp, s') \<and>
      map fst (calls s') = [Read sock 2, Mkdir (root @ ''/lib64'') 365, Mount ''/lib64'' (root @ ''/lib64''),
        Mkdir (root @ ''/qemu'') 365, Mount ''/u06/dsg/mountasqemu'' (root @ ''/qemu''),
        Mkdir (root @ ''/proc'') 365, Mount ''/proc'' (root @ ''/proc''),
        Chroot root, Chdir ''/'', Access cmd 0, Access cmd 1, Execve cmd (cmd # as) envp])"
proof
  show "childfunc sock (root # cmd # as) envp (start m []) = (Blocked (Read sock 2), start m [])"
    by (simp add: childfunc_def run_simps obs_simps)
  from assms(1) obtain a b c d e1 f h i j k where rs: "rs = [a, b, c, d, e1, f, h, i, j, k]"
    by (auto simp: numeral_eq_Suc length_Suc_conv)
  let ?k = "\<lambda>_. exec_command cmd (cmd # as) envp"
  obtain s0 where s0: "childfunc sock (root # cmd # as) envp (start Unbuffered (g # rs @ [e])) =
      bindS (print_args 10 (cmd # as)) ?k s0" "answers s0 = [e]"
      "map fst (calls s0) = [Read sock 2, Mkdir (root @ ''/lib64'') 365, Mount ''/lib64'' (root @ ''/lib64''),
        Mkdir (root @ ''/qemu'') 365, Mount ''/u06/dsg/mountasqemu'' (root @ ''/qemu''),
        Mkdir (root @ ''/proc'') 365, Mount ''/proc'' (root @ ''/proc''),
        Chroot root, Chdir ''/'', Access cmd 0, Access cmd 1]"
    using assms(2,4)
    by (simp add: rs childfunc_def bind_mount_def sprintf_buf_def check_def run_command_def run_simps obs_simps bindS_skip)
  from print_args_run [of 10 "cmd # as" ?k s0] s0 assms(3)
  show "\<exists>s'. childfunc sock (root # cmd # as) envp (start Unbuffered (g # rs @ [e])) = (Replaced cmd (cmd # as) envp, s') \<and>
      map fst (calls s') = [Read sock 2, Mkdir (root @ ''/lib64'') 365, Mount ''/lib64'' (root @ ''/lib64''),
        Mkdir (root @ ''/qemu'') 365, Mount ''/u06/dsg/mountasqemu'' (root @ ''/qemu''),
        Mkdir (root @ ''/proc'') 365, Mount ''/proc'' (root @ ''/proc''),
        Chroot root, Chdir ''/'', Access cmd 0, Access cmd 1, Execve cmd (cmd # as) envp]"
    by (auto simp: exec_command_def run_simps obs_simps)
qed

subsection \<open>Examples of the hypotheses\<close>

theorem map_line_complete_witness: "take 11 (map_line 1000) = map_line 1000"
  using map_line_complete [of 1000] by simp

theorem mkuidns_parent_run_witness:
  "\<exists>s'. mkuidns_parent 42 4 (start Unbuffered [rep 5, rep 1000, rep 11, rep 0, rep 5, rep 5, rep 0, rep 5, rep 1000,
      rep 11, rep 0, rep 2, exited_with 42 0]) = (Exited 0, s') \<and> written s' = []"
  using mkuidns_parent_run [of "rep 5" "rep 5" "rep 5" "exited_with 42 0" 42 4 "rep 1000" "rep 11" "rep 0" "rep 5" "rep 0"
      "rep 1000" "rep 11" "rep 0" "rep 2" 0]
  by auto

theorem childfunc_run_witness:
  "\<exists>s'. childfunc 3 [''/newroot'', ''/bin/sh''] [] (start Unbuffered (rep 2 # replicate 10 (rep 0) @ [rep 0])) =
    (Replaced ''/bin/sh'' [''/bin/sh''] [], s')"
  using childfunc_run [of "replicate 10 (rep 0)" "rep 0" "''/newroot''" 3 "''/bin/sh''" "[]" "[]" Unbuffered "rep 2"]
  by (auto simp: list_all_iff)

end
