(* ===== verification/Small_Programs.thy ===== *)
theory Small_Programs
  imports Sys
begin

text \<open>
  The small programs on arguments, the keyboard and files: \<^verbatim>\<open>hello.c\<close>, \<^verbatim>\<open>helloargs.c\<close>,
  \<^verbatim>\<open>waitkeyboard.c\<close> and \<^verbatim>\<open>hellofile.c\<close>.
\<close>

subsection \<open>\<^verbatim>\<open>hello.c\<close>, \<^verbatim>\<open>helloargs.c\<close>\<close>

definition hello_main :: "string list \<Rightarrow> unit stm" where
  "hello_main argv = block [
     if argc argv = 1 then printf ''x86 ahoy!\<newline>''
     else printf (''x86 hello '' @ (if argc argv > 1 then argv ! 1 else ''(null)'') @ ''\<newline>''),
     exit 0]"

text \<open>The loop over \<^verbatim>\<open>envp\<close> up to its null pointer, with \<^verbatim>\<open>index\<close> as it goes.\<close>

primrec env_loop :: "int \<Rightarrow> int \<Rightarrow> string list \<Rightarrow> int stm" where
  "env_loop maxenv index [] = ret index"
| "env_loop maxenv index (e # es) =
     bindS (only_if (index \<le> maxenv) [
       printf (''envp['' @ fmt_d index @ ''] = '' @ [CHR 0x22] @ e @ [CHR 0x22, NL])]) (\<lambda>_.
     env_loop maxenv (index + 1) es)"

definition helloargs_main :: "string list \<Rightarrow> string list \<Rightarrow> unit stm" where
  "helloargs_main argv envp = block [
     if argc argv = 1 then printf ''ahoy!\<newline>''
     else block [
       printf (arg0 argv @ '' had args:''),
       for_loop 1 (argc argv) (\<lambda>i _. printf (''| '' @ argv ! nat i @ ''|'')) (),
       printf ''\<newline>'',
       bindS (env_loop (if argc argv > 1 then atoi (argv ! 1) else 3) 0 envp) (\<lambda>index.
         printf (''Number of environment vars= '' @ fmt_d index @ ''\<newline>''))],
     exit 0]"

subsection \<open>\<^verbatim>\<open>waitkeyboard.c\<close>\<close>

text \<open>\<^verbatim>\<open>char ch = getchar()\<close>: \<^verbatim>\<open>char\<close> is signed.\<close>

definition signed_char :: "int \<Rightarrow> int" where
  "signed_char v = (v + 128) mod 256 - 128"

abbreviation EOF :: int where "EOF \<equiv> - 1"

definition waitkeyboard_main :: "unit stm" where
  "waitkeyboard_main = block [
     printf ''Will wait for char to be entered\<newline>'',
     fflush,
     bindS (sysv Getchar) (\<lambda>v. let ch = signed_char v in
       if ch = EOF then printf ''Interrupted\<newline>''
       else printf (''Got '' @ [char_of (ch mod 256)] @ ''\<newline>'')),
     exit 0]"

subsection \<open>\<^verbatim>\<open>hellofile.c\<close>\<close>

text \<open>The stream made by \<^verbatim>\<open>fdopen\<close> is flushed after each \<^verbatim>\<open>fprintf\<close>: each is one \<^verbatim>\<open>write\<close>.\<close>

definition create_temp_file :: "unit stm" where
  "create_temp_file = bindS (sys (Mkstemp ''/tmp/tempfileXXXXXX'')) (\<lambda>t. let fd = rv t; temp_filename = bytes t in block [
     only_if (fd = -1) [perror ''mkstemp failed'', exit 1],
     bindS (sysv (Fdopen fd ''w+'')) (\<lambda>file. only_if (file = 0) [perror ''fdopen failed'', do_call (Close fd), exit 1]),
     do_call (Write fd ''hello\<newline>''),
     bindS (sysv (Rename temp_filename ''/tmp/renamed_tempfile.txt'')) (\<lambda>v.
       only_if (v \<noteq> 0) [perror ''rename failed'', do_call (Close fd), exit 1]),
     do_call (Write fd ''world\<newline>''),
     do_call (Close fd),
     bindS (sysv (Unlink ''/tmp/renamed_tempfile.txt'')) (\<lambda>v. only_if (v \<noteq> 0) [perror ''unlink failed'', exit 1]),
     printf ''Temporary file created, modified, renamed, and deleted successfully.\<newline>'',
     bindS (sysv (Open ''/tmp'' 65536)) (\<lambda>dirfd. block [
       only_if (dirfd = -1) [perror ''open directory'', exit 1],
       bindS (sysv (Openat dirfd ''testfile.txt'' 65 420)) (\<lambda>fd. block [
         only_if (fd = -1) [perror ''openat'', do_call (Close dirfd), exit 1],
         do_call (Write fd (take 28 ''Written to /tmp/testfile.txt\<newline>'')),
         do_call (Close fd),
         bindS (sysv (Unlinkat dirfd ''testfile.txt'' 0)) (\<lambda>v.
           only_if (v = -1) [perror ''unlinkat'', do_call (Close dirfd), exit 1]),
         do_call (Close dirfd)])])])"

definition hellofile_main :: "unit stm" where
  "hellofile_main = block [create_temp_file, exit 0]"

subsection \<open>Properties\<close>

definition env_line :: "int \<Rightarrow> string \<Rightarrow> string" where
  "env_line i e = ''envp['' @ fmt_d i @ ''] = '' @ [CHR 0x22] @ e @ [CHR 0x22, NL]"

lemma env_loop_run:
  "\<exists>s'. bindS (env_loop n i es) k s = k (i + int (length es)) s' \<and>
     printed s' = printed s @ concat (map (\<lambda>je. env_line (i + int (fst je)) (snd je))
       (enumerate 0 (take (nat (n + 1 - i)) es))) \<and> answers s' = answers s"
proof (induction es arbitrary: i s)
  case Nil
  then show ?case by (auto simp: run_simps)
next
  case (Cons e es)
  let ?s = "if i \<le> n then put_out (env_line i e) s else s"
  from Cons.IH [of "i + 1" ?s] obtain s' where
    s': "bindS (env_loop n (i + 1) es) k ?s = k (i + 1 + int (length es)) s'" "answers s' = answers ?s"
      "printed s' = printed ?s @ concat (map (\<lambda>je. env_line (i + 1 + int (fst je)) (snd je)) (enumerate 0 (take (nat (n + 1 - (i + 1))) es)))"
    by blast
  have "bindS (env_loop n i (e # es)) k s = bindS (env_loop n (i + 1) es) k ?s"
    by (simp add: run_simps env_line_def)
  moreover have "take (nat (n + 1 - i)) (e # es) = (if i \<le> n then e # take (nat (n + 1 - (i + 1))) es else [])"
  proof -
    have "nat (n + 1 - i) = (if i \<le> n then Suc (nat (n - i)) else 0)"
      by auto
    then show ?thesis
      by simp
  qed
  ultimately show ?case
    using s' by (cases "i \<le> n") (auto simp: obs_simps enumerate_Suc_eq comp_def ac_simps)
qed

lemma printing_loop:
  "\<exists>s'. bindS (for_from k i (\<lambda>j _. printf (f j)) ()) g s = g () s' \<and>
     printed s' = printed s @ concat (map (\<lambda>j. f (i + int j)) [0..<k]) \<and> answers s' = answers s"
proof (induction k arbitrary: i s)
  case 0
  then show ?case by (auto simp: run_simps)
next
  case (Suc k)
  from Suc.IH [of "i + 1" "put_out (f i) s"] obtain s' where
    "bindS (for_from k (i + 1) (\<lambda>j _. printf (f j)) ()) g (put_out (f i) s) = g () s'"
    "printed s' = printed s @ f i @ concat (map (\<lambda>j. f (i + 1 + int j)) [0..<k])" "answers s' = answers s"
    by (auto simp: obs_simps)
  moreover have "bindS (for_from (Suc k) i (\<lambda>j _. printf (f j)) ()) g s =
      bindS (for_from k (i + 1) (\<lambda>j _. printf (f j)) ()) g (put_out (f i) s)"
    by (simp only: for_from.simps bindS_assoc bindS_run(1))
  ultimately show ?case
    by (auto simp: map_upt_Suc ac_simps simp del: upt_Suc)
qed

lemma drop1_nth: "map (\<lambda>j. f (xs ! nat (1 + int j))) [0..<length xs - 1] = map f (drop 1 xs)"
  by (rule nth_equalityI) (auto simp: nat_add_distrib)

text \<open>\<^verbatim>\<open>helloargs\<close> with arguments prints them, then the first \<open>n + 1\<close> environment variables, where
  \<open>n\<close> is the number in the first argument, and how many there are in all.\<close>

theorem helloargs_run:
  assumes "argc argv > 1"
  shows "\<exists>s'. helloargs_main argv envp (start m rs) = (Exited 0, s') \<and>
    written s' = arg0 argv @ '' had args:'' @ concat (map (\<lambda>a. ''| '' @ a @ ''|'') (drop 1 argv)) @ ''\<newline>'' @
      concat (map (\<lambda>(j, e). env_line (int j) e) (enumerate 0 (take (nat (atoi (argv ! 1) + 1)) envp))) @
      ''Number of environment vars= '' @ fmt_d (int (length envp)) @ ''\<newline>''"
proof -
  let ?k = "\<lambda>_. bindS (printf ''\<newline>'') (\<lambda>_. bindS (env_loop (atoi (argv ! 1)) 0 envp) (\<lambda>index.
      bindS (printf (''Number of environment vars= '' @ fmt_d index @ ''\<newline>'')) (\<lambda>_ s. (Exited 0, flush_out s))))"
  let ?f = "\<lambda>i. ''| '' @ argv ! nat i @ ''|''"
  have n: "nat (argc argv - 1) = length argv - 1"
    by (simp add: argc_def nat_diff_distrib')
  have main: "helloargs_main argv envp (start m rs) =
      bindS (for_from (length argv - 1) 1 (\<lambda>i _. printf (?f i)) ()) ?k (put_out (arg0 argv @ '' had args:'') (start m rs))"
    using assms by (simp add: helloargs_main_def for_loop_def n run_simps obs_simps)
  from printing_loop [of "length argv - 1" 1 ?f ?k "put_out (arg0 argv @ '' had args:'') (start m rs)"] obtain s1 where
    s1: "helloargs_main argv envp (start m rs) = ?k () s1"
      "printed s1 = arg0 argv @ '' had args:'' @ concat (map (\<lambda>a. ''| '' @ a @ ''|'') (drop 1 argv))"
    unfolding main drop1_nth [symmetric, of "\<lambda>a. ''| '' @ a @ ''|''"] by (auto simp: obs_simps)
  from env_loop_run [of "atoi (argv ! 1)" 0 envp "\<lambda>index.
      bindS (printf (''Number of environment vars= '' @ fmt_d index @ ''\<newline>'')) (\<lambda>_ s. (Exited 0, flush_out s))" "put_out ''\<newline>'' s1"]
  show ?thesis
    unfolding s1(1) using s1(2) by (auto simp: run_simps obs_simps case_prod_unfold)
qed

text \<open>\<^verbatim>\<open>waitkeyboard\<close> takes the byte 255 for the end of the input: it prints that it was interrupted
  exactly for these two answers.\<close>

theorem waitkeyboard_eof:
  assumes "-1 \<le> rv r" "rv r < 256"
  shows "\<exists>s'. waitkeyboard_main (start m [r]) = (Exited 0, s') \<and>
    written s' = ''Will wait for char to be entered\<newline>'' @
      (if rv r = EOF \<or> rv r = 255 then ''Interrupted\<newline>'' else ''Got '' @ [char_of (rv r)] @ ''\<newline>'')"
proof -
  have "(rv r + 128) mod 256 = (if rv r < 128 then rv r + 128 else rv r - 128)"
  proof (cases "rv r < 128")
    case False
    have "(rv r + 128) mod 256 = (rv r - 128 + 256) mod 256"
      by (simp add: ac_simps)
    also have "\<dots> = rv r - 128"
      using False assms by (simp only: mod_add_self2) (simp add: mod_pos_pos_trivial)
    finally show ?thesis
      using False by simp
  qed (use assms in \<open>simp add: mod_pos_pos_trivial\<close>)
  then have "signed_char (rv r) = (if rv r < 128 then rv r else rv r - 256)"
    by (simp add: signed_char_def)
  moreover from this have "signed_char (rv r) mod 256 = rv r" if "rv r \<noteq> EOF"
    using assms that by auto
  ultimately show ?thesis
    using assms by (auto simp: waitkeyboard_main_def Let_def run_simps obs_simps)
qed

text \<open>\<^verbatim>\<open>hellofile\<close>, when every call succeeds: both lines go to the file through the same descriptor
  before and after it is renamed, every file it made is removed again, and the text written with
  \<^verbatim>\<open>openat\<close> lacks its newline, one byte more than the 28 it asks to be written.\<close>

theorem hellofile_run:
  assumes "rv t \<noteq> -1" "rv f \<noteq> 0" "rv n = 0" "rv u = 0" "rv d \<noteq> -1" "rv o' \<noteq> -1" "rv x \<noteq> -1"
  shows "\<exists>s'. hellofile_main (start m [t, f, w1, n, w2, c1, u, d, o', w3, c2, x, c3]) = (Exited 0, s') \<and>
    map fst (calls s') = [Mkstemp ''/tmp/tempfileXXXXXX'', Fdopen (rv t) ''w+'', Write (rv t) ''hello\<newline>'',
      Rename (bytes t) ''/tmp/renamed_tempfile.txt'', Write (rv t) ''world\<newline>'', Close (rv t),
      Unlink ''/tmp/renamed_tempfile.txt'', Open ''/tmp'' 65536, Openat (rv d) ''testfile.txt'' 65 420,
      Write (rv o') ''Written to /tmp/testfile.txt'', Close (rv o'), Unlinkat (rv d) ''testfile.txt'' 0, Close (rv d)]"
  using assms by (simp add: hellofile_main_def create_temp_file_def Let_def run_simps obs_simps)

subsection \<open>An example of the hypotheses\<close>

theorem helloargs_run_witness:
  "\<exists>s'. helloargs_main [''helloargs'', ''0''] [''A=1'', ''B=2''] (start Unbuffered []) = (Exited 0, s')"
  using helloargs_run [of "[''helloargs'', ''0'']" "[''A=1'', ''B=2'']" Unbuffered "[]"] by (auto simp: argc_def)

theorem hellofile_run_witness:
  "\<exists>s'. hellofile_main (start Unbuffered [(rep 3)\<lparr>bytes := ''/tmp/tempfileabcdef''\<rparr>, rep 1, rep 6, rep 0, rep 6, rep 0, rep 0,
      rep 4, rep 5, rep 28, rep 0, rep 0, rep 0]) = (Exited 0, s')"
  using hellofile_run [of "(rep 3)\<lparr>bytes := ''/tmp/tempfileabcdef''\<rparr>" "rep 1" "rep 0" "rep 0" "rep 4" "rep 5" "rep 0" Unbuffered
      "rep 6" "rep 6" "rep 0" "rep 28" "rep 0" "rep 0"] by auto

end
