(* ===== verification/Scatter_Gather.thy ===== *)
theory Scatter_Gather
  imports Memory
begin

text \<open>
  Vectored input and output: \<^verbatim>\<open>iovec_demo.c\<close>. A vector for writing is the list of its parts; a
  vector for reading is a list of places, each an array's number, an offset and a length, that the
  kernel fills one after the other.

  The program sets a local variable \<^verbatim>\<open>file\<close> of \<^verbatim>\<open>main\<close> to \<^verbatim>\<open>stdout\<close>; the functions use the global
  one, which stays null, and \<^verbatim>\<open>fflush(NULL)\<close> flushes every stream.
\<close>

subsection \<open>Vectors\<close>

type_synonym place = "nat \<times> nat \<times> nat"

primrec scatter :: "place list \<Rightarrow> string \<Rightarrow> memory list \<Rightarrow> memory list" where
  "scatter [] t ms = ms"
| "scatter (v # vs) t ms = (case v of (a, off, len) \<Rightarrow>
     scatter vs (drop len t) (ms[a := poke off (take len t) (ms ! a)]))"

definition lens :: "place list \<Rightarrow> arg list" where
  "lens vs = map (\<lambda>(a, off, len). I (int len)) vs"

definition delivered :: "reply \<Rightarrow> string" where
  "delivered r = take (nat (rv r)) (bytes r)"

abbreviation "Pipe \<equiv> Call ''pipe'' []"
abbreviation "Writev fd parts \<equiv> Call ''writev'' [I fd, SL parts]"
abbreviation "Readv fd vs \<equiv> Call ''readv'' (I fd # lens vs)"
abbreviation "Pwritev fd parts off \<equiv> Call ''pwritev'' [I fd, SL parts, I off]"
abbreviation "Preadv fd vs off \<equiv> Call ''preadv'' (I fd # lens vs @ [I off])"
abbreviation "Sendmsg fd parts \<equiv> Call ''sendmsg'' [I fd, SL parts]"
abbreviation "Recvmsg fd vs \<equiv> Call ''recvmsg'' (I fd # lens vs)"
abbreviation "Sendmmsg fd msgs \<equiv> Call ''sendmmsg'' (I fd # map SL msgs)"
abbreviation "Recvmmsg fd vs \<equiv> Call ''recvmmsg'' (I fd # lens vs)"
abbreviation "Vmsplice fd t \<equiv> Call ''vmsplice'' [I fd, S t]"
abbreviation "Process_vm_readv pid n m \<equiv> Call ''process_vm_readv'' [I pid, I n, I m]"
abbreviation "Process_vm_writev pid t n \<equiv> Call ''process_vm_writev'' [I pid, S t, I n]"

subsection \<open>The program\<close>

definition die :: "string \<Rightarrow> unit stm" where
  "die operation = block [perror operation, exit 1]"

definition show_buf :: "string \<Rightarrow> memory \<Rightarrow> int \<Rightarrow> unit stm" where
  "show_buf tag buf n = with_value (scan (nat n) buf) (\<lambda>t. block [
     printf (tag @ '': ['' @ t @ '']\<newline>''), fflush])"

text \<open>\<open>addr\<close> gives the address of a variable, which the program prints.\<close>

definition readv_places :: "place list" where
  "readv_places = [(0, 0, 7), (0, 7, 57)]"

definition demo_readv_writev :: "(string \<Rightarrow> int) \<Rightarrow> unit stm" where
  "demo_readv_writev addr = block [
     printf ''=== demo_readv_writev ===\<newline>'', fflush,
     bindS (sys Pipe) (\<lambda>p. block [
       only_if (rv p \<noteq> 0) [die ''pipe''],
       printf (''Writev vec at '' @ fmt_p (addr ''wv'') @ '', with msgs at '' @ fmt_p (addr ''a'') @
         '' and '' @ fmt_p (addr ''b'') @ ''\<newline>''), fflush,
       bindS (sysv (Writev (out_int 1 p) [''Hello, '', ''writev/readv!''])) (\<lambda>wn. only_if (wn < 0) [die ''writev'']),
       printf (''Readv vec at '' @ fmt_p (addr ''rv'') @ '', with buf at  '' @ fmt_p (addr ''buf'') @ ''\<newline>''), fflush,
       bindS (sys (Readv (out_int 0 p) readv_places)) (\<lambda>r. block [
         only_if (rv r < 0) [die ''readv''],
         show_buf ''readv got'' (scatter readv_places (delivered r) [unset 64] ! 0) (rv r)]),
       do_call (Close (out_int 0 p)), do_call (Close (out_int 1 p)),
       printf ''\<newline>''])]"

definition preadv_places :: "place list" where
  "preadv_places = [(0, 0, 31), (1, 0, 31)]"

definition strlen_of :: "memory \<Rightarrow> (int \<Rightarrow> unit stm) \<Rightarrow> unit stm" where
  "strlen_of buf f = with_value (scan_all buf) (\<lambda>t. f (int (length t)))"

definition demo_preadv_pwritev :: "unit stm" where
  "demo_preadv_pwritev = block [
     printf ''=== demo_preadv_pwritev ===\<newline>'', fflush,
     bindS (sys (Mkstemp ''/tmp/iovec_demoXXXXXX'')) (\<lambda>t. let fd = rv t in block [
       only_if (fd < 0) [die ''mkstemp''],
       do_call (Unlink (bytes t)),
       bindS (sysv (Pwritev fd [''Segment-1:'', ''Segment-2:''] 0)) (\<lambda>wn. only_if (wn < 0) [die ''pwritev'']),
       bindS (sys (Preadv fd preadv_places 0)) (\<lambda>r.
         let bs = scatter preadv_places (delivered r) [zeros 32, zeros 32] in block [
         only_if (rv r < 0) [die ''preadv''],
         printf (''preadv read total '' @ fmt_d (rv r) @ '' bytes\<newline>''), fflush,
         strlen_of (bs ! 0) (show_buf ''buf1'' (bs ! 0)),
         strlen_of (bs ! 1) (show_buf ''buf2'' (bs ! 1))]),
       do_call (Close fd),
       printf ''\<newline>''])]"

definition recvmsg_places :: "place list" where
  "recvmsg_places = [(0, 0, 32), (0, 32, 32)]"

text \<open>\<^verbatim>\<open>%.*s\<close> on a null pointer in glibc.\<close>

definition null_text :: "nat \<Rightarrow> string" where
  "null_text prec = (if prec < 6 then [] else ''(null)'')"

text \<open>The name that is printed is the one of the message sent (\<^verbatim>\<open>msg\<close>, null with length 0), not the one
  of the message received (\<^verbatim>\<open>rmsg\<close>).\<close>

definition demo_sendmsg_recvmsg :: "(string \<Rightarrow> int) \<Rightarrow> unit stm" where
  "demo_sendmsg_recvmsg addr = block [
     printf ''=== demo_sendmsg_recvmsg ===\<newline>'', fflush,
     bindS (sys Socketpair) (\<lambda>sv. block [
       only_if (rv sv \<noteq> 0) [die ''socketpair''],
       printf ''Sending message: with not explicit name since using socket pair :\<newline>'',
       printf (''vectors at '' @ fmt_p (addr ''iov'') @ '' '' @ [CHR 0x27] @ ''Part-A-'' @ [CHR 0x27] @ '' '' @
         [CHR 0x27] @ ''Part-B'' @ [CHR 0x27] @ '' \<newline>''), fflush,
       bindS (sysv (Sendmsg (out_int 0 sv) [''Part-A-'', ''Part-B''])) (\<lambda>v. only_if (v < 0) [die ''sendmsg'']),
       bindS (sys (Recvmsg (out_int 1 sv) recvmsg_places)) (\<lambda>r. block [
         only_if (rv r < 0) [die ''recvmsg''],
         with_value (scan (nat (rv r)) (scatter recvmsg_places (delivered r) [unset 64] ! 0)) (\<lambda>t. block [
           printf (''Read message named: '' @ [CHR 0x27] @ null_text 0 @ [CHR 0x27] @ ''\<newline>  text: '' @
             [CHR 0x27] @ t @ [CHR 0x27] @ '' vectors at '' @ fmt_p (addr ''riov'') @ '' \<newline>''), fflush])]),
       do_call (Close (out_int 0 sv)), do_call (Close (out_int 1 sv)),
       printf ''\<newline>''])]"

text \<open>\<^verbatim>\<open>recvmmsg\<close> stores one message per array and its length in \<^verbatim>\<open>msg_len\<close>: the reply has the lengths and
  the messages one after the other.\<close>

definition msg_len :: "reply \<Rightarrow> nat \<Rightarrow> nat" where
  "msg_len r i = nat (out_int i r)"

definition msg_data :: "reply \<Rightarrow> nat \<Rightarrow> string" where
  "msg_data r i = take (msg_len r i) (drop (sum_list (map (msg_len r) [0..<i])) (bytes r))"

definition rbufs :: "reply \<Rightarrow> nat \<Rightarrow> memory" where
  "rbufs r i = (if int i < rv r then poke 0 (take 64 (msg_data r i)) (unset 64) else unset 64)"

definition show_batch :: "reply \<Rightarrow> int \<Rightarrow> unit \<Rightarrow> unit stm" where
  "show_batch r i _ = (if i \<ge> 2 then undefined_behaviour ''rbufs[i] is past the end''
     else show_buf ''batch recv'' (rbufs r (nat i)) (out_int (nat i) r))"

definition demo_sendmmsg_recvmmsg :: "unit stm" where
  "demo_sendmmsg_recvmmsg = block [
     printf ''=== demo_sendmmsg_recvmmsg ===\<newline>'', fflush,
     bindS (sys Socketpair) (\<lambda>sv. block [
       only_if (rv sv \<noteq> 0) [die ''socketpair''],
       bindS (sysv (Sendmmsg (out_int 0 sv) [[''msg1-part1-'', ''msg1-part2''], [''msg2-part1-'', ''msg2-part2'']])) (\<lambda>sent. block [
         only_if (sent < 0) [die ''sendmmsg''],
         printf (''sendmmsg sent '' @ fmt_d sent @ '' messages\<newline>''), fflush]),
       bindS (sys (Recvmmsg (out_int 1 sv) [(0, 0, 64), (1, 0, 64)])) (\<lambda>r. block [
         only_if (rv r < 0) [die ''recvmmsg''],
         printf (''recvmmsg received '' @ fmt_d (rv r) @ '' messages\<newline>''), fflush,
         for_loop 0 (rv r) (show_batch r) ()]),
       do_call (Close (out_int 0 sv)), do_call (Close (out_int 1 sv)),
       printf ''\<newline>''])]"

definition demo_vmsplice :: "build \<Rightarrow> unit stm" where
  "demo_vmsplice have_macro = block [
     printf ''=== demo_vmsplice ===\<newline>'', fflush,
     if have_macro ''SYS_vmsplice'' then
       bindS (sys Pipe) (\<lambda>p. block [
         only_if (rv p \<noteq> 0) [die ''pipe''],
         bindS (sysv (Vmsplice (out_int 1 p) ''Data-for-vmsplice'')) (\<lambda>n. only_if (n < 0) [die ''vmsplice'']),
         bindS (sys (Read (out_int 0 p) 64)) (\<lambda>r. block [
           only_if (rv r < 0) [die ''read after vmsplice''],
           show_buf ''vmsplice->pipe read'' (poke 0 (delivered r) (unset 64)) (rv r)]),
         do_call (Close (out_int 0 p)), do_call (Close (out_int 1 p))])
     else block [printf ''vmsplice not available on this platform/build.\<newline>'', fflush],
     printf ''\<newline>'']"

definition secret :: string where
  "secret = ''SECRET_DATA_12345'' @ [NUL]"

definition newdata :: string where
  "newdata = ''WRITTEN_BY_process_vm_writev''"

text \<open>Both calls work on the program's own memory, so what they store is known.\<close>

definition demo_process_vm_readv_writev :: "unit stm" where
  "demo_process_vm_readv_writev = block [
     printf ''=== demo_process_vm_readv_writev (self) ===\<newline>'', fflush,
     bindS (sysv Getpid) (\<lambda>pid.
     bindS (sysv (Process_vm_readv pid 64 18)) (\<lambda>n.
       let out = (if n < 0 then zeros 64 else poke 0 (take (nat n) secret) (zeros 64)) in block [
       if n < 0 then bindS strerror_errno (\<lambda>t. fprintf_stderr (''process_vm_readv failed: '' @ t @ ''\<newline>''))
       else block [
         printf (''process_vm_readv read '' @ fmt_d n @ '' bytes: ''), fflush,
         show_buf ''out'' out n],
       bindS (sysv (Process_vm_writev pid newdata 64)) (\<lambda>w.
         let out = (if w < 0 then out else poke 0 (take (nat w) newdata) out) in
         if w < 0 then bindS strerror_errno (\<lambda>t. fprintf_stderr (''process_vm_writev failed: '' @ t @ ''\<newline>''))
         else block [
           printf (''process_vm_writev wrote '' @ fmt_d w @ '' bytes; out now: ''), fflush,
           strlen_of out (show_buf ''out'' out)]),
       printf ''\<newline>'']))]"

definition iovec_demo_main :: "build \<Rightarrow> (string \<Rightarrow> int) \<Rightarrow> unit stm" where
  "iovec_demo_main have_macro addr = block [
     printf ''iovec/syscall demo\<newline>\<newline>'', fflush,
     demo_readv_writev addr,
     demo_preadv_pwritev,
     demo_sendmsg_recvmsg addr,
     demo_sendmmsg_recvmmsg,
     demo_vmsplice have_macro,
     demo_process_vm_readv_writev,
     printf ''Done.\<newline>'', fflush,
     exit 0]"

subsection \<open>Vectors and plain reads\<close>

lemma scatter_adjacent:
  assumes "length t \<le> k + l" "k + l \<le> length m"
  shows "scatter [(0, 0, k), (0, k, l)] t [m] = [poke 0 t m]"
proof (cases "length t \<le> k")
  case True
  then show ?thesis by simp
next
  case False
  then have "length (take k t) = k" "take l (drop k t) = drop k t"
    using assms by simp_all
  moreover from this have "poke k (drop k t) (poke 0 (take k t) m) = poke 0 (take k t @ drop k t) m"
    using poke_append [of 0 "take k t" m "drop k t"] assms by simp
  ultimately show ?thesis
    by (simp del: append_take_drop_id) simp
qed

lemma scatter_preadv: "length t \<le> 31 \<Longrightarrow> scatter preadv_places t [m, m'] = [poke 0 t m, m']"
  by (simp add: preadv_places_def)

text \<open>C16. Reading with the vectors of \<^verbatim>\<open>demo_readv_writev\<close> and \<^verbatim>\<open>demo_sendmsg_recvmsg\<close> stores in the array
  exactly what one \<^verbatim>\<open>read\<close> of 64 bytes into it would store, for every length of the data and whatever
  the array held before; the vector of \<^verbatim>\<open>demo_preadv_pwritev\<close> leaves the second array alone unless
  there are more than 31 bytes.\<close>

theorem vectored_read_is_read:
  assumes "length t \<le> 64" "length m = 64"
  shows "scatter readv_places t [m] = [poke 0 t m] \<and> scatter recvmsg_places t [m] = [poke 0 t m] \<and>
    (length t \<le> 31 \<longrightarrow> scatter preadv_places t [m, m'] = [poke 0 t m, m'])"
  using scatter_adjacent [of t 7 57 m] scatter_adjacent [of t 32 32 m] assms
  by (simp add: readv_places_def recvmsg_places_def scatter_preadv)

theorem vectored_read_is_read_witness:
  "scatter readv_places ''Hello, writev/readv!'' [unset 64] = [poke 0 ''Hello, writev/readv!'' (unset 64)]"
  using vectored_read_is_read [of "''Hello, writev/readv!''" "unset 64" "[]"] by simp

subsection \<open>Runs\<close>

lemma show_buf_run [run_simps]:
  "show_buf tag buf n s = (case scan (nat n) buf of None \<Rightarrow> (Undefined unset_byte, s)
     | Some t \<Rightarrow> (Ret (), flush_out (put_out (tag @ '': ['' @ t @ '']\<newline>'') s)))"
  "bindS (show_buf tag buf n) g s = (case scan (nat n) buf of None \<Rightarrow> (Undefined unset_byte, s)
     | Some t \<Rightarrow> g () (flush_out (put_out (tag @ '': ['' @ t @ '']\<newline>'') s)))"
  by (simp_all add: show_buf_def run_simps split: option.split)

lemma strlen_of_run [run_simps]:
  "strlen_of buf f s = (case scan_all buf of None \<Rightarrow> (Undefined unset_byte, s) | Some t \<Rightarrow> f (int (length t)) s)"
  by (simp add: strlen_of_def run_simps)

lemmas demo_simps = eval_simps show_buf_run(1) strlen_of_run obs_simps scatter_preadv
  scatter_adjacent [of _ 7 57, folded readv_places_def] scatter_adjacent [of _ 32 32, folded recvmsg_places_def] scan_poke scan_all_zeros

text \<open>A reply that delivers \<open>t\<close>.\<close>

definition data_reply :: "string \<Rightarrow> reply" where
  "data_reply t = (rep (int (length t)))\<lparr>bytes := t\<rparr>"

lemma data_reply_sel [simp]: "rv (data_reply t) = int (length t)" "bytes (data_reply t) = t"
    "delivered (data_reply t) = t"
  by (simp_all add: data_reply_def delivered_def)

lemma readv_does:
  assumes "rv p = 0" "0 \<le> rv w" "length t \<le> 64"
  shows "does (demo_readv_writev addr)
    [(Pipe, p), (Writev (out_int 1 p) [''Hello, '', ''writev/readv!''], w),
      (Readv (out_int 0 p) readv_places, data_reply t), (Close (out_int 0 p), c1), (Close (out_int 1 p), c2)]
    (''=== demo_readv_writev ===\<newline>'' @
      ''Writev vec at '' @ fmt_p (addr ''wv'') @ '', with msgs at '' @ fmt_p (addr ''a'') @ '' and '' @ fmt_p (addr ''b'') @ ''\<newline>'' @
      ''Readv vec at '' @ fmt_p (addr ''rv'') @ '', with buf at  '' @ fmt_p (addr ''buf'') @ ''\<newline>'' @
      ''readv got: ['' @ cstr t @ '']\<newline>\<newline>'')"
  by (rule doesI) (use assms in \<open>auto simp: demo_readv_writev_def demo_simps\<close>)

lemma scan_terminated: "NUL \<notin> set t \<Longrightarrow> scan (length t) (poke 0 t m) = Some t"
  by (simp add: scan_poke cstr_id)

lemma preadv_does:
  assumes "0 \<le> rv f" "0 \<le> rv w" "length t \<le> 31" "NUL \<notin> set t"
  shows "does demo_preadv_pwritev
    [(Mkstemp ''/tmp/iovec_demoXXXXXX'', f), (Unlink (bytes f), u), (Pwritev (rv f) [''Segment-1:'', ''Segment-2:''] 0, w),
      (Preadv (rv f) preadv_places 0, data_reply t), (Close (rv f), c)]
    (''=== demo_preadv_pwritev ===\<newline>'' @
      ''preadv read total '' @ fmt_d (int (length t)) @ '' bytes\<newline>buf1: ['' @ t @ '']\<newline>buf2: []\<newline>\<newline>'')"
  by (rule doesI) (use assms scan_all_zeros [of "[]" 32] scan_terminated [of t "zeros 32"] in
    \<open>auto simp: demo_preadv_pwritev_def demo_simps cstr_id Let_def\<close>)

lemma sendmsg_does:
  assumes "rv sv = 0" "0 \<le> rv w" "length t \<le> 64"
  shows "does (demo_sendmsg_recvmsg addr)
    [(Socketpair, sv), (Sendmsg (out_int 0 sv) [''Part-A-'', ''Part-B''], w),
      (Recvmsg (out_int 1 sv) recvmsg_places, data_reply t), (Close (out_int 0 sv), c1), (Close (out_int 1 sv), c2)]
    (''=== demo_sendmsg_recvmsg ===\<newline>'' @
      ''Sending message: with not explicit name since using socket pair :\<newline>'' @
      ''vectors at '' @ fmt_p (addr ''iov'') @ '' '' @ [CHR 0x27] @ ''Part-A-'' @ [CHR 0x27] @ '' '' @ [CHR 0x27] @ ''Part-B'' @ [CHR 0x27] @ '' \<newline>'' @
      ''Read message named: '' @ [CHR 0x27, CHR 0x27] @ ''\<newline>  text: '' @ [CHR 0x27] @ cstr t @ [CHR 0x27] @
      '' vectors at '' @ fmt_p (addr ''riov'') @ '' \<newline>\<newline>'')"
  by (rule doesI) (use assms in \<open>auto simp: demo_sendmsg_recvmsg_def demo_simps null_text_def\<close>)

text \<open>The reply of \<^verbatim>\<open>recvmmsg\<close> with two messages.\<close>

definition two_messages :: "string \<Rightarrow> string \<Rightarrow> reply" where
  "two_messages t u = (rep 2)\<lparr>bytes := t @ u, outs := [int (length t), int (length u)]\<rparr>"

lemma two_messages_sel [simp]: "rv (two_messages t u) = 2" "msg_data (two_messages t u) 0 = t"
    "msg_data (two_messages t u) (Suc 0) = u" "out_int 0 (two_messages t u) = int (length t)"
    "out_int (Suc 0) (two_messages t u) = int (length u)"
  by (simp_all add: two_messages_def msg_data_def msg_len_def out_int_def)

lemma sendmmsg_does:
  assumes "rv sv = 0" "0 \<le> rv w" "length t \<le> 64" "length u \<le> 64"
  shows "does demo_sendmmsg_recvmmsg
    [(Socketpair, sv), (Sendmmsg (out_int 0 sv) [[''msg1-part1-'', ''msg1-part2''], [''msg2-part1-'', ''msg2-part2'']], w),
      (Recvmmsg (out_int 1 sv) [(0, 0, 64), (1, 0, 64)], two_messages t u), (Close (out_int 0 sv), c1), (Close (out_int 1 sv), c2)]
    (''=== demo_sendmmsg_recvmmsg ===\<newline>'' @
      ''sendmmsg sent '' @ fmt_d (rv w) @ '' messages\<newline>recvmmsg received '' @ fmt_d 2 @ '' messages\<newline>'' @
      ''batch recv: ['' @ cstr t @ '']\<newline>batch recv: ['' @ cstr u @ '']\<newline>\<newline>'')"
  by (rule doesI) (use assms in
    \<open>auto simp: demo_sendmmsg_recvmmsg_def show_batch_def rbufs_def for_loop_step for_loop_empty demo_simps\<close>)

lemma vmsplice_does:
  assumes "rv p = 0" "0 \<le> rv w" "have_macro ''SYS_vmsplice''"
  shows "does (demo_vmsplice have_macro)
    [(Pipe, p), (Vmsplice (out_int 1 p) ''Data-for-vmsplice'', w), (Read (out_int 0 p) 64, data_reply t),
      (Close (out_int 0 p), c1), (Close (out_int 1 p), c2)]
    (''=== demo_vmsplice ===\<newline>vmsplice->pipe read: ['' @ cstr t @ '']\<newline>\<newline>'')"
  by (rule doesI) (use assms in \<open>auto simp: demo_vmsplice_def demo_simps\<close>)

lemma process_vm_does:
  "does demo_process_vm_readv_writev
    [(Getpid, i), (Process_vm_readv (rv i) 64 18, rep 18), (Process_vm_writev (rv i) newdata 64, rep 28)]
    (''=== demo_process_vm_readv_writev (self) ===\<newline>'' @
      ''process_vm_readv read '' @ fmt_d 18 @ '' bytes: out: [SECRET_DATA_12345]\<newline>'' @
      ''process_vm_writev wrote '' @ fmt_d 28 @ '' bytes; out now: out: [WRITTEN_BY_process_vm_writev]\<newline>\<newline>'')"
proof -
  have len: "length secret = 18" "length newdata = 28"
    by (simp_all add: secret_def newdata_def)
  have "poke 0 newdata (poke 0 secret (zeros 64)) = poke 0 newdata (zeros 64)"
    by (simp add: poke_def len zeros_def)
  moreover have "scan 18 (poke 0 secret (zeros 64)) = Some ''SECRET_DATA_12345''"
    using scan_poke [of 18 secret "zeros 64"] by (simp add: len) (simp add: secret_def cstr_def NUL_def)
  moreover have "scan_all (poke 0 newdata (zeros 64)) = Some newdata" "scan 28 (poke 0 newdata (zeros 64)) = Some newdata"
    using scan_all_zeros [of newdata 64] scan_poke [of 28 newdata "zeros 64"]
    by (simp_all add: len) (simp_all add: newdata_def cstr_def NUL_def)
  ultimately show ?thesis
    by (intro doesI) (auto simp: demo_process_vm_readv_writev_def demo_simps len Let_def, simp_all add: newdata_def)
qed

text \<open>C29. \<^verbatim>\<open>iovec_demo.c\<close> as a whole, on a kernel whose pipes, files and socket pairs give back what was put in:
  the program makes exactly the calls that are listed, and what it receives through a call is the concatenation of the parts
  it sent through the one before, on the other end of the same pipe or socket pair or at the same offset of the same
  file; that is what it prints. The second buffer of \<^verbatim>\<open>preadv\<close> stays empty, because the first one has room for everything.\<close>

theorem iovec_demo_run:
  assumes "rv p = 0" "rv q = 0" "rv sv = 0" "rv sw = 0" "0 \<le> rv f" "0 \<le> rv w1" "0 \<le> rv w2" "0 \<le> rv w3" "0 \<le> rv w5"
    and "have_macro ''SYS_vmsplice''"
  shows "\<exists>s'. iovec_demo_main have_macro addr (start m ([
        p, w1, data_reply (concat [''Hello, '', ''writev/readv!'']), c1, c2,
        f, u, w2, data_reply (concat [''Segment-1:'', ''Segment-2:'']), c3,
        sv, w3, data_reply (concat [''Part-A-'', ''Part-B'']), c4, c5,
        sw, rep 2, two_messages (concat [''msg1-part1-'', ''msg1-part2'']) (concat [''msg2-part1-'', ''msg2-part2'']), c6, c7,
        q, w5, data_reply ''Data-for-vmsplice'', c8, c9,
        i, rep 18, rep 28] @ rest)) = (Exited 0, s') \<and>
    answers s' = rest \<and>
    calls s' = [
      (Pipe, p), (Writev (out_int 1 p) [''Hello, '', ''writev/readv!''], w1),
        (Readv (out_int 0 p) readv_places, data_reply (concat [''Hello, '', ''writev/readv!''])), (Close (out_int 0 p), c1), (Close (out_int 1 p), c2),
      (Mkstemp ''/tmp/iovec_demoXXXXXX'', f), (Unlink (bytes f), u), (Pwritev (rv f) [''Segment-1:'', ''Segment-2:''] 0, w2),
        (Preadv (rv f) preadv_places 0, data_reply (concat [''Segment-1:'', ''Segment-2:''])), (Close (rv f), c3),
      (Socketpair, sv), (Sendmsg (out_int 0 sv) [''Part-A-'', ''Part-B''], w3),
        (Recvmsg (out_int 1 sv) recvmsg_places, data_reply (concat [''Part-A-'', ''Part-B''])), (Close (out_int 0 sv), c4), (Close (out_int 1 sv), c5),
      (Socketpair, sw), (Sendmmsg (out_int 0 sw) [[''msg1-part1-'', ''msg1-part2''], [''msg2-part1-'', ''msg2-part2'']], rep 2),
        (Recvmmsg (out_int 1 sw) [(0, 0, 64), (1, 0, 64)],
          two_messages (concat [''msg1-part1-'', ''msg1-part2'']) (concat [''msg2-part1-'', ''msg2-part2''])),
        (Close (out_int 0 sw), c6), (Close (out_int 1 sw), c7),
      (Pipe, q), (Vmsplice (out_int 1 q) ''Data-for-vmsplice'', w5), (Read (out_int 0 q) 64, data_reply ''Data-for-vmsplice''),
        (Close (out_int 0 q), c8), (Close (out_int 1 q), c9),
      (Getpid, i), (Process_vm_readv (rv i) 64 18, rep 18), (Process_vm_writev (rv i) newdata 64, rep 28)] \<and>
    written s' = ''iovec/syscall demo\<newline>\<newline>=== demo_readv_writev ===\<newline>'' @
      ''Writev vec at '' @ fmt_p (addr ''wv'') @ '', with msgs at '' @ fmt_p (addr ''a'') @ '' and '' @ fmt_p (addr ''b'') @ ''\<newline>'' @
      ''Readv vec at '' @ fmt_p (addr ''rv'') @ '', with buf at  '' @ fmt_p (addr ''buf'') @ ''\<newline>'' @
      ''readv got: [Hello, writev/readv!]\<newline>\<newline>=== demo_preadv_pwritev ===\<newline>preadv read total 20 bytes\<newline>'' @
      ''buf1: [Segment-1:Segment-2:]\<newline>buf2: []\<newline>\<newline>=== demo_sendmsg_recvmsg ===\<newline>'' @
      ''Sending message: with not explicit name since using socket pair :\<newline>'' @
      ''vectors at '' @ fmt_p (addr ''iov'') @ '' '' @ [CHR 0x27] @ ''Part-A-'' @ [CHR 0x27] @ '' '' @ [CHR 0x27] @ ''Part-B'' @ [CHR 0x27] @ '' \<newline>'' @
      ''Read message named: '' @ [CHR 0x27, CHR 0x27] @ ''\<newline>  text: '' @ [CHR 0x27] @ ''Part-A-Part-B'' @ [CHR 0x27] @
      '' vectors at '' @ fmt_p (addr ''riov'') @ '' \<newline>\<newline>=== demo_sendmmsg_recvmmsg ===\<newline>'' @
      ''sendmmsg sent 2 messages\<newline>recvmmsg received 2 messages\<newline>batch recv: [msg1-part1-msg1-part2]\<newline>'' @
      ''batch recv: [msg2-part1-msg2-part2]\<newline>\<newline>=== demo_vmsplice ===\<newline>vmsplice->pipe read: [Data-for-vmsplice]\<newline>\<newline>'' @
      ''=== demo_process_vm_readv_writev (self) ===\<newline>process_vm_readv read 18 bytes: out: [SECRET_DATA_12345]\<newline>'' @
      ''process_vm_writev wrote 28 bytes; out now: out: [WRITTEN_BY_process_vm_writev]\<newline>\<newline>Done.\<newline>''"
proof -
  have d: "fmt_d 20 = ''20''" "fmt_d 2 = ''2''" "fmt_d 18 = ''18''" "fmt_d 28 = ''28''"
    by code_simp+
  have t: "cstr ''Hello, writev/readv!'' = ''Hello, writev/readv!''" "cstr ''Part-A-Part-B'' = ''Part-A-Part-B''"
      "cstr ''msg1-part1-msg1-part2'' = ''msg1-part1-msg1-part2''" "cstr ''msg2-part1-msg2-part2'' = ''msg2-part1-msg2-part2''"
      "cstr ''Data-for-vmsplice'' = ''Data-for-vmsplice''" "NUL \<notin> set ''Segment-1:Segment-2:''"
    by code_simp+
  have l: "length ''Hello, writev/readv!'' \<le> 64" "length ''Segment-1:Segment-2:'' \<le> 31" "length ''Part-A-Part-B'' \<le> 64"
      "length ''msg1-part1-msg1-part2'' \<le> 64" "length ''msg2-part1-msg2-part2'' \<le> 64" "0 \<le> rv (rep 2)"
    by simp_all
  note parts = readv_does [OF assms(1,6) l(1), of addr c1 c2] preadv_does [OF assms(5,7) l(2) t(6), of u c3]
    sendmsg_does [OF assms(3,8) l(3), of addr c4 c5] sendmmsg_does [OF assms(4) l(6,4,5), of c6 c7]
    vmsplice_does [where have_macro = have_macro, OF assms(2,9,10), of "''Data-for-vmsplice''" c8 c9] process_vm_does [of i]
  note run = does_block(2) [OF does_basic(2) [of "''iovec/syscall demo\<newline>\<newline>''"] does_block(2) [OF does_basic(3)
    does_block(2) [OF parts(1) does_block(2) [OF parts(2) does_block(2) [OF parts(3) does_block(2) [OF parts(4)
    does_block(2) [OF parts(5) does_block(2) [OF parts(6) does_block(2) [OF does_basic(2) [of "''Done.\<newline>''"]
    does_block(2) [OF does_basic(3) does_block(1)]]]]]]]]]]
  show ?thesis
    using does_program [OF run, of 0 m rest]
    by (simp add: iovec_demo_main_def d t)
qed

theorem iovec_demo_run_witness:
  "\<exists>s'. iovec_demo_main (\<lambda>_. True) (\<lambda>_. 4096) (start FullyBuffered ([
        rep 0, rep 20, data_reply (concat [''Hello, '', ''writev/readv!'']), rep 0, rep 0,
        rep 3, rep 0, rep 20, data_reply (concat [''Segment-1:'', ''Segment-2:'']), rep 0,
        rep 0, rep 13, data_reply (concat [''Part-A-'', ''Part-B'']), rep 0, rep 0,
        rep 0, rep 2, two_messages (concat [''msg1-part1-'', ''msg1-part2'']) (concat [''msg2-part1-'', ''msg2-part2'']), rep 0, rep 0,
        rep 0, rep 17, data_reply ''Data-for-vmsplice'', rep 0, rep 0,
        rep 42, rep 18, rep 28] @ [])) = (Exited 0, s')"
  using iovec_demo_run [of "rep 0" "rep 0" "rep 0" "rep 0" "rep 3" "rep 20" "rep 20" "rep 13" "rep 17" "\<lambda>_. True" "\<lambda>_. 4096" FullyBuffered
      "rep 0" "rep 0" "rep 0" "rep 0" "rep 0" "rep 0" "rep 0" "rep 0" "rep 0" "rep 0" "rep 42" "[]"]
  by (auto simp del: concat.simps)

end
