(* ===== verification/Datagrams.thy ===== *)
theory Datagrams
  imports Scatter_Gather
begin

text \<open>
  \<^verbatim>\<open>recvmsg.c\<close> and \<^verbatim>\<open>recvmsg-flush.c\<close>: one thread sends a datagram in two parts, another receives it
  into two buffers and prints them. The two programs have the same calls and differ in what they
  print and flush.

  The reply of \<^verbatim>\<open>recvmsg\<close> has the length of the sender's address as its first number, and its bytes
  are the address followed by the message. The address is an IPv4 socket address: two bytes of family
  in the byte order of the machine, the port and the host in network order.
\<close>

abbreviation MSG_PORT :: int where "MSG_PORT \<equiv> 12345"
abbreviation MSG_BUF_SIZE :: nat where "MSG_BUF_SIZE \<equiv> 1024"
abbreviation NUMBUFS :: nat where "NUMBUFS \<equiv> 2"

subsection \<open>Addresses\<close>

definition sender_name :: "reply \<Rightarrow> string" where
  "sender_name r = take (min 16 (nat (out_int 0 r))) (bytes r)"

definition message_data :: "reply \<Rightarrow> string" where
  "message_data r = take (nat (rv r)) (drop (min 16 (nat (out_int 0 r))) (bytes r))"

definition inet_ntop :: "nat list \<Rightarrow> string" where
  "inet_ntop bs = fmt_u (bs ! 0) @ ''.'' @ fmt_u (bs ! 1) @ ''.'' @ fmt_u (bs ! 2) @ ''.'' @ fmt_u (bs ! 3)"

text \<open>The end of the line both programs print: \<^verbatim>\<open>%s:%d  %d:%d:\n\<close> with the host, the port, and the two
  fields as plain integers.\<close>

definition from_text :: "bool \<Rightarrow> nat list \<Rightarrow> nat list \<Rightarrow> string" where
  "from_text big_endian port host = inet_ntop host @ '':'' @ fmt_u (be_val port) @ ''  '' @
     fmt_d (int32 (int (raw_val big_endian host))) @ '':'' @ fmt_u (raw_val big_endian port) @ '':\<newline>''"

definition sockaddr_in :: "bool \<Rightarrow> nat \<Rightarrow> nat list \<Rightarrow> string" where
  "sockaddr_in big_endian port host = map char_of ((if big_endian then [0, 2] else [2, 0]) @
     [port div 256 mod 256, port mod 256] @ host @ replicate 8 0)"

subsection \<open>\<^verbatim>\<open>recvmsg.c\<close>\<close>

text \<open>\<^verbatim>\<open>buffer[NUMBUFS][BUF_SIZE]\<close> is one array, of which \<^verbatim>\<open>buffer[i]\<close> is a part.\<close>

definition recv_places :: "place list" where
  "recv_places = map (\<lambda>i. (0, i * MSG_BUF_SIZE, MSG_BUF_SIZE - 1)) [0..<NUMBUFS]"

definition recv_buffer :: "reply \<Rightarrow> memory" where
  "recv_buffer r = scatter recv_places (message_data r) [unset (NUMBUFS * MSG_BUF_SIZE)] ! 0"

definition sender_addr :: "reply \<Rightarrow> memory" where
  "sender_addr r = poke 0 (sender_name r) (unset 16)"

definition received_line :: "bool \<Rightarrow> reply \<Rightarrow> unit stm" where
  "received_line big_endian r =
     with_value (scan (nat (out_int 0 r)) (sender_addr r)) (\<lambda>name.
     with_value (byte_vals (sender_addr r) 2 2) (\<lambda>port. with_value (byte_vals (sender_addr r) 4 4) (\<lambda>host.
     printf (''Received message: '' @ [CHR 0x27] @ name @ [CHR 0x27] @ '' from '' @ from_text big_endian port host))))"

definition print_part :: "reply \<Rightarrow> int \<Rightarrow> unit \<Rightarrow> unit stm" where
  "print_part r i _ = with_value (scan (MSG_BUF_SIZE - 1) (drop (nat i * MSG_BUF_SIZE) (recv_buffer r))) (\<lambda>t.
     printf ('' '' @ [CHR 0x27] @ t @ [CHR 0x27, NL]))"

definition recv_thread :: "bool \<Rightarrow> unit stm" where
  "recv_thread big_endian = bindS (sysv Socket) (\<lambda>sockfd.
     if sockfd < 0 then perror ''socket''
     else bindS (sysv (Bind sockfd MSG_PORT)) (\<lambda>b.
       if b < 0 then block [perror ''bind'', do_call (Close sockfd)]
       else block [
         printf (''Waiting for message on port '' @ fmt_d MSG_PORT @ ''...\<newline>''),
         bindS (sys (Recvmsg sockfd recv_places)) (\<lambda>r.
           if rv r < 0 then block [perror ''recvmsg'', do_call (Close sockfd)]
           else block [
             received_line big_endian r,
             for_loop 0 (int NUMBUFS) (print_part r) (),
             do_call (Close sockfd)])]))"

definition msg_text :: string where "msg_text = ''Hello from sendmsg!''"
definition msg_text2 :: string where "msg_text2 = ''A little something extra''"

definition own_name :: "bool \<Rightarrow> memory" where
  "own_name big_endian = map Some (sockaddr_in big_endian (nat MSG_PORT) [127, 0, 0, 1])"

definition sending_lines :: "bool \<Rightarrow> unit stm" where
  "sending_lines big_endian = with_value (scan 16 (own_name big_endian)) (\<lambda>name. block [
     printf (''Sending message: '' @ [CHR 0x27] @ name @ [CHR 0x27] @ '' from 127.0.0.1:'' @ fmt_d MSG_PORT @ '' :\<newline>''),
     printf ('' '' @ [CHR 0x27] @ msg_text @ [CHR 0x27, NL]),
     printf ('' '' @ [CHR 0x27] @ msg_text2 @ [CHR 0x27, NL])])"

definition sender_thread :: "bool \<Rightarrow> unit stm" where
  "sender_thread big_endian = bindS (sysv Socket) (\<lambda>sockfd. block [
     sending_lines big_endian,
     do_call (Sendmsg sockfd [msg_text, msg_text2]),
     do_call (Close sockfd)])"

text \<open>A thread that could not be created leaves its identifier without a value.\<close>

definition tid_of :: "reply \<Rightarrow> int option" where
  "tid_of r = (if rv r = 0 then Some (out_int 0 r) else None)"

definition recvmsg_main :: "unit stm" where
  "recvmsg_main = bindS (sys (Pthread_create ''recv_thread'' 0)) (\<lambda>recv_tid. block [
     do_call (Sleep 1),
     bindS (sys (Pthread_create ''sender_thread'' 0)) (\<lambda>sender_tid. block [
       printf ''Created threads\<newline>'', fflush,
       with_value (tid_of sender_tid) (\<lambda>t. do_call (Pthread_join t)),
       with_value (tid_of recv_tid) (\<lambda>t. do_call (Pthread_join t)),
       printf ''All threads done\<newline>'', fflush,
       exit 0])])"

subsection \<open>\<^verbatim>\<open>recvmsg-flush.c\<close>\<close>

definition flush_received_line :: "bool \<Rightarrow> (string \<Rightarrow> int) \<Rightarrow> reply \<Rightarrow> unit stm" where
  "flush_received_line big_endian addr r =
     with_value (byte_vals (sender_addr r) 2 2) (\<lambda>port. with_value (byte_vals (sender_addr r) 4 4) (\<lambda>host. block [
     printf (''Received message: '' @ fmt_p (addr ''sender_addr'') @ '' for '' @ fmt_d (out_int 0 r) @
       '' bytes from '' @ from_text big_endian port host),
     fflush]))"

definition flush_print_part :: "reply \<Rightarrow> int \<Rightarrow> unit \<Rightarrow> unit stm" where
  "flush_print_part r i _ = with_value (scan (MSG_BUF_SIZE - 1) (drop (nat i * MSG_BUF_SIZE) (recv_buffer r))) (\<lambda>t.
     block [printf ('' '' @ [CHR 0x27] @ t @ [CHR 0x27, NL]), fflush])"

definition flush_recv_thread :: "bool \<Rightarrow> (string \<Rightarrow> int) \<Rightarrow> int \<Rightarrow> unit stm" where
  "flush_recv_thread big_endian addr sizeof_msg = bindS (sysv Socket) (\<lambda>sockfd.
     if sockfd < 0 then perror ''socket''
     else bindS (sysv (Bind sockfd MSG_PORT)) (\<lambda>b.
       if b < 0 then block [perror ''bind'', do_call (Close sockfd)]
       else block [
         printf (''Waiting for message on port '' @ fmt_d MSG_PORT @ ''...\<newline>''),
         printf (''msg struct '' @ fmt_p (addr ''msg'') @ '', name field '' @ fmt_p (addr ''msg.msg_name'') @
           '', name len field '' @ fmt_p (addr ''msg.msg_namelen'') @ '', iov field '' @ fmt_p (addr ''msg.msg_iov'') @
           '', struct size '' @ fmt_x sizeof_msg @ ''\<newline>''),
         fflush,
         bindS (sys (Recvmsg sockfd recv_places)) (\<lambda>r.
           if rv r < 0 then block [perror ''recvmsg'', do_call (Close sockfd)]
           else block [
             flush_received_line big_endian addr r,
             for_loop 0 (int NUMBUFS) (flush_print_part r) (),
             do_call (Close sockfd)])]))"

definition flush_sender_thread :: "bool \<Rightarrow> unit stm" where
  "flush_sender_thread big_endian = bindS (sysv Socket) (\<lambda>sockfd. block [
     sending_lines big_endian, fflush,
     do_call (Sendmsg sockfd [msg_text, msg_text2]),
     do_call (Close sockfd)])"

definition recvmsg_flush_main :: "unit stm" where
  "recvmsg_flush_main = recvmsg_main"

subsection \<open>What is printed of the buffers\<close>

text \<open>\<open>part r i\<close> is what \<^verbatim>\<open>recvmsg\<close> stores in \<^verbatim>\<open>buffer[i]\<close>. It can be printed with precision 1023 only
  if it has a NUL byte or is that long.\<close>

definition part :: "reply \<Rightarrow> nat \<Rightarrow> string" where
  "part r i = take (MSG_BUF_SIZE - 1) (drop (i * (MSG_BUF_SIZE - 1)) (message_data r))"

definition printable :: "string \<Rightarrow> bool" where
  "printable p \<longleftrightarrow> NUL \<in> set p \<or> length p = MSG_BUF_SIZE - 1"

lemma length_part: "length (part r i) \<le> 1023"
  by (simp add: part_def)

lemma recv_buffer_parts:
  "\<exists>m. recv_buffer r = map Some (part r 0) @ None # m" "\<exists>m. drop MSG_BUF_SIZE (recv_buffer r) = map Some (part r 1) @ None # m"
proof -
  have places: "recv_places = [(0, 0, 1023), (0, 1024, 1023)]"
    by (simp add: recv_places_def numeral_eq_Suc)
  have b: "recv_buffer r = poke 1024 (part r 1) (poke 0 (part r 0) (unset 2048))"
    by (simp add: recv_buffer_def places part_def)
  obtain k where k: "1024 - length (part r 0) = Suc k"
    using length_part [of r 0] by (cases "1024 - length (part r 0)") auto
  then have "take 1024 (poke 0 (part r 0) (unset 2048)) = map Some (part r 0) @ None # replicate k None"
    using length_part [of r 0] by (simp add: poke_def unset_def take_append)
  then show "\<exists>m. recv_buffer r = map Some (part r 0) @ None # m"
    by (simp add: b poke_def [of 1024])
  obtain j where j: "1024 - length (part r 1) = Suc j"
    using length_part [of r 1] by (cases "1024 - length (part r 1)") auto
  have "drop (1024 + length (part r 1)) (poke 0 (part r 0) (unset 2048)) = None # unset j"
    using length_part [of r 0] length_part [of r 1] j by (simp add: poke_def unset_def)
  moreover have "length (take 1024 (poke 0 (part r 0) (unset 2048))) = 1024"
    using length_part [of r 0] by (simp add: length_poke)
  ultimately show "\<exists>m. drop MSG_BUF_SIZE (recv_buffer r) = map Some (part r 1) @ None # m"
    by (simp add: b poke_def [of 1024])
qed

definition shown :: "string \<Rightarrow> string option" where
  "shown p = (if printable p then Some (cstr p) else None)"

lemma cstr_printable: "NUL \<notin> set p \<Longrightarrow> shown p = (if length p = 1023 then Some p else None)"
  by (simp add: shown_def printable_def cstr_id)

lemma scan_part:
  "scan 1023 (recv_buffer r) = shown (part r 0)" "scan 1023 (drop MSG_BUF_SIZE (recv_buffer r)) = shown (part r 1)"
  using recv_buffer_parts [of r] length_part [of r 0] length_part [of r 1]
  by (auto simp: scan_partly shown_def printable_def cstr_id)

lemma print_parts_run:
  "for_loop 0 2 (print_part r) () s = (case shown (part r 0) of None \<Rightarrow> (Undefined unset_byte, s)
     | Some t \<Rightarrow> (case shown (part r 1) of
         None \<Rightarrow> (Undefined unset_byte, put_out ('' '' @ [CHR 0x27] @ t @ [CHR 0x27, NL]) s)
       | Some u \<Rightarrow> (Ret (), put_out ('' '' @ [CHR 0x27] @ u @ [CHR 0x27, NL]) (put_out ('' '' @ [CHR 0x27] @ t @ [CHR 0x27, NL]) s))))"
  using scan_part [of r] by (simp add: for_loop_step for_loop_empty print_part_def eval_simps split: option.split)

lemma flush_parts_run:
  "for_loop 0 2 (flush_print_part r) () s = (case shown (part r 0) of None \<Rightarrow> (Undefined unset_byte, s)
     | Some t \<Rightarrow> (case shown (part r 1) of
         None \<Rightarrow> (Undefined unset_byte, flush_out (put_out ('' '' @ [CHR 0x27] @ t @ [CHR 0x27, NL]) s))
       | Some u \<Rightarrow> (Ret (), flush_out (put_out ('' '' @ [CHR 0x27] @ u @ [CHR 0x27, NL])
           (flush_out (put_out ('' '' @ [CHR 0x27] @ t @ [CHR 0x27, NL]) s))))))"
  using scan_part [of r] by (simp add: for_loop_step for_loop_empty flush_print_part_def eval_simps split: option.split)

subsection \<open>Both programs\<close>

lemma name_read:
  assumes "out_int 0 r = 16" "16 \<le> length (bytes r)"
  shows "scan 16 (sender_addr r) = Some (cstr (take 16 (bytes r)))"
    and "byte_vals (sender_addr r) 2 2 = Some (map of_char (take 2 (drop 2 (bytes r))))"
    and "byte_vals (sender_addr r) 4 4 = Some (map of_char (take 4 (drop 4 (bytes r))))"
proof -
  have a: "sender_addr r = map Some (take 16 (bytes r)) @ []" "length (take 16 (bytes r)) = 16"
    using assms by (simp_all add: sender_addr_def sender_name_def poke_def unset_def min_def)
  show "scan 16 (sender_addr r) = Some (cstr (take 16 (bytes r)))"
    unfolding a(1) using a(2) scan_within [of 16 "take 16 (bytes r)" "[]"] by simp
  show "byte_vals (sender_addr r) 2 2 = Some (map of_char (take 2 (drop 2 (bytes r))))"
    "byte_vals (sender_addr r) 4 4 = Some (map of_char (take 4 (drop 4 (bytes r))))"
    unfolding a(1) using a(2) byte_vals_stored [of 2 2 "take 16 (bytes r)" "[]"] byte_vals_stored [of 4 4 "take 16 (bytes r)" "[]"]
    by (simp_all add: drop_take)
qed

text \<open>C28. When the sender's address is complete, the receiver of \<^verbatim>\<open>recvmsg.c\<close> stays defined exactly when each
  of the two buffers it prints got a NUL byte or was filled: the length of the message is not used, so
  a message that is shorter than the buffers and has no NUL bytes is printed together with bytes that
  were never set.\<close>

theorem recv_thread_defined_iff:
  assumes "0 \<le> rv a" "0 \<le> rv b" "0 \<le> rv r" "out_int 0 r = 16" "16 \<le> length (bytes r)"
  shows "(\<exists>w. fst (recv_thread big_endian (start m (a # b # r # rest))) = Undefined w) \<longleftrightarrow>
    \<not> (printable (part r 0) \<and> printable (part r 1))"
  using assms name_read [OF assms(4,5)]
  by (cases rest) (auto simp: recv_thread_def received_line_def eval_simps obs_simps print_parts_run shown_def)

theorem recv_thread_defined_iff_witness:
  "(\<exists>w. fst (recv_thread False (start Unbuffered [rep 3, rep 0,
      (rep 2)\<lparr>bytes := sockaddr_in False 40000 [127, 0, 0, 1] @ ''hi'', outs := [16]\<rparr>])) = Undefined w) \<longleftrightarrow>
    \<not> (printable ''hi'' \<and> printable [])"
  using recv_thread_defined_iff [of "rep 3" "rep 0" "(rep 2)\<lparr>bytes := sockaddr_in False 40000 [127, 0, 0, 1] @ ''hi'', outs := [16]\<rparr>"
      False Unbuffered "[]"]
  by (simp add: out_int_def sockaddr_in_def part_def message_data_def)

text \<open>C21. The two threads of \<^verbatim>\<open>recvmsg.c\<close> together: whatever the sender's replies are, the only datagram it sends
  is one that its own receiver cannot print, on machines of either byte order.\<close>

theorem own_datagram_unprintable:
  assumes "(Sendmsg fd parts, x) \<in> set (calls (snd (sender_thread big_endian (start m' rs))))"
    and "0 \<le> rv a" "0 \<le> rv b" "length host = 4" "out_int 0 r = 16" "rv r = int (length (concat parts))"
    and "bytes r = sockaddr_in big_endian port host @ concat parts"
  shows "parts = [msg_text, msg_text2] \<and>
    fst (recv_thread big_endian (start m (a # b # r # rest))) = Undefined unset_byte"
proof -
  have "parts = [msg_text, msg_text2]"
    using assms(1) by (cases rs; cases "tl rs"; cases "tl (tl rs)")
      (auto simp: sender_thread_def sending_lines_def eval_simps obs_simps split: option.splits)
  moreover have "length (sockaddr_in big_endian port host) = 16"
    using assms(4) by (simp add: sockaddr_in_def)
  ultimately have "part r 0 = msg_text @ msg_text2" "part r 1 = []" "16 \<le> length (bytes r)" "0 \<le> rv r"
    using assms(5,6,7) by (simp_all add: part_def message_data_def msg_text_def msg_text2_def)
  moreover have "\<not> printable (msg_text @ msg_text2)"
    by (simp add: printable_def msg_text_def msg_text2_def NUL_def)
  ultimately show ?thesis
    using \<open>parts = _\<close> assms(2,3,5) name_read [OF assms(5)]
    by (simp add: recv_thread_def received_line_def eval_simps obs_simps print_parts_run shown_def)
qed

theorem own_datagram_unprintable_witness:
  "fst (recv_thread False (start Unbuffered (rep 3 # rep 0 #
     (rep 43)\<lparr>bytes := sockaddr_in False 40000 [127, 0, 0, 1] @ concat [msg_text, msg_text2], outs := [16]\<rparr> # []))) = Undefined unset_byte"
proof -
  let ?r = "(rep 43)\<lparr>bytes := sockaddr_in False 40000 [127, 0, 0, 1] @ concat [msg_text, msg_text2], outs := [16]\<rparr>"
  have "scan 16 (own_name False) = Some [CHR 0x02]"
    by code_simp
  then have "(Sendmsg 5 [msg_text, msg_text2], rep 43) \<in> set (calls (snd (sender_thread False (start Unbuffered [rep 5, rep 43]))))"
    by (auto simp: sender_thread_def sending_lines_def eval_simps obs_simps)
  from own_datagram_unprintable [OF this, of "rep 3" "rep 0" "[127, 0, 0, 1]" ?r 40000 Unbuffered "[]"]
  show ?thesis
    by (simp add: out_int_def msg_text_def msg_text2_def)
qed

text \<open>C26. \<^verbatim>\<open>recvmsg-flush.c\<close> is the same program as \<^verbatim>\<open>recvmsg.c\<close> as far as the kernel is concerned: for every list
  of replies on which the receiver of \<^verbatim>\<open>recvmsg.c\<close> stays defined, the other one makes the same calls
  and ends the same way, in every buffering mode and at every address; the senders also print the
  same.\<close>

theorem flush_equivalent:
  assumes "\<And>w. fst (recv_thread big_endian (start m rs)) \<noteq> Undefined w"
  shows "fst (flush_recv_thread big_endian addr sz (start m' rs)) = fst (recv_thread big_endian (start m rs)) \<and>
    calls (snd (flush_recv_thread big_endian addr sz (start m' rs))) = calls (snd (recv_thread big_endian (start m rs))) \<and>
    fst (flush_sender_thread big_endian (start m' rs')) = fst (sender_thread big_endian (start m rs')) \<and>
    calls (snd (flush_sender_thread big_endian (start m' rs'))) = calls (snd (sender_thread big_endian (start m rs'))) \<and>
    printed (snd (flush_sender_thread big_endian (start m' rs'))) = printed (snd (sender_thread big_endian (start m rs')))"
proof -
  have "fst (flush_recv_thread big_endian addr sz (start m' rs)) = fst (recv_thread big_endian (start m rs)) \<and>
    calls (snd (flush_recv_thread big_endian addr sz (start m' rs))) = calls (snd (recv_thread big_endian (start m rs)))"
    using assms [of unset_byte] by (cases rs; cases "tl rs"; cases "tl (tl rs)"; cases "tl (tl (tl rs))")
      (auto simp: recv_thread_def flush_recv_thread_def received_line_def flush_received_line_def eval_simps obs_simps
        print_parts_run flush_parts_run split: option.splits if_splits)
  moreover have "fst (flush_sender_thread big_endian (start m' rs')) = fst (sender_thread big_endian (start m rs')) \<and>
    calls (snd (flush_sender_thread big_endian (start m' rs'))) = calls (snd (sender_thread big_endian (start m rs'))) \<and>
    printed (snd (flush_sender_thread big_endian (start m' rs'))) = printed (snd (sender_thread big_endian (start m rs')))"
    by (cases rs'; cases "tl rs'"; cases "tl (tl rs')")
      (auto simp: sender_thread_def flush_sender_thread_def sending_lines_def eval_simps obs_simps split: option.splits)
  ultimately show ?thesis
    by blast
qed

theorem flush_equivalent_witness:
  "calls (snd (flush_recv_thread False (\<lambda>_. 0) 56 (start Unbuffered [rep (-1)]))) =
    calls (snd (recv_thread False (start FullyBuffered [rep (-1)])))"
proof -
  have "fst (recv_thread False (start FullyBuffered [rep (-1)])) \<noteq> Undefined w" for w
    by (simp add: recv_thread_def eval_simps obs_simps)
  from flush_equivalent [OF this] show ?thesis
    by blast
qed

text \<open>The sender's address is printed as it was sent, in host and in network order.\<close>

theorem sender_address_text:
  assumes "length host = 4" "\<forall>b \<in> set host. b < 256" "port < 65536"
  shows "from_text big_endian (map of_char (take 2 (drop 2 (sockaddr_in big_endian port host))))
      (map of_char (take 4 (drop 4 (sockaddr_in big_endian port host)))) =
    inet_ntop host @ '':'' @ fmt_u port @ ''  '' @ fmt_d (int32 (int (raw_val big_endian host))) @ '':'' @
      fmt_u (if big_endian then port else port mod 256 * 256 + port div 256) @ '':\<newline>''"
proof -
  have "map (of_char \<circ> char_of) host = host"
    using assms(2) by (intro map_idI) simp
  moreover have "port div 256 mod 256 = port div 256"
    using assms(3) by simp
  moreover have "port div 256 * 256 + port mod 256 = port"
    by simp
  ultimately show ?thesis
    using assms(1) by (simp add: from_text_def sockaddr_in_def be_val_def le_val_def raw_val_def ac_simps)
qed

end
