(* ===== verification/Message_Queue.thy ===== *)
theory Message_Queue
  imports Scatter_Gather
begin

text \<open>
  \<^verbatim>\<open>msgtest.c\<close>: System V message queues. The program makes a queue twice to see the second attempt
  fail, removes it, makes it again, sends two messages and receives them in the opposite order by their
  types. What the kernel promises for message queues is the locale \<open>msg_kernel\<close>.
\<close>

abbreviation "Ftok path proj \<equiv> Call ''ftok'' [S path, I proj]"
abbreviation "Msgget key flags \<equiv> Call ''msgget'' [I key, I flags]"
abbreviation "Msgctl msgid cmd \<equiv> Call ''msgctl'' [I msgid, I cmd]"
abbreviation "Msgsnd msgid ty t flags \<equiv> Call ''msgsnd'' [I msgid, I ty, S t, I flags]"
abbreviation "Msgrcv msgid n ty flags \<equiv> Call ''msgrcv'' [I msgid, I n, I ty, I flags]"

abbreviation MSG_CREAT :: int where "MSG_CREAT \<equiv> 950" \<comment> \<open>0666 | IPC_CREAT\<close>
abbreviation MSG_EXCL :: int where "MSG_EXCL \<equiv> 1974" \<comment> \<open>0666 | IPC_CREAT | IPC_EXCL\<close>
abbreviation MSG_RMID :: int where "MSG_RMID \<equiv> 0"

subsection \<open>The program\<close>

abbreviation MSG_SIZE :: nat where "MSG_SIZE \<equiv> 100"

definition text1 :: string where "text1 = ''Hello, this is a message of type 1''"
definition text2 :: string where "text2 = ''Hello, this is a message of type 2''"

definition fail :: "bool \<Rightarrow> string \<Rightarrow> unit stm" where
  "fail b w = only_if b [perror w, exit 1]"

definition queue_line :: "string \<Rightarrow> int \<Rightarrow> int \<Rightarrow> string" where
  "queue_line what msgid key = what @ '' msg queue '' @ fmt_d msgid @ '' for key 0x'' @ fmt_x key @ ''\<newline>''"

definition exclusive_test :: "int \<Rightarrow> unit stm" where
  "exclusive_test key = bindS (sysv (Msgget key MSG_EXCL)) (\<lambda>msgid. block [
     fail (msgid = -1) ''msgget failed'',
     bindS (sysv (Msgget key MSG_EXCL)) (\<lambda>newmsgid. fail (newmsgid \<noteq> -1) ''msgget which should fail did not''),
     bindS (sysv (Msgctl msgid MSG_RMID)) (\<lambda>v. fail (v = -1) ''msgctl destroy failed''),
     printf (queue_line ''Created and destroyed'' msgid key), fflush])"

text \<open>All 100 bytes of \<^verbatim>\<open>msg_text\<close> are sent, of which \<^verbatim>\<open>strcpy\<close> sets the first 35; \<open>junk\<close> is what the array
  held before.\<close>

definition send :: "int \<Rightarrow> int \<Rightarrow> string \<Rightarrow> unit stm" where
  "send msgid ty msg_text = block [
     bindS (sysv (Msgsnd msgid ty msg_text 0)) (\<lambda>v. fail (v = -1) ''msgsnd failed''),
     printf (''Message '' @ fmt_d ty @ '' sent: '' @ cstr msg_text @ ''\<newline>''), fflush]"

definition receive :: "int \<Rightarrow> int \<Rightarrow> memory \<Rightarrow> memory stm" where
  "receive msgid ty received_msg = bindS (sys (Msgrcv msgid (int MSG_SIZE) ty 0)) (\<lambda>r.
     let received_msg = poke 0 (delivered r) received_msg in
     bindS (fail (rv r = -1) ''msgrcv failed'') (\<lambda>_.
     bindS (with_value (scan (nat (rv r)) received_msg) (\<lambda>t. block [
       printf (''Message '' @ fmt_d ty @ '' received: '' @ t @ ''\<newline>''), fflush])) (\<lambda>_.
     ret received_msg)))"

definition exchange :: "int \<Rightarrow> string \<Rightarrow> unit stm" where
  "exchange key junk = bindS (sysv (Msgget key MSG_CREAT)) (\<lambda>msgid.
     let msg1 = overwrite junk (text1 @ [NUL]); msg2 = overwrite msg1 (text2 @ [NUL]) in block [
     fail (msgid = -1) ''msgget failed'',
     printf (queue_line ''Recreated'' msgid key), fflush,
     send msgid 1 msg1,
     send msgid 2 msg2,
     bindS (receive msgid 2 (unset MSG_SIZE)) (\<lambda>received_msg.
     bindS (receive msgid 1 received_msg) (\<lambda>_. skip)),
     bindS (sysv (Msgctl msgid MSG_RMID)) (\<lambda>v. fail (v = -1) ''msgctl destroy failed'')])"

definition msgtest_main :: "string \<Rightarrow> unit stm" where
  "msgtest_main junk = bindS (sysv (Ftok ''msgtest-stat'' 17)) (\<lambda>key. block [
     exclusive_test key,
     exchange key junk,
     exit 0])"

subsection \<open>The kernel\<close>

text \<open>
  \<open>queue k key\<close>: the queue with that key, if there is one, as its identifier and the messages in it,
  oldest first. Keys other than \<^verbatim>\<open>IPC_PRIVATE\<close> (0) name one queue; \<^verbatim>\<open>IPC_EXCL\<close> fails when it exists;
  \<^verbatim>\<open>msgsnd\<close> appends, and has room for two messages; \<^verbatim>\<open>msgrcv\<close> with a positive type takes the oldest
  message of that type and waits while there is none. Queues can be made as long as none has the key,
  so the limits of the system are not reached.
\<close>

type_synonym msgs = "(int \<times> string) list"

definition first_of :: "int \<Rightarrow> msgs \<Rightarrow> (string \<times> msgs) option" where
  "first_of ty ms = (case dropWhile (\<lambda>m. fst m \<noteq> ty) ms of [] \<Rightarrow> None
     | m # rest \<Rightarrow> Some (snd m, takeWhile (\<lambda>m. fst m \<noteq> ty) ms @ rest))"

locale msg_kernel =
  fixes queue :: "'k \<Rightarrow> int \<Rightarrow> (int \<times> msgs) option"
    and kstep :: "'k \<Rightarrow> call \<Rightarrow> reply \<Rightarrow> 'k \<Rightarrow> bool"
  assumes ftok_done: "kstep k (Ftok path proj) r k' \<Longrightarrow> queue k' = queue k"
    and excl_new: "key \<noteq> 0 \<Longrightarrow> queue k key = None \<Longrightarrow> kstep k (Msgget key MSG_EXCL) r k' \<Longrightarrow>
      0 \<le> rv r \<and> queue k' = (queue k)(key \<mapsto> (rv r, []))"
    and excl_old: "key \<noteq> 0 \<Longrightarrow> queue k key = Some q \<Longrightarrow> kstep k (Msgget key MSG_EXCL) r k' \<Longrightarrow>
      rv r = -1 \<and> queue k' = queue k"
    and creat_new: "key \<noteq> 0 \<Longrightarrow> queue k key = None \<Longrightarrow> kstep k (Msgget key MSG_CREAT) r k' \<Longrightarrow>
      0 \<le> rv r \<and> queue k' = (queue k)(key \<mapsto> (rv r, []))"
    and rmid_done: "queue k key = Some (msgid, ms) \<Longrightarrow> kstep k (Msgctl msgid MSG_RMID) r k' \<Longrightarrow>
      rv r = 0 \<and> queue k' = (queue k)(key := None)"
    and snd_done: "queue k key = Some (msgid, ms) \<Longrightarrow> 0 < ty \<Longrightarrow> kstep k (Msgsnd msgid ty t 0) r k' \<Longrightarrow>
      rv r = 0 \<and> queue k' = (queue k)(key \<mapsto> (msgid, ms @ [(ty, t)]))"
    and rcv_done: "queue k key = Some (msgid, ms) \<Longrightarrow> 0 < ty \<Longrightarrow> first_of ty ms = Some (t, ms') \<Longrightarrow>
      int (length t) \<le> n \<Longrightarrow> kstep k (Msgrcv msgid n ty 0) r k' \<Longrightarrow>
      rv r = int (length t) \<and> bytes r = t \<and> queue k' = (queue k)(key \<mapsto> (msgid, ms'))"
    and ftok_free: "\<exists>r k'. kstep k (Ftok path proj) r k'"
    and get_free: "\<exists>r k'. kstep k (Msgget key MSG_EXCL) r k'" "\<exists>r k'. kstep k (Msgget key MSG_CREAT) r k'"
    and rmid_free: "queue k key = Some (msgid, ms) \<Longrightarrow> \<exists>r k'. kstep k (Msgctl msgid MSG_RMID) r k'"
    and snd_free: "queue k key = Some (msgid, ms) \<Longrightarrow> length ms < 2 \<Longrightarrow> length t \<le> MSG_SIZE \<Longrightarrow>
      0 < ty \<Longrightarrow> \<exists>r k'. kstep k (Msgsnd msgid ty t 0) r k'"
    and rcv_free: "queue k key = Some (msgid, ms) \<Longrightarrow> 0 < ty \<Longrightarrow> first_of ty ms \<noteq> None \<Longrightarrow>
      \<exists>r k'. kstep k (Msgrcv msgid n ty 0) r k'"
begin

lemma appends_parts [appends_intros]: "appends (fail b w)" "appends (send i ty t)" "appends (receive i ty m)"
  "appends (exclusive_test key)" "appends (exchange key junk)"
  by (auto simp: fail_def send_def receive_def exclusive_test_def exchange_def Let_def intro!: appends_intros)

definition moves :: "'k \<Rightarrow> unit result \<Rightarrow> bool" where
  "moves k e \<longleftrightarrow> (\<exists>c r k'. e = Blocked c \<and> kstep k c r k')"

lemma meets_send:
  assumes "queue k key = Some (msgid, ms)" "0 < ty" "length ms < 2" "length t \<le> MSG_SIZE"
    and "\<And>e s k. moves k e \<Longrightarrow> Q e s k" "appends (g ())"
    and "\<And>k' s'. queue k' = (queue k)(key \<mapsto> (msgid, ms @ [(ty, t)])) \<Longrightarrow>
      printed s' = printed s @ ''Message '' @ fmt_d ty @ '' sent: '' @ cstr t @ ''\<newline>'' \<Longrightarrow> meets kstep k' (g ()) s' Q"
  shows "meets kstep k (bindS (send msgid ty t) g) s Q"
  unfolding send_def block.simps bindS_assoc
proof (rule meets_sysv)
  show "Q (Blocked (Msgsnd msgid ty t 0)) s k"
    using assms(1-5) snd_free by (auto simp: moves_def)
next
  fix r rest k1
  assume "kstep k (Msgsnd msgid ty t 0) r k1"
  with snd_done [OF assms(1,2)] have "rv r = 0" "queue k1 = (queue k)(key \<mapsto> (msgid, ms @ [(ty, t)]))"
    by blast+
  with assms(7) show "meets kstep k1 (bindS (fail (rv r = - 1) ''msgsnd failed'')
      (\<lambda>x. bindS (printf (''Message '' @ fmt_d ty @ '' sent: '' @ cstr t @ ''\<newline>''))
        (\<lambda>x. bindS fflush (\<lambda>x. bindS skip g)))) (logged (Msgsnd msgid ty t 0) r s) Q"
    by (simp add: fail_def meets_simps bindS_ret obs_simps)
qed (use assms(6) in \<open>auto intro!: appends_intros simp: bindS_ret\<close>)

lemma meets_receive:
  assumes "queue k key = Some (msgid, ms)" "0 < ty" "first_of ty ms = Some (t, ms')" "length t \<le> MSG_SIZE"
    and "\<And>e s k. moves k e \<Longrightarrow> Q e s k" "\<And>m. appends (g m)"
    and "\<And>k' s' m. queue k' = (queue k)(key \<mapsto> (msgid, ms')) \<Longrightarrow>
      printed s' = printed s @ ''Message '' @ fmt_d ty @ '' received: '' @ cstr t @ ''\<newline>'' \<Longrightarrow> meets kstep k' (g m) s' Q"
  shows "meets kstep k (bindS (receive msgid ty buf) g) s Q"
  unfolding receive_def bindS_assoc Let_def
proof (rule meets_sys)
  show "Q (Blocked (Msgrcv msgid (int MSG_SIZE) ty 0)) s k"
    using assms(1-5) rcv_free by (auto simp: moves_def)
next
  fix r rest k1
  assume "kstep k (Msgrcv msgid (int MSG_SIZE) ty 0) r k1"
  with rcv_done [OF assms(1,2,3), of "int MSG_SIZE" r k1] assms(4) have "rv r = int (length t)" "bytes r = t" "queue k1 = (queue k)(key \<mapsto> (msgid, ms'))"
    by auto
  with assms(7) show "meets kstep k1 (bindS (fail (rv r = - 1) ''msgrcv failed'') (\<lambda>x.
      bindS (with_value (scan (nat (rv r)) (poke 0 (delivered r) buf)) (\<lambda>t.
        block [printf (''Message '' @ fmt_d ty @ '' received: '' @ t @ ''\<newline>''), fflush])) (\<lambda>x.
      bindS (ret (poke 0 (delivered r) buf)) g))) (logged (Msgrcv msgid (int MSG_SIZE) ty 0) r s) Q"
    by (simp add: fail_def meets_simps bindS_ret bindS_assoc obs_simps delivered_def scan_poke)
qed (use assms(6) in \<open>auto intro!: appends_intros simp: bindS_ret\<close>)

lemma meets_exclusive:
  assumes "key \<noteq> 0" "queue k key = None" "\<And>e s k. moves k e \<Longrightarrow> Q e s k" "appends (g ())"
    and "\<And>k' s' msgid. 0 \<le> msgid \<Longrightarrow> queue k' = queue k \<Longrightarrow>
      printed s' = printed s @ queue_line ''Created and destroyed'' msgid key \<Longrightarrow> meets kstep k' (g ()) s' Q"
  shows "meets kstep k (bindS (exclusive_test key) g) s Q"
  unfolding exclusive_test_def block.simps bindS_assoc
proof (rule meets_sysv)
  show "Q (Blocked (Msgget key MSG_EXCL)) s k"
    using assms(3) get_free by (auto simp: moves_def)
next
  fix r rest k1
  assume k1: "kstep k (Msgget key MSG_EXCL) r k1"
  note q1 = excl_new [OF assms(1,2) k1]
  show "meets kstep k1 (bindS (fail (rv r = - 1) ''msgget failed'') (\<lambda>x.
      bindS (sysv (Msgget key MSG_EXCL)) (\<lambda>x. bindS (fail (x \<noteq> - 1) ''msgget which should fail did not'') (\<lambda>x.
      bindS (sysv (Msgctl (rv r) MSG_RMID)) (\<lambda>x. bindS (fail (x = - 1) ''msgctl destroy failed'') (\<lambda>x.
      bindS (printf (queue_line ''Created and destroyed'' (rv r) key)) (\<lambda>x. bindS fflush (\<lambda>x. bindS skip g))))))))
      (logged (Msgget key MSG_EXCL) r s) Q"
    using q1 unfolding fail_def meets_simps
  proof (simp add: bindS_ret, intro meets_sysv, goal_cases)
    case (2)
    then show ?case
      using assms(3) get_free by (auto simp: moves_def)
  next
    case (3 r2 rest2 k2)
    from q1 have some: "queue k1 key = Some (rv r, [])"
      by simp
    with excl_old [OF assms(1) some] 3 have q2: "rv r2 = -1" "queue k2 = queue k1"
      by blast+
    then have some2: "queue k2 key = Some (rv r, [])"
      using some by simp
    show ?case
      using q2 assms(3) unfolding meets_simps
    proof (simp, intro meets_sysv, goal_cases)
      case 2
      then show ?case
        using assms(3) rmid_free [OF some2] by (auto simp: moves_def)
    next
      case (3 r3 rest3 k3)
      with rmid_done [OF some2] q1 q2 assms(2) have "rv r3 = 0" "queue k3 = queue k"
        by (auto simp: fun_upd_idem)
      with q1 show ?case
        by (simp add: meets_simps bindS_ret) (rule assms(5) [where msgid = "rv r"], simp_all add: obs_simps)
    qed (use assms(4) in \<open>auto intro!: appends_intros simp: bindS_ret\<close>)
  qed (use assms(4) in \<open>auto intro!: appends_intros simp: bindS_ret\<close>)
qed (use assms(4) in \<open>auto intro!: appends_intros simp: bindS_ret\<close>)

lemma meets_remove:
  assumes "queue k key = Some (msgid, ms)" "\<And>e s k. moves k e \<Longrightarrow> Q e s k" "appends (g ())"
    and "\<And>k' s'. queue k' = (queue k)(key := None) \<Longrightarrow> printed s' = printed s \<Longrightarrow> meets kstep k' (g ()) s' Q"
  shows "meets kstep k (bindS (bindS (sysv (Msgctl msgid MSG_RMID)) (\<lambda>v. fail (v = -1) ''msgctl destroy failed'')) g) s Q"
  unfolding bindS_assoc
proof (rule meets_sysv)
  show "Q (Blocked (Msgctl msgid MSG_RMID)) s k"
    using assms(2) rmid_free [OF assms(1)] by (auto simp: moves_def)
next
  fix r rest k1
  assume "kstep k (Msgctl msgid MSG_RMID) r k1"
  with rmid_done [OF assms(1)] have "rv r = 0" "queue k1 = (queue k)(key := None)"
    by blast+
  with assms(4) show "meets kstep k1 (bindS (fail (rv r = - 1) ''msgctl destroy failed'') g) (logged (Msgctl msgid MSG_RMID) r s) Q"
    by (simp add: fail_def meets_simps obs_simps)
qed (use assms(3) in \<open>auto intro!: appends_intros\<close>)

definition exchange_text :: "int \<Rightarrow> int \<Rightarrow> string" where
  "exchange_text msgid key = queue_line ''Recreated'' msgid key @
     ''Message 1 sent: '' @ text1 @ ''\<newline>Message 2 sent: '' @ text2 @
     ''\<newline>Message 2 received: '' @ text2 @ ''\<newline>Message 1 received: '' @ text1 @ ''\<newline>''"

lemma messages_sent:
  assumes "length junk = MSG_SIZE"
  shows "cstr (overwrite junk (text1 @ [NUL])) = text1" "length (overwrite junk (text1 @ [NUL])) = MSG_SIZE"
    "cstr (overwrite (overwrite junk (text1 @ [NUL])) (text2 @ [NUL])) = text2"
    "length (overwrite (overwrite junk (text1 @ [NUL])) (text2 @ [NUL])) = MSG_SIZE"
proof -
  have n: "NUL \<notin> set text1" "NUL \<notin> set text2" "length text1 = 34" "length text2 = 34"
    by (simp_all add: text1_def text2_def NUL_def)
  show "cstr (overwrite junk (text1 @ [NUL])) = text1"
    "cstr (overwrite (overwrite junk (text1 @ [NUL])) (text2 @ [NUL])) = text2"
    using n by (simp_all add: overwrite_def cstr_append_NUL)
  show l: "length (overwrite junk (text1 @ [NUL])) = MSG_SIZE"
    using n assms by (simp add: length_overwrite)
  show "length (overwrite (overwrite junk (text1 @ [NUL])) (text2 @ [NUL])) = MSG_SIZE"
    using n l by (simp add: length_overwrite)
qed

lemma one_digit: "fmt_d 1 = ''1''" "fmt_d 2 = ''2''"
  by code_simp+

lemma meets_exchange:
  assumes "key \<noteq> 0" "queue k key = None" "length junk = MSG_SIZE" "\<And>e s k. moves k e \<Longrightarrow> Q e s k" "appends (g ())"
    and "\<And>k' s' msgid. 0 \<le> msgid \<Longrightarrow> queue k' = queue k \<Longrightarrow>
      printed s' = printed s @ exchange_text msgid key \<Longrightarrow> meets kstep k' (g ()) s' Q"
  shows "meets kstep k (bindS (exchange key junk) g) s Q"
  unfolding exchange_def Let_def bindS_assoc
proof (rule meets_sysv)
  show "Q (Blocked (Msgget key MSG_CREAT)) s k"
    using assms(4) get_free by (auto simp: moves_def)
next
  fix r rest k1
  let ?m1 = "overwrite junk (text1 @ [NUL])" and ?m2 = "overwrite (overwrite junk (text1 @ [NUL])) (text2 @ [NUL])"
  assume "kstep k (Msgget key MSG_CREAT) r k1"
  with creat_new [OF assms(1,2)] have q1: "0 \<le> rv r" "queue k1 = (queue k)(key \<mapsto> (rv r, []))"
    by blast+
  note sent = messages_sent [OF assms(3)]
  let ?rem = "bindS (bindS (sysv (Msgctl (rv r) MSG_RMID)) (\<lambda>v. fail (v = - 1) ''msgctl destroy failed'')) g"
  let ?rcv = "\<lambda>m. bindS (receive (rv r) 1 m) (\<lambda>_. ?rem)"
  let ?t0 = "printed s @ queue_line ''Recreated'' (rv r) key"
  let ?t2 = "?t0 @ ''Message 1 sent: '' @ text1 @ ''\<newline>Message 2 sent: '' @ text2 @ ''\<newline>''"
  let ?rcv2 = "bindS (receive (rv r) 2 (unset MSG_SIZE)) ?rcv"
  have ap: "appends ?rem" "appends (?rcv m)" "appends ?rcv2" "appends (bindS (send (rv r) 2 ?m2) (\<lambda>_. ?rcv2))" for m
    using assms(5) by (auto intro!: appends_intros)
  note simps = sent one_digit first_of_def assms(4) ap
  have e5: "meets kstep k5 ?rem s5 Q"
    if "queue k5 = (queue k)(key \<mapsto> (rv r, []))" "printed s5 = printed s @ exchange_text (rv r) key" for k5 s5
    using that q1(1) assms(2,4-6) by (intro meets_remove [where key = key and ms = "[]"]) (auto simp: fun_upd_idem)
  have e4: "meets kstep k4 (?rcv m) s4 Q"
    if "queue k4 = (queue k)(key \<mapsto> (rv r, [(1, ?m1)]))" "printed s4 = ?t2 @ ''Message 2 received: '' @ text2 @ ''\<newline>''" for k4 s4 m
    by (rule meets_receive [where key = key and ms = "[(1, ?m1)]" and t = ?m1 and ms' = "[]"])
      (simp_all add: that e5 simps exchange_text_def)
  have e3: "meets kstep k3 ?rcv2 s3 Q"
    if "queue k3 = (queue k)(key \<mapsto> (rv r, [(1, ?m1), (2, ?m2)]))" "printed s3 = ?t2" for k3 s3
    by (rule meets_receive [where key = key and ms = "[(1, ?m1), (2, ?m2)]" and t = ?m2 and ms' = "[(1, ?m1)]"])
      (simp_all add: that e4 simps)
  have e2: "meets kstep k2 (bindS (send (rv r) 2 ?m2) (\<lambda>_. ?rcv2)) s2 Q"
    if "queue k2 = (queue k)(key \<mapsto> (rv r, [(1, ?m1)]))" "printed s2 = ?t0 @ ''Message 1 sent: '' @ text1 @ ''\<newline>''" for k2 s2
    by (rule meets_send [where key = key and ms = "[(1, ?m1)]"]) (simp_all add: that e3 simps)
  have "meets kstep k1 (bindS (send (rv r) 1 ?m1) (\<lambda>_. bindS (send (rv r) 2 ?m2) (\<lambda>_. ?rcv2))) s1 Q"
    if "printed s1 = ?t0" for s1
    by (rule meets_send [where key = key and ms = "[]"]) (simp_all add: that q1 e2 simps)
  with q1(1) show "meets kstep k1 (bindS (block [fail (rv r = - 1) ''msgget failed'', printf (queue_line ''Recreated'' (rv r) key), fflush,
      send (rv r) 1 ?m1, send (rv r) 2 ?m2,
      bindS (receive (rv r) 2 (unset MSG_SIZE)) (\<lambda>received_msg. bindS (receive (rv r) 1 received_msg) (\<lambda>_. skip)),
      bindS (sysv (Msgctl (rv r) MSG_RMID)) (\<lambda>v. fail (v = - 1) ''msgctl destroy failed'')]) g)
      (logged (Msgget key MSG_CREAT) r s) Q"
    by (simp add: bindS_assoc bindS_ret(2) fail_def [of False] meets_simps obs_simps)
qed (use assms(5) in \<open>auto intro!: appends_intros\<close>)

lemma meets_main:
  assumes "length junk = MSG_SIZE" "answers s = r0 # rest" "rv r0 \<noteq> 0" "queue k (rv r0) = None"
  shows "meets kstep k (msgtest_main junk) s (\<lambda>e s' k'. moves k' e \<or> e = Exited 0 \<and> queue k' = queue k \<and>
    (\<exists>id1 id2. written s' = printed s @ queue_line ''Created and destroyed'' id1 (rv r0) @ exchange_text id2 (rv r0)))"
    (is "meets kstep k _ s ?Q")
  unfolding msgtest_main_def sysv_def bindS_assoc bindS_ret
proof (rule meets_call [OF _ assms(2)])
  fix k1
  assume "kstep k (Ftok ''msgtest-stat'' 17) r0 k1"
  then have q: "queue k1 = queue k"
    by (rule ftok_done)
  have e2: "meets kstep k2 (bindS (exchange (rv r0) junk) (\<lambda>_. exit 0)) s2 ?Q"
    if "queue k2 = queue k" "printed s2 = printed s @ queue_line ''Created and destroyed'' i (rv r0)" for k2 s2 i
    by (rule meets_exchange) (use assms that in \<open>auto simp: meets_simps obs_simps intro: appends_intros\<close>)
  have "meets kstep k1 (bindS (exclusive_test (rv r0)) (\<lambda>_. bindS (exchange (rv r0) junk) (\<lambda>_. exit 0)))
      (logged (Ftok ''msgtest-stat'' 17) r0 s) ?Q"
    by (rule meets_exclusive) (use assms q in \<open>auto simp: obs_simps intro!: appends_intros e2\<close>)
  then show "meets kstep k1 (block [exclusive_test (rv r0), exchange (rv r0) junk, exit 0])
      (logged (Ftok ''msgtest-stat'' 17) r0 s) ?Q"
    by (simp add: bindS_exit)
qed (auto intro!: appends_intros)

end

subsection \<open>A kernel that keeps the promise\<close>

text \<open>A queue for each key, with an identifier that is computed from the key.\<close>

type_synonym mq = "int \<Rightarrow> msgs option"

definition id_of :: "int \<Rightarrow> int" where
  "id_of key = (if 0 \<le> key then 2 * key else - 2 * key - 1)"

lemma id_of_inject: "id_of a = id_of b \<longleftrightarrow> a = b" "0 \<le> id_of a"
  by (auto simp: id_of_def split: if_splits) presburger+

definition mq_queue :: "mq \<Rightarrow> int \<Rightarrow> (int \<times> msgs) option" where
  "mq_queue q key = map_option (Pair (id_of key)) (q key)"

inductive mq_step :: "mq \<Rightarrow> call \<Rightarrow> reply \<Rightarrow> mq \<Rightarrow> bool" where
  "mq_step q (Ftok path proj) (rep key) q"
| "q key = None \<Longrightarrow> flags = MSG_EXCL \<or> flags = MSG_CREAT \<Longrightarrow> mq_step q (Msgget key flags) (rep (id_of key)) (q(key \<mapsto> []))"
| "q key = Some ms \<Longrightarrow> mq_step q (Msgget key MSG_EXCL) (rep (-1)) q"
| "q key = Some ms \<Longrightarrow> mq_step q (Msgget key MSG_CREAT) (rep (id_of key)) q"
| "q key = Some ms \<Longrightarrow> i = id_of key \<Longrightarrow> mq_step q (Msgctl i MSG_RMID) (rep 0) (q(key := None))"
| "q key = Some ms \<Longrightarrow> i = id_of key \<Longrightarrow> mq_step q (Msgsnd i ty t 0) (rep 0) (q(key \<mapsto> ms @ [(ty, t)]))"
| "q key = Some ms \<Longrightarrow> i = id_of key \<Longrightarrow> first_of ty ms = Some (t, ms') \<Longrightarrow> int (length t) \<le> n \<Longrightarrow>
     mq_step q (Msgrcv i n ty 0) (data_reply t) (q(key \<mapsto> ms'))"
| "q key = Some ms \<Longrightarrow> i = id_of key \<Longrightarrow> first_of ty ms = Some (t, ms') \<Longrightarrow> n < int (length t) \<Longrightarrow>
     mq_step q (Msgrcv i n ty 0) (rep (-1)) q"

inductive_cases mq_stepE: "mq_step q (Ftok path proj) r q'" "mq_step q (Msgget key flags) r q'"
  "mq_step q (Msgctl i c) r q'" "mq_step q (Msgsnd i ty t f) r q'" "mq_step q (Msgrcv i n ty f) r q'"

interpretation mq: msg_kernel mq_queue mq_step
proof (unfold_locales, goal_cases)
  case 1
  then show ?case by (auto elim: mq_stepE)
next
  case 2
  then show ?case by (auto elim!: mq_stepE simp: mq_queue_def id_of_inject fun_eq_iff)
next
  case 3
  then show ?case by (auto elim!: mq_stepE simp: mq_queue_def)
next
  case 4
  then show ?case by (auto elim!: mq_stepE simp: mq_queue_def id_of_inject fun_eq_iff)
next
  case 5
  then show ?case by (auto elim!: mq_stepE simp: mq_queue_def id_of_inject fun_eq_iff)
next
  case 6
  then show ?case by (auto elim!: mq_stepE simp: mq_queue_def id_of_inject fun_eq_iff)
next
  case 7
  then show ?case by (auto elim!: mq_stepE simp: mq_queue_def id_of_inject fun_eq_iff)
next
  case 8
  show ?case by (blast intro: mq_step.intros)
next
  case (9 k key)
  show ?case by (cases "k key") (blast intro: mq_step.intros)+
next
  case (10 k key)
  show ?case by (cases "k key") (blast intro: mq_step.intros)+
next
  case 11
  then show ?case by (auto simp: mq_queue_def intro: mq_step.intros)
next
  case 12
  then show ?case by (auto simp: mq_queue_def intro: mq_step.intros)
next
  case (13 k key msgid ms ty n)
  then obtain t ms' where "first_of ty ms = Some (t, ms')" "k key = Some ms" "msgid = id_of key"
    by (auto simp: mq_queue_def)
  then show ?case by (cases "int (length t) \<le> n") (force intro: mq_step.intros)+
qed

subsection \<open>A run on this kernel\<close>

definition sample_msg1 :: string where "sample_msg1 = overwrite (replicate 100 NUL) (text1 @ [NUL])"
definition sample_msg2 :: string where "sample_msg2 = overwrite sample_msg1 (text2 @ [NUL])"

definition run_replies :: "reply list" where
  "run_replies = [rep 5, rep (id_of 5), rep (-1), rep 0, rep (id_of 5), rep 0, rep 0, data_reply sample_msg2, data_reply sample_msg1, rep 0]"

definition run_calls :: "call list" where
  "run_calls = [Ftok ''msgtest-stat'' 17, Msgget 5 MSG_EXCL, Msgget 5 MSG_EXCL, Msgctl (id_of 5) MSG_RMID, Msgget 5 MSG_CREAT,
     Msgsnd (id_of 5) 1 sample_msg1 0, Msgsnd (id_of 5) 2 sample_msg2 0, Msgrcv (id_of 5) 100 2 0, Msgrcv (id_of 5) 100 1 0, Msgctl (id_of 5) MSG_RMID]"

lemma sample_lengths: "length sample_msg1 = 100" "length sample_msg2 = 100"
  using mq.messages_sent [of "replicate 100 NUL"] by (simp_all add: sample_msg1_def sample_msg2_def)

lemma run_ends:
  "fst (msgtest_main (replicate 100 NUL) (start FullyBuffered run_replies)) = Exited 0"
  "calls (snd (msgtest_main (replicate 100 NUL) (start FullyBuffered run_replies))) = zip run_calls run_replies"
proof -
  have i: "id_of 5 = 10" by (simp add: id_of_def)
  show "fst (msgtest_main (replicate 100 NUL) (start FullyBuffered run_replies)) = Exited 0"
  "calls (snd (msgtest_main (replicate 100 NUL) (start FullyBuffered run_replies))) = zip run_calls run_replies"
  by (simp_all add: msgtest_main_def exclusive_test_def exchange_def send_def receive_def fail_def run_replies_def run_calls_def
    eval_simps obs_simps Let_def delivered_def sample_lengths scan_poke i sample_msg2_def [symmetric] sample_msg1_def [symmetric])
qed

lemma run_served: "served mq_step (\<lambda>_. None) (zip run_calls run_replies) (\<lambda>_. None)"
proof -
  have f: "first_of 2 [(1, sample_msg1), (2, sample_msg2)] = Some (sample_msg2, [(1, sample_msg1)])" "first_of 1 [(1, sample_msg1)] = Some (sample_msg1, [])"
    by (simp_all add: first_of_def)
  let ?q = "\<lambda>ms. (\<lambda>_ :: int. None)(5 \<mapsto> ms)"
  have "mq_step (\<lambda>_. None) (Ftok ''msgtest-stat'' 17) (rep 5) (\<lambda>_. None)"
    "mq_step (\<lambda>_. None) (Msgget 5 MSG_EXCL) (rep (id_of 5)) (?q [])"
    "mq_step (?q []) (Msgget 5 MSG_EXCL) (rep (-1)) (?q [])"
    "mq_step (?q []) (Msgctl (id_of 5) MSG_RMID) (rep 0) ((?q [])(5 := None))"
    "mq_step (\<lambda>_. None) (Msgget 5 MSG_CREAT) (rep (id_of 5)) (?q [])"
    "mq_step (?q []) (Msgsnd (id_of 5) 1 sample_msg1 0) (rep 0) ((?q [])(5 \<mapsto> [] @ [(1, sample_msg1)]))"
    "mq_step (?q [(1, sample_msg1)]) (Msgsnd (id_of 5) 2 sample_msg2 0) (rep 0) ((?q [(1, sample_msg1)])(5 \<mapsto> [(1, sample_msg1)] @ [(2, sample_msg2)]))"
    by (rule mq_step.intros; simp)+
  moreover have "mq_step (?q [(1, sample_msg1), (2, sample_msg2)]) (Msgrcv (id_of 5) 100 2 0) (data_reply sample_msg2) ((?q [(1, sample_msg1), (2, sample_msg2)])(5 \<mapsto> [(1, sample_msg1)]))"
    "mq_step (?q [(1, sample_msg1)]) (Msgrcv (id_of 5) 100 1 0) (data_reply sample_msg1) ((?q [(1, sample_msg1)])(5 \<mapsto> []))"
    by (rule mq_step.intros(7) [OF _ _ f(1)]; simp add: sample_lengths) (rule mq_step.intros(7) [OF _ _ f(2)]; simp add: sample_lengths)
  ultimately show ?thesis
    by (simp add: run_calls_def run_replies_def) blast
qed
subsection \<open>The property\<close>

text \<open>C6. \<^verbatim>\<open>msgtest.c\<close> on every kernel that keeps the promise, from a state without the queue, whatever the
  uninitialised bytes of its buffer are: at every moment it waits in a call that the kernel can
  complete or it has ended, and then it has exited with 0 after receiving the message of type 2 first
  and the one of type 1 second, each as it was sent, and it has left no queue behind.\<close>

theorem msgtest_receives_by_type:
  assumes "msg_kernel queue kstep" "length junk = MSG_SIZE" "rv r0 \<noteq> 0" "queue k (rv r0) = None"
    and "msgtest_main junk (start m (r0 # rs)) = (e, s')" "served kstep k (calls s') k'"
  shows "(\<exists>c r k''. e = Blocked c \<and> kstep k' c r k'') \<or>
    e = Exited 0 \<and> queue k' = queue k \<and>
    (\<exists>id1 id2. written s' = ''Created and destroyed msg queue '' @ fmt_d id1 @ '' for key 0x'' @ fmt_x (rv r0) @
      ''\<newline>Recreated msg queue '' @ fmt_d id2 @ '' for key 0x'' @ fmt_x (rv r0) @
      ''\<newline>Message 1 sent: '' @ text1 @ ''\<newline>Message 2 sent: '' @ text2 @
      ''\<newline>Message 2 received: '' @ text2 @ ''\<newline>Message 1 received: '' @ text1 @ ''\<newline>'')"
proof -
  have "answers (start m (r0 # rs)) = r0 # rs"
    by (simp add: obs_simps)
  from msg_kernel.meets_main [OF assms(1,2) this assms(3,4)] assms(5,6) show ?thesis
    by (auto simp: meets_def obs_simps msg_kernel.moves_def [OF assms(1)] msg_kernel.exchange_text_def [OF assms(1)] queue_line_def)
qed

theorem msgtest_receives_by_type_witness:
  "\<exists>id1 id2. written (snd (msgtest_main (replicate 100 NUL) (start FullyBuffered run_replies))) =
    ''Created and destroyed msg queue '' @ fmt_d id1 @ '' for key 0x'' @ fmt_x 5 @
      ''\<newline>Recreated msg queue '' @ fmt_d id2 @ '' for key 0x'' @ fmt_x 5 @
      ''\<newline>Message 1 sent: '' @ text1 @ ''\<newline>Message 2 sent: '' @ text2 @
      ''\<newline>Message 2 received: '' @ text2 @ ''\<newline>Message 1 received: '' @ text1 @ ''\<newline>''"
proof -
  let ?run = "msgtest_main (replicate 100 NUL) (start FullyBuffered (rep 5 # tl run_replies))"
  have r: "rep 5 # tl run_replies = run_replies"
    by (simp add: run_replies_def)
  have "?run = (Exited 0, snd ?run)" "served mq_step (\<lambda>_. None) (calls (snd ?run)) (\<lambda>_. None)"
    using run_ends run_served by (simp_all add: r prod_eq_iff)
  from msgtest_receives_by_type [OF mq.msg_kernel_axioms _ _ _ this] show ?thesis
    by (simp add: mq_queue_def r)
qed

end
