(* ===== verification/Large_Files.thy ===== *)
theory Large_Files
  imports Scatter_Gather
begin

text \<open>
  \<^verbatim>\<open>call64.c\<close>: the file calls with 64-bit offsets, and the loop that takes the records of
  \<^verbatim>\<open>getdents64\<close> apart. \<open>have_macro\<close> tells which of the macros tested with \<^verbatim>\<open>#ifdef\<close> are defined.
\<close>

abbreviation "Open64 path flags mode \<equiv> Call ''open64'' [S path, I flags, I mode]"
abbreviation "Pwrite64 fd t off \<equiv> Call ''pwrite64'' [I fd, S t, I off]"
abbreviation "Sys_pwrite64 fd t off \<equiv> Call ''syscall(SYS_pwrite64)'' [I fd, S t, I off]"
abbreviation "Pread64 fd n off \<equiv> Call ''pread64'' [I fd, I n, I off]"
abbreviation "Sys_pread64 fd n off \<equiv> Call ''syscall(SYS_pread64)'' [I fd, I n, I off]"
abbreviation "Lseek64 fd off whence \<equiv> Call ''lseek64'' [I fd, I off, I whence]"
abbreviation "Fstat64 fd \<equiv> Call ''fstat64'' [I fd]"
abbreviation "Fstat fd \<equiv> Call ''fstat'' [I fd]"
abbreviation "Stat64 path \<equiv> Call ''stat64'' [S path]"
abbreviation "Lstat64 path \<equiv> Call ''lstat64'' [S path]"
abbreviation "Ftruncate64 fd len \<equiv> Call ''ftruncate64'' [I fd, I len]"
abbreviation "Truncate64 path len \<equiv> Call ''truncate64'' [S path, I len]"
abbreviation "Sys_sendfile64 out_fd in_fd n \<equiv> Call ''syscall(SYS_sendfile64)'' [I out_fd, I in_fd, I n]"
abbreviation "Sendfile out_fd in_fd n \<equiv> Call ''sendfile'' [I out_fd, I in_fd, I n]"
abbreviation "Getdents64 fd n \<equiv> Call ''syscall(SYS_getdents64)'' [I fd, I n]"

abbreviation CREATE_FLAGS :: int where "CREATE_FLAGS \<equiv> 578" \<comment> \<open>O_CREAT | O_RDWR | O_TRUNC\<close>
abbreviation DIR_FLAGS :: int where "DIR_FLAGS \<equiv> 65536" \<comment> \<open>O_RDONLY | O_DIRECTORY\<close>

definition fmt_o :: "int \<Rightarrow> string" where
  "fmt_o i = radix 8 (nat (i mod 2 ^ 32))"

subsection \<open>Directory records\<close>

record linux_dirent64 =
  d_ino :: nat
  d_off :: int
  d_reclen :: nat
  d_type :: nat
  d_name :: string

text \<open>The record at index \<open>bpos\<close>; its name starts at offset 19 and ends at a NUL byte.\<close>

definition dirent_at :: "bool \<Rightarrow> memory \<Rightarrow> nat \<Rightarrow> linux_dirent64 option" where
  "dirent_at big_endian dbuf bpos =
     (case (byte_vals dbuf bpos 8, byte_vals dbuf (bpos + 8) 8, byte_vals dbuf (bpos + 16) 2,
            byte_vals dbuf (bpos + 18) 1, scan_all (drop (bpos + 19) dbuf)) of
        (Some i, Some off, Some len, Some ty, Some name) \<Rightarrow>
          Some \<lparr>d_ino = raw_val big_endian i, d_off = int64 (int (raw_val big_endian off)),
            d_reclen = raw_val big_endian len, d_type = raw_val big_endian ty, d_name = name\<rparr>
      | _ \<Rightarrow> None)"

definition dirent_line :: "linux_dirent64 \<Rightarrow> string" where
  "dirent_line d = ''  d_name='' @ d_name d @ '', ino='' @ fmt_u (d_ino d) @ '', d_off='' @ fmt_d (d_off d) @ ''\<newline>''"

text \<open>\<^verbatim>\<open>while (bpos < nread)\<close>: a record of length 0 is printed for ever.\<close>

function getdents_loop :: "bool \<Rightarrow> memory \<Rightarrow> nat \<Rightarrow> nat \<Rightarrow> unit stm" where
  "getdents_loop big_endian dbuf nread bpos s =
     (if nread \<le> bpos then (Ret (), s)
      else case dirent_at big_endian dbuf bpos of
          None \<Rightarrow> (Undefined unset_byte, s)
        | Some d \<Rightarrow> if d_reclen d = 0 then (Spins, put_out (dirent_line d) s)
            else getdents_loop big_endian dbuf nread (bpos + d_reclen d) (put_out (dirent_line d) s))"
  by pat_completeness auto
termination
  by (relation "measure (\<lambda>(e, m, nread, bpos, s). nread - bpos)") auto

declare getdents_loop.simps [simp del]

subsection \<open>The program\<close>

definition perror_exit :: "string \<Rightarrow> unit stm" where
  "perror_exit msg = block [perror msg, exit 1]"

definition testdata :: string where "testdata = ''Hello from pwrite64/pread64!\<newline>''"
definition write_off :: int where "write_off = 1234567890123"

definition pwrite_part :: "build \<Rightarrow> int \<Rightarrow> unit stm" where
  "pwrite_part have_macro fd = bindS (sysv (Pwrite64 fd testdata write_off)) (\<lambda>wrote.
     if wrote < 0 then block [
       perror ''pwrite64 (may not be available as wrapper) - trying syscall fallback'',
       if have_macro ''SYS_pwrite64'' then
         bindS (sysv (Sys_pwrite64 fd testdata write_off)) (\<lambda>wrote.
           if wrote < 0 then perror_exit ''syscall(SYS_pwrite64)''
           else printf (''syscall(SYS_pwrite64) wrote='' @ fmt_d wrote @ ''\<newline>''))
       else fprintf_stderr ''SYS_pwrite64 not available on this platform\<newline>'']
     else printf (''pwrite64 wrote='' @ fmt_d wrote @ '' at offset '' @ fmt_d write_off @ ''\<newline>''))"

definition pread_part :: "build \<Rightarrow> int \<Rightarrow> unit stm" where
  "pread_part have_macro fd = bindS (sys (Pread64 fd 4095 write_off)) (\<lambda>r.
     if rv r < 0 then block [
       perror ''pread64 - trying syscall fallback'',
       if have_macro ''SYS_pread64'' then
         bindS (sys (Sys_pread64 fd 4095 write_off)) (\<lambda>r.
           if rv r < 0 then perror_exit ''syscall(SYS_pread64)''
           else with_value (scan_all (poke 0 (delivered r) (zeros 4096))) (\<lambda>t.
             printf (''syscall(SYS_pread64) read='' @ fmt_d (rv r) @ '' bytes: '' @ t @ ''\<newline>'')))
       else fprintf_stderr ''SYS_pread64 not available on this platform\<newline>'']
     else with_value (scan_all (poke 0 (delivered r) (zeros 4096))) (\<lambda>t.
       printf (''pread64 read='' @ fmt_d (rv r) @ '' bytes: '' @ t @ ''\<newline>'')))"

text \<open>The calls of the \<^verbatim>\<open>stat\<close> family store the size and the inode; \<^verbatim>\<open>lstat64\<close> the mode.\<close>

definition stat_part :: "int \<Rightarrow> string \<Rightarrow> unit stm" where
  "stat_part fd tmpname = block [
     bindS (sysv (Lseek64 fd 0 2)) (\<lambda>offset. block [
       only_if (offset < 0) [perror_exit ''lseek64''],
       printf (''lseek64 -> end offset='' @ fmt_d offset @ ''\<newline>'')]),
     bindS (sys (Fstat64 fd)) (\<lambda>st64.
       if rv st64 < 0 then block [
         perror ''fstat64 - attempt fallback to fstat'',
         bindS (sys (Fstat fd)) (\<lambda>st.
           if rv st < 0 then perror_exit ''fstat fallback''
           else printf (''fstat fallback: size='' @ fmt_d (out_int 0 st) @ ''\<newline>''))]
       else printf (''fstat64: size='' @ fmt_d (out_int 0 st64) @ '', ino='' @ fmt_d (out_int 1 st64) @ ''\<newline>'')),
     bindS (sys (Stat64 tmpname)) (\<lambda>st64.
       if rv st64 < 0 then perror ''stat64 (may be unneeded if stat is 64)''
       else printf (''stat64: size='' @ fmt_d (out_int 0 st64) @ ''\<newline>'')),
     bindS (sys (Lstat64 tmpname)) (\<lambda>st64.
       if rv st64 < 0 then perror ''lstat64''
       else printf (''lstat64: mode='' @ fmt_o (out_int 0 st64) @ ''\<newline>''))]"

definition truncate_part :: "int \<Rightarrow> string \<Rightarrow> unit stm" where
  "truncate_part fd tmpname = block [
     bindS (sysv (Ftruncate64 fd 0)) (\<lambda>v.
       if v < 0 then perror ''ftruncate64'' else printf ''ftruncate64 -> truncated to 0\<newline>''),
     bindS (sysv (Truncate64 tmpname 0)) (\<lambda>v.
       if v < 0 then perror ''truncate64'' else printf ''truncate64 -> truncated to 0\<newline>''),
     bindS (sysv (Write fd ''again\<newline>'')) (\<lambda>v. only_if (v \<noteq> 6) [perror_exit ''write''])]"

definition sendfile_part :: "build \<Rightarrow> int \<Rightarrow> unit stm" where
  "sendfile_part have_macro fd =
     (if have_macro ''SYS_sendfile64'' then
        bindS (sysv (Open64 ''test64.out'' CREATE_FLAGS 384)) (\<lambda>fd2. block [
          only_if (fd2 < 0) [perror_exit ''open64 test64.out''],
          bindS (sysv (Sys_sendfile64 fd2 fd 4096)) (\<lambda>sf.
            if sf < 0 then perror ''syscall(SYS_sendfile64)''
            else printf (''syscall(SYS_sendfile64) -> '' @ fmt_d sf @ '' bytes\<newline>''))])
      else if have_macro ''__NR_sendfile'' \<and> have_macro ''SYS_sendfile'' then block [
          do_call (Lseek64 fd 0 0),
          bindS (sysv (Open64 ''test64.out'' CREATE_FLAGS 384)) (\<lambda>fd2. only_if (fd2 \<ge> 0) [
            bindS (sysv (Sendfile fd2 fd 4096)) (\<lambda>sf2.
              if sf2 < 0 then perror ''sendfile''
              else printf (''sendfile -> '' @ fmt_d sf2 @ '' bytes\<newline>''))])]
      else skip)"

definition getdents_part :: "build \<Rightarrow> bool \<Rightarrow> unit stm" where
  "getdents_part have_macro big_endian = bindS (sysv (Open64 ''.'' DIR_FLAGS 0)) (\<lambda>dfd.
     if dfd < 0 then perror ''open64(.) for getdents64''
     else block [
       if have_macro ''SYS_getdents64'' then
         bindS (sys (Getdents64 dfd 8192)) (\<lambda>r.
           if rv r < 0 then perror ''syscall(SYS_getdents64)''
           else block [
             printf (''getdents64 returned '' @ fmt_d (rv r) @ '' bytes\<newline>''),
             getdents_loop big_endian (poke 0 (delivered r) (unset 8192)) (nat (rv r)) 0])
       else fprintf_stderr ''SYS_getdents64 not available on this platform\<newline>'',
       do_call (Close dfd)])"

definition bigoff :: int where "bigoff = 2 ^ 40 + 100"

definition bigoff_part :: "int \<Rightarrow> unit stm" where
  "bigoff_part fd = bindS (sysv (Lseek64 fd bigoff 0)) (\<lambda>v. only_if (v \<noteq> -1) [
     bindS (sysv (Write fd ''X\<newline>'')) (\<lambda>w. only_if (w = 2) [
       printf (''wrote 2 bytes at large offset '' @ fmt_d bigoff @ ''\<newline>'')])])"

definition call64_main :: "build \<Rightarrow> bool \<Rightarrow> unit stm" where
  "call64_main have_macro big_endian = (let tmpname = ''test64.tmp'' in block [
     printf ''=== test64: starting\<newline>'',
     bindS (sysv (Open64 tmpname CREATE_FLAGS 384)) (\<lambda>fd. block [
       only_if (fd < 0) [perror_exit ''open64''],
       printf (''open64 -> fd='' @ fmt_d fd @ ''\<newline>''),
       pwrite_part have_macro fd,
       pread_part have_macro fd,
       stat_part fd tmpname,
       truncate_part fd tmpname,
       sendfile_part have_macro fd,
       getdents_part have_macro big_endian,
       bigoff_part fd]),
     exit 0])"

subsection \<open>Records and their bytes\<close>

text \<open>The layout of \<^verbatim>\<open>getdents64(2)\<close>: the fields, the name with its NUL, and padding up to the length of the
  record.\<close>

definition encode_dirent :: "bool \<Rightarrow> linux_dirent64 \<Rightarrow> string" where
  "encode_dirent big_endian d = map char_of (raw_bytes big_endian 8 (d_ino d) @
     raw_bytes big_endian 8 (nat (d_off d mod 2 ^ 64)) @ raw_bytes big_endian 2 (d_reclen d) @ [d_type d]) @
     d_name d @ NUL # replicate (d_reclen d - 20 - length (d_name d)) NUL"

definition wf_dirent :: "linux_dirent64 \<Rightarrow> bool" where
  "wf_dirent d \<longleftrightarrow> d_ino d < 2 ^ 64 \<and> - (2 ^ 63) \<le> d_off d \<and> d_off d < 2 ^ 63 \<and> d_type d < 256 \<and>
     NUL \<notin> set (d_name d) \<and> length (d_name d) + 20 \<le> d_reclen d \<and> d_reclen d < 2 ^ 16"

lemma length_encode: "wf_dirent d \<Longrightarrow> length (encode_dirent e d) = d_reclen d"
  by (auto simp: encode_dirent_def wf_dirent_def)

lemma byte_vals_at:
  assumes "i = length pre" "n = length t"
  shows "byte_vals (map Some (pre @ t @ post) @ m) i n = Some (map of_char t)"
  using byte_vals_stored [of i n "pre @ t @ post" m] assms by simp

text \<open>A record is read back where it was stored.\<close>

lemma dirent_at_encoded:
  assumes "wf_dirent d"
  shows "dirent_at e (map Some (pre @ encode_dirent e d @ post) @ m) (length pre) = Some d"
proof -
  let ?i = "map char_of (raw_bytes e 8 (d_ino d))" and ?o = "map char_of (raw_bytes e 8 (nat (d_off d mod 2 ^ 64)))"
    and ?l = "map char_of (raw_bytes e 2 (d_reclen d))" and ?z = "replicate (d_reclen d - 20 - length (d_name d)) NUL"
  have enc: "encode_dirent e d = ?i @ ?o @ ?l @ [char_of (d_type d)] @ d_name d @ NUL # ?z"
    by (simp add: encode_dirent_def)
  let ?m = "map Some (pre @ encode_dirent e d @ post) @ m"
  have f: "byte_vals ?m (length pre) 8 = Some (raw_bytes e 8 (d_ino d))"
    "byte_vals ?m (length pre + 8) 8 = Some (raw_bytes e 8 (nat (d_off d mod 2 ^ 64)))"
    "byte_vals ?m (length pre + 16) 2 = Some (raw_bytes e 2 (d_reclen d))"
    "byte_vals ?m (length pre + 18) 1 = Some [d_type d]"
    using byte_vals_at [of "length pre" pre 8 ?i "?o @ ?l @ [char_of (d_type d)] @ d_name d @ NUL # ?z @ post" m]
      byte_vals_at [of "length pre + 8" "pre @ ?i" 8 ?o "?l @ [char_of (d_type d)] @ d_name d @ NUL # ?z @ post" m]
      byte_vals_at [of "length pre + 16" "pre @ ?i @ ?o" 2 ?l "[char_of (d_type d)] @ d_name d @ NUL # ?z @ post" m]
      byte_vals_at [of "length pre + 18" "pre @ ?i @ ?o @ ?l" 1 "[char_of (d_type d)]" "d_name d @ NUL # ?z @ post" m] assms
    by (simp_all add: enc chars_of_raw wf_dirent_def)
  have "drop (length pre + 19) ?m = map Some (d_name d) @ Some NUL # map Some (?z @ post) @ m"
    by (simp add: enc)
  moreover have "NUL \<notin> set (d_name d)"
    using assms by (simp add: wf_dirent_def)
  ultimately have s: "scan_all (drop (length pre + 19) ?m) = Some (d_name d)"
    by (simp only: scan_all_string not_False_eq_True)
  have "raw_val e [d_type d] = d_type d"
    by (simp add: raw_val_def le_val_def be_val_def)
  moreover have "int64 (d_off d mod 18446744073709551616) = d_off d"
    using assms int64_mod [of "d_off d"] by (simp add: wf_dirent_def)
  ultimately show ?thesis
    unfolding dirent_at_def f s using assms by (cases d) (simp add: raw_val_bytes wf_dirent_def)
qed

lemma getdents_from:
  assumes "list_all wf_dirent ds" "nread = length (pre @ concat (map (encode_dirent e) ds))"
  shows "\<exists>s'. getdents_loop e (map Some (pre @ concat (map (encode_dirent e) ds)) @ m) nread (length pre) s = (Ret (), s') \<and>
    printed s' = printed s @ concat (map dirent_line ds) \<and> answers s' = answers s \<and> calls s' = calls s"
  using assms
proof (induction ds arbitrary: pre s)
  case Nil
  then show ?case by (simp add: getdents_loop.simps)
next
  case (Cons d ds)
  let ?pre = "pre @ encode_dirent e d" and ?s = "put_out (dirent_line d) s"
  from Cons.prems have wf: "wf_dirent d" "0 < d_reclen d"
    by (auto simp: wf_dirent_def)
  have "getdents_loop e (map Some (pre @ concat (map (encode_dirent e) (d # ds))) @ m) nread (length pre) s =
      getdents_loop e (map Some (?pre @ concat (map (encode_dirent e) ds)) @ m) nread (length ?pre) ?s"
    using Cons.prems(2) wf dirent_at_encoded [OF wf(1), of e pre "concat (map (encode_dirent e) ds)" m]
    by (subst getdents_loop.simps) (simp add: length_encode)
  with Cons.IH [of ?pre ?s] Cons.prems show ?case
    by (simp add: obs_simps)
qed

lemma getdents_buffer:
  assumes "list_all wf_dirent ds" "d = concat (map (encode_dirent big_endian) ds)"
  shows "\<exists>s'. getdents_loop big_endian (poke 0 d (unset 8192)) (length d) 0 s = (Ret (), s') \<and>
    printed s' = printed s @ concat (map dirent_line ds) \<and> answers s' = answers s \<and> calls s' = calls s"
  using getdents_from [of ds "length d" "[]" big_endian "drop (length d) (unset 8192)" s] assms
  by (simp add: poke_def)

text \<open>C11. The parser of \<^verbatim>\<open>call64.c\<close> prints every directory: for any list of well-formed records that fits the
  buffer, in either byte order, the loop over the bytes of \<^verbatim>\<open>getdents64\<close> ends, and has printed the
  name, inode and offset of each record, in order.\<close>

theorem getdents_roundtrip:
  assumes "list_all wf_dirent ds" "d = concat (map (encode_dirent big_endian) ds)" "length d \<le> 8192"
  shows "\<exists>s'. getdents_loop big_endian (poke 0 d (unset 8192)) (length d) 0 s = (Ret (), s') \<and>
    printed s' = printed s @ concat (map dirent_line ds) \<and> answers s' = answers s"
  using getdents_buffer [OF assms(1,2)] by blast

definition dot :: linux_dirent64 where
  "dot = \<lparr>d_ino = 42, d_off = 7, d_reclen = 24, d_type = 4, d_name = ''.''\<rparr>"

lemma wf_dot: "wf_dirent dot"
  by (simp add: wf_dirent_def dot_def NUL_def)

theorem getdents_roundtrip_witness:
  "\<exists>s'. getdents_loop False (poke 0 (concat (map (encode_dirent False) [dot])) (unset 8192)) 24 0 (start Unbuffered []) = (Ret (), s') \<and>
    printed s' = ''  d_name=., ino=42, d_off=7\<newline>''"
proof -
  note wf_dot
  moreover from length_encode [OF this] have "length (concat (map (encode_dirent False) [dot])) = 24"
    by (simp add: dot_def)
  moreover have "dirent_line dot = ''  d_name=., ino=42, d_off=7\<newline>''"
    by (simp add: dirent_line_def dot_def fmt_d_def fmt_u_def radix.simps)
  ultimately show ?thesis
    using getdents_roundtrip [of "[dot]" "concat (map (encode_dirent False) [dot])" False "start Unbuffered []"]
    by (auto simp: obs_simps)
qed

text \<open>On other bytes the loop may fail to end, but only by meeting a record whose length is 0.\<close>

theorem getdents_spins_only_at_zero:
  assumes "fst (getdents_loop big_endian dbuf nread bpos s) = Spins"
  shows "\<exists>p d. bpos \<le> p \<and> p < nread \<and> dirent_at big_endian dbuf p = Some d \<and> d_reclen d = 0"
  using assms
proof (induction big_endian dbuf nread bpos s rule: getdents_loop.induct)
  case (1 e dbuf nread bpos s)
  show ?case
  proof (cases "dirent_at e dbuf bpos")
    case None
    with 1(2) show ?thesis
      by (subst (asm) getdents_loop.simps) (simp split: if_splits)
  next
    case (Some d)
    show ?thesis
    proof (cases "nread \<le> bpos \<or> d_reclen d = 0")
      case True
      with 1(2) Some show ?thesis
        by (subst (asm) getdents_loop.simps) (auto split: if_splits)
    next
      case False
      with 1(2) Some have "fst (getdents_loop e dbuf nread (bpos + d_reclen d) (put_out (dirent_line d) s)) = Spins"
        by (subst (asm) getdents_loop.simps) simp
      with 1(1) [of d] False Some show ?thesis
        by (meson add_leD1)
    qed
  qed
qed

subsection \<open>The whole program\<close>

lemma pread_zeroed:
  assumes "length t < 4096" "NUL \<notin> set t"
  shows "does (pread_part have_macro fd) [(Pread64 fd 4095 write_off, data_reply t)]
    (''pread64 read='' @ fmt_d (int (length t)) @ '' bytes: '' @ t @ ''\<newline>'')"
  by (rule doesI) (use assms in \<open>auto simp: pread_part_def eval_simps obs_simps scan_all_zeros cstr_id\<close>)

lemma getdents_does:
  assumes "list_all wf_dirent ds" "d = concat (map (encode_dirent big_endian) ds)" "length d \<le> 8192"
    and "0 \<le> rv o'" "have_macro ''SYS_getdents64''"
  shows "does (getdents_part have_macro big_endian)
    [(Open64 ''.'' DIR_FLAGS 0, o'), (Getdents64 (rv o') 8192, data_reply d), (Close (rv o'), c)]
    (''getdents64 returned '' @ fmt_d (int (length d)) @ '' bytes\<newline>'' @ concat (map dirent_line ds))"
proof (rule doesI)
  fix s :: process and rest
  assume "answers s = map snd [(Open64 ''.'' DIR_FLAGS 0, o'), (Getdents64 (rv o') 8192, data_reply d), (Close (rv o'), c)] @ rest"
  then show "\<exists>s'. getdents_part have_macro big_endian s = (Ret (), s') \<and> answers s' = rest \<and>
      calls s' = calls s @ [(Open64 ''.'' DIR_FLAGS 0, o'), (Getdents64 (rv o') 8192, data_reply d), (Close (rv o'), c)] \<and>
      printed s' = printed s @ ''getdents64 returned '' @ fmt_d (int (length d)) @ '' bytes\<newline>'' @ concat (map dirent_line ds)"
    using getdents_buffer [OF assms(1,2), of "put_out (''getdents64 returned '' @ fmt_d (int (length d)) @ '' bytes\<newline>'')
        (logged (Getdents64 (rv o') 8192) (data_reply d) (logged (Open64 ''.'' DIR_FLAGS 0) o' s))"] assms(4,5)
    by (auto simp: getdents_part_def eval_simps obs_simps)
qed

text \<open>C27. \<^verbatim>\<open>call64.c\<close> on a system with the macros of x86-64 Linux, when every call succeeds: the text written far
  beyond 4 GB is read back from the same offset, the file is truncated, refilled and copied from its start, and the
  whole directory is listed; the calls are exactly those listed, in this order and with these arguments. The two files it makes stay behind, since nothing removes them.\<close>

theorem call64_run:
  assumes "list_all wf_dirent ds" "d = concat (map (encode_dirent big_endian) ds)" "length d \<le> 8192"
    and "0 \<le> rv f" "0 \<le> rv l" "rv st = 0" "rv st2 = 0" "rv st3 = 0" "rv t1 = 0" "rv t2 = 0" "0 \<le> rv f2" "0 \<le> rv sf"
    and "0 \<le> rv dir" "rv l3 \<noteq> -1"
    and "have_macro ''SYS_getdents64''" "\<not> have_macro ''SYS_sendfile64''" "have_macro ''__NR_sendfile''" "have_macro ''SYS_sendfile''"
  shows "\<exists>s'. call64_main have_macro big_endian (start m ([f, rep 29, data_reply testdata, l, st, st2, st3, t1, t2, rep 6,
      l2, f2, sf, dir, data_reply d, c, l3, rep 2] @ rest)) = (Exited 0, s') \<and> answers s' = rest \<and>
    calls s' = [(Open64 ''test64.tmp'' CREATE_FLAGS 384, f), (Pwrite64 (rv f) testdata 1234567890123, rep 29),
      (Pread64 (rv f) 4095 1234567890123, data_reply testdata), (Lseek64 (rv f) 0 2, l), (Fstat64 (rv f), st), (Stat64 ''test64.tmp'', st2),
      (Lstat64 ''test64.tmp'', st3), (Ftruncate64 (rv f) 0, t1), (Truncate64 ''test64.tmp'' 0, t2), (Write (rv f) ''again\<newline>'', rep 6),
      (Lseek64 (rv f) 0 0, l2), (Open64 ''test64.out'' CREATE_FLAGS 384, f2), (Sendfile (rv f2) (rv f) 4096, sf),
      (Open64 ''.'' DIR_FLAGS 0, dir), (Getdents64 (rv dir) 8192, data_reply d), (Close (rv dir), c),
      (Lseek64 (rv f) 1099511627876 0, l3), (Write (rv f) ''X\<newline>'', rep 2)] \<and>
    written s' = ''=== test64: starting\<newline>open64 -> fd='' @ fmt_d (rv f) @
      ''\<newline>pwrite64 wrote=29 at offset 1234567890123\<newline>pread64 read=29 bytes: Hello from pwrite64/pread64!\<newline>\<newline>'' @
      ''lseek64 -> end offset='' @ fmt_d (rv l) @ ''\<newline>fstat64: size='' @ fmt_d (out_int 0 st) @ '', ino='' @ fmt_d (out_int 1 st) @
      ''\<newline>stat64: size='' @ fmt_d (out_int 0 st2) @ ''\<newline>lstat64: mode='' @ fmt_o (out_int 0 st3) @
      ''\<newline>ftruncate64 -> truncated to 0\<newline>truncate64 -> truncated to 0\<newline>sendfile -> '' @ fmt_d (rv sf) @ '' bytes\<newline>'' @
      ''getdents64 returned '' @ fmt_d (int (length d)) @ '' bytes\<newline>'' @ concat (map dirent_line ds) @
      ''wrote 2 bytes at large offset 1099511627876\<newline>''"
proof -
  have d: "fmt_d 29 = ''29''" "fmt_d write_off = ''1234567890123''" "fmt_d bigoff = ''1099511627876''"
    by (simp_all add: fmt_d_def fmt_u_def radix.simps write_off_def bigoff_def)
  have td: "length testdata < 4096" "NUL \<notin> set testdata" "length testdata = 29"
    by (simp_all add: testdata_def NUL_def)
  have p: "does (pwrite_part have_macro (rv f)) [(Pwrite64 (rv f) testdata write_off, rep 29)]
      ''pwrite64 wrote=29 at offset 1234567890123\<newline>''"
    by (rule doesI) (simp add: pwrite_part_def eval_simps obs_simps d)
  have s: "does (stat_part (rv f) ''test64.tmp'') [(Lseek64 (rv f) 0 2, l), (Fstat64 (rv f), st), (Stat64 ''test64.tmp'', st2), (Lstat64 ''test64.tmp'', st3)]
      (''lseek64 -> end offset='' @ fmt_d (rv l) @
      ''\<newline>fstat64: size='' @ fmt_d (out_int 0 st) @ '', ino='' @ fmt_d (out_int 1 st) @
      ''\<newline>stat64: size='' @ fmt_d (out_int 0 st2) @ ''\<newline>lstat64: mode='' @ fmt_o (out_int 0 st3) @ ''\<newline>'')"
    by (rule doesI) (use assms(5-8) in \<open>simp add: stat_part_def eval_simps obs_simps\<close>)
  have t: "does (truncate_part (rv f) ''test64.tmp'') [(Ftruncate64 (rv f) 0, t1), (Truncate64 ''test64.tmp'' 0, t2), (Write (rv f) ''again\<newline>'', rep 6)]
      ''ftruncate64 -> truncated to 0\<newline>truncate64 -> truncated to 0\<newline>''"
    by (rule doesI) (use assms(9,10) in \<open>simp add: truncate_part_def eval_simps obs_simps\<close>)
  have sf: "does (sendfile_part have_macro (rv f)) [(Lseek64 (rv f) 0 0, l2), (Open64 ''test64.out'' CREATE_FLAGS 384, f2), (Sendfile (rv f2) (rv f) 4096, sf)]
      (''sendfile -> '' @ fmt_d (rv sf) @ '' bytes\<newline>'')"
    by (rule doesI) (use assms(11,12,16-18) in \<open>simp add: sendfile_part_def eval_simps obs_simps\<close>)
  have b: "does (bigoff_part (rv f)) [(Lseek64 (rv f) bigoff 0, l3), (Write (rv f) ''X\<newline>'', rep 2)]
      ''wrote 2 bytes at large offset 1099511627876\<newline>''"
    by (rule doesI) (use assms(14) in \<open>simp add: bigoff_part_def eval_simps obs_simps d\<close>)
  note parts = does_block(2) [OF does_basic(2) [of "''open64 -> fd='' @ fmt_d (rv f) @ ''\<newline>''"] does_block(2) [OF p does_block(2) [OF
    pread_zeroed [OF td(1,2), of have_macro "rv f"] does_block(2) [OF s does_block(2) [OF t does_block(2) [OF sf does_block(2) [OF
    getdents_does [where have_macro = have_macro, OF assms(1-3,13,15), of c] does_block(2) [OF b does_block(1)]]]]]]]]
  let ?s = "logged (Open64 ''test64.tmp'' CREATE_FLAGS 384) f (put_out ''=== test64: starting\<newline>'' (start m ([f, rep 29, data_reply testdata, l, st, st2,
      st3, t1, t2, rep 6, l2, f2, sf, dir, data_reply d, c, l3, rep 2] @ rest)))"
  obtain s1 where s1: "block [printf (''open64 -> fd='' @ fmt_d (rv f) @ ''\<newline>''), pwrite_part have_macro (rv f), pread_part have_macro (rv f),
      stat_part (rv f) ''test64.tmp'', truncate_part (rv f) ''test64.tmp'', sendfile_part have_macro (rv f),
      getdents_part have_macro big_endian, bigoff_part (rv f)] ?s = (Ret (), s1)" "answers s1 = rest"
      "calls s1 = [(Open64 ''test64.tmp'' CREATE_FLAGS 384, f), (Pwrite64 (rv f) testdata 1234567890123, rep 29),
      (Pread64 (rv f) 4095 1234567890123, data_reply testdata), (Lseek64 (rv f) 0 2, l), (Fstat64 (rv f), st), (Stat64 ''test64.tmp'', st2),
      (Lstat64 ''test64.tmp'', st3), (Ftruncate64 (rv f) 0, t1), (Truncate64 ''test64.tmp'' 0, t2), (Write (rv f) ''again\<newline>'', rep 6),
      (Lseek64 (rv f) 0 0, l2), (Open64 ''test64.out'' CREATE_FLAGS 384, f2), (Sendfile (rv f2) (rv f) 4096, sf),
      (Open64 ''.'' DIR_FLAGS 0, dir), (Getdents64 (rv dir) 8192, data_reply d), (Close (rv dir), c),
      (Lseek64 (rv f) 1099511627876 0, l3), (Write (rv f) ''X\<newline>'', rep 2)]"
      "printed s1 = printed ?s @ ''open64 -> fd='' @ fmt_d (rv f) @ ''\<newline>pwrite64 wrote=29 at offset 1234567890123\<newline>pread64 read=29 bytes: Hello from pwrite64/pread64!\<newline>\<newline>'' @
      ''lseek64 -> end offset='' @ fmt_d (rv l) @ ''\<newline>fstat64: size='' @ fmt_d (out_int 0 st) @ '', ino='' @ fmt_d (out_int 1 st) @
      ''\<newline>stat64: size='' @ fmt_d (out_int 0 st2) @ ''\<newline>lstat64: mode='' @ fmt_o (out_int 0 st3) @
      ''\<newline>ftruncate64 -> truncated to 0\<newline>truncate64 -> truncated to 0\<newline>sendfile -> '' @ fmt_d (rv sf) @ '' bytes\<newline>'' @
      ''getdents64 returned '' @ fmt_d (int (length d)) @ '' bytes\<newline>'' @ concat (map dirent_line ds) @
      ''wrote 2 bytes at large offset 1099511627876\<newline>''"
    by (rule doesE [OF parts, of ?s rest]) (simp_all add: obs_simps td d, simp add: testdata_def write_off_def bigoff_def)
  with assms(4) show ?thesis
    by (simp add: call64_main_def Let_def bindS_def plain_run sys_eval obs_simps)
qed

definition linux_macros :: build where
  "linux_macros name \<longleftrightarrow> name \<in> {''SYS_pwrite64'', ''SYS_pread64'', ''SYS_getdents64'', ''__NR_sendfile'', ''SYS_sendfile''}"

theorem call64_run_witness:
  "\<exists>s'. call64_main linux_macros False (start FullyBuffered ([rep 3, rep 29, data_reply testdata, rep 1234567890152, rep 0, rep 0, rep 0,
      rep 0, rep 0, rep 6, rep 0, rep 4, rep 6, rep 5, data_reply (concat (map (encode_dirent False) [dot])), rep 0,
      rep 1099511627876, rep 2] @ [])) = (Exited 0, s')"
proof -
  have "list_all wf_dirent [dot]" "length (concat (map (encode_dirent False) [dot])) \<le> 8192"
    using wf_dot length_encode [OF wf_dot] by (simp_all add: dot_def)
  from call64_run [OF this(1) refl this(2), of "rep 3" "rep 1234567890152" "rep 0" "rep 0" "rep 0" "rep 0" "rep 0" "rep 4" "rep 6" "rep 5"
      "rep 1099511627876" linux_macros FullyBuffered "rep 0" "rep 0" "[]"]
  show ?thesis
    by (auto simp: linux_macros_def)
qed

end
