(* ===== verification/Clone_Programs.thy ===== *)
theory Clone_Programs
  imports Memory Wait_Loop
begin

text \<open>
  \<^verbatim>\<open>clone.c\<close> and \<^verbatim>\<open>sample.c\<close>: children made with \<^verbatim>\<open>clone\<close>. A child runs a function and ends without
  flushing standard output when the function returns. \<^verbatim>\<open>clone.c\<close> makes five children, each of which
  should end in its own way, and checks the status of each.
\<close>

abbreviation "Clone_fn arg \<equiv> Call ''clone(fn)'' arg"

abbreviation SIGTERM :: int where "SIGTERM \<equiv> 15"
abbreviation SIGSTOP :: int where "SIGSTOP \<equiv> 19"

text \<open>\<^verbatim>\<open>_exit\<close>, which the C library calls when the function of a clone returns.\<close>

definition quick_exit :: "int \<Rightarrow> 'a stm" where
  "quick_exit n s = (Exited n, s)"

lemma quick_exit_run [run_simps]: "quick_exit n s = (Exited n, s)" "bindS (quick_exit n) f = quick_exit n"
  by (simp_all add: quick_exit_def bindS_def fun_eq_iff)

lemma appends_quick_exit [appends_intros]: "appends (quick_exit n)"
  by (simp add: appends_def quick_exit_def)

subsection \<open>\<^verbatim>\<open>clone.c\<close>\<close>

text \<open>The child's function. Its argument is null (\<open>None\<close>) or points to a number; \<open>traps\<close> says whether the
  machine raises a signal when an integer is divided by zero (x86 does, ARM does not).\<close>

definition divide_10 :: "bool \<Rightarrow> int \<Rightarrow> unit stm" where
  "divide_10 traps n = (if n = 0 \<and> traps then signalled SIGFPE else skip)"

definition clone_fn :: "bool \<Rightarrow> int \<Rightarrow> int option \<Rightarrow> unit stm" where
  "clone_fn traps addr arg = block [
     printf (''\<newline>INFO: This code is running under child process with arg at '' @ fmt_p addr @ ''.\<newline>''), fflush,
     case arg of None \<Rightarrow> signalled SIGSEGV
     | Some n \<Rightarrow> block [
         printf (''INFO: arg is '' @ fmt_d n @ ''.\<newline>''), fflush,
         divide_10 traps n,
         if n = 1 then block [printf ''Sleep for a while so can have signal applied\<newline>'', fflush, do_call (Sleep 2)]
         else block [printf (''Working with '' @ fmt_d n @ ''\<newline>''), fflush],
         quick_exit n]]"

definition segv_text :: "status \<Rightarrow> string" where
  "segv_text st =
     (if WIFSIGNALED st then
        if WTERMSIG st = SIGSEGV then ''killed by segfault as expected\<newline>''
        else ''Expect segfault but killed unexpectedly by signal '' @ fmt_d (WTERMSIG st) @ ''\<newline>''
      else if WIFEXITED st then
        ''Expect segfault but unexpectedly exited normally, status='' @ fmt_d (WEXITSTATUS st) @ ''\<newline>''
      else ''Expect segfault but unexpectedly continued or stopped\<newline>'')"

definition fpe_text :: "status \<Rightarrow> string" where
  "fpe_text st =
     (if WIFSIGNALED st then
        if WTERMSIG st = SIGFPE then ''killed by floating point error as expected\<newline>''
        else ''Expect fpe but killed unexpectedly by signal '' @ fmt_d (WTERMSIG st) @ ''\<newline>''
      else if WIFEXITED st then
        ''Expect fpe but unexpectedly exited normally, status='' @ fmt_d (WEXITSTATUS st) @ ''\<newline>''
      else ''Expect fpe but unexpectedly continued or stopped\<newline>'')"

definition term_text :: "status \<Rightarrow> string" where
  "term_text st =
     (if WIFSIGNALED st then
        if WTERMSIG st = SIGTERM then ''killed by sigterm as expected\<newline>''
        else ''Expect sigterm but killed unexpectedly by signal '' @ fmt_d (WTERMSIG st) @ ''\<newline>''
      else if WIFEXITED st then ''Exited normally but expected sigterm , status='' @ fmt_d (WEXITSTATUS st) @ ''\<newline>''
      else if WIFSTOPPED st then ''stopped by signal '' @ fmt_d (WSTOPSIG st) @ ''\<newline>''
      else ''Unexpectedly continued or stopped\<newline>'')"

definition stop_text :: "status \<Rightarrow> string" where
  "stop_text st =
     (if WIFSIGNALED st then ''Unexpectedly killed  by signal '' @ fmt_d (WTERMSIG st) @ ''\<newline>''
      else if WIFEXITED st then ''Exited normally as expected, status='' @ fmt_d (WEXITSTATUS st) @ ''\<newline>''
      else if WIFSTOPPED st then
        if WSTOPSIG st = SIGSTOP then ''stopped by sig stop as expected\<newline>''
        else ''stopped by signal '' @ fmt_d (WSTOPSIG st) @ '' not '' @ fmt_d SIGSTOP @ ''\<newline>''
      else ''Unexpectedly continued or stopped\<newline>'')"

definition plain_text :: "status \<Rightarrow> string" where
  "plain_text st =
     (if WIFSIGNALED st then ''Unexpectdely killed  by signal '' @ fmt_d (WTERMSIG st) @ ''\<newline>''
      else if WIFEXITED st then ''Exited normally as expected, status='' @ fmt_d (WEXITSTATUS st) @ ''\<newline>''
      else ''Unexpectedly continued or stopped\<newline>'')"

definition make_child :: "arg list \<Rightarrow> int stm" where
  "make_child arg = bindS (sysv (Clone_fn arg)) (\<lambda>pid.
     bindS (only_if (pid < 0) [printf ''ERROR: Unable to create the child process.\<newline>'', exit 1]) (\<lambda>_. ret pid))"

text \<open>The result of \<^verbatim>\<open>waitpid\<close> is not checked: when it fails, \<^verbatim>\<open>status\<close> keeps the value it had, if any.\<close>

definition check_child :: "(status \<Rightarrow> string) \<Rightarrow> status option \<Rightarrow> status option stm" where
  "check_child text status = bindS (sys (Waitpid 0 WAIT_OPTS)) (\<lambda>r.
     let status = (if rv r = -1 then status else Some (wstat r)) in
     with_value status (\<lambda>st. yields [printf (text st), fflush] status))"

definition signal_child :: "int \<Rightarrow> int \<Rightarrow> unit stm" where
  "signal_child pid sig = block [do_call (Sleep 1), do_call (Kill pid sig)]"

definition print_args :: "string list \<Rightarrow> unit stm" where
  "print_args argv = for_loop 1 (argc argv) (\<lambda>i _. printf (''Arg '' @ fmt_d i @ '': '' @ argv ! nat i)) ()"

text \<open>\<^verbatim>\<open>main\<close> returns no value: \<open>code\<close> is whatever exit status results.\<close>

definition clone_main :: "int \<Rightarrow> string list \<Rightarrow> unit stm" where
  "clone_main code argv = block [
     printf ''Hello, World!\<newline>'',
     print_args argv,
     fflush,
     bindS (sysv (Malloc 1048576)) (\<lambda>pchild_stack. only_if (pchild_stack = 0) [
       printf ''ERROR: Unable to allocate memory.\<newline>'', exit 1]),
     bindS (make_child []) (\<lambda>_. bindS (check_child segv_text None) (\<lambda>status.
     bindS (make_child [I 0]) (\<lambda>_. bindS (check_child fpe_text status) (\<lambda>status.
     bindS (make_child [I 1]) (\<lambda>pid. bindS (signal_child pid SIGTERM) (\<lambda>_. bindS (check_child term_text status) (\<lambda>status.
     bindS (make_child [I 1]) (\<lambda>pid. bindS (signal_child pid SIGSTOP) (\<lambda>_. bindS (check_child stop_text status) (\<lambda>status.
     bindS (make_child [I 3]) (\<lambda>_. bindS (check_child plain_text status) (\<lambda>_. skip)))))))))))),
     printf ''INFO: Child process terminated.\<newline>'',
     exit code]"

subsection \<open>\<^verbatim>\<open>sample.c\<close>\<close>

definition in_int :: "int \<Rightarrow> bool" where
  "in_int v \<longleftrightarrow> INT_MIN \<le> v \<and> v \<le> INT_MAX"

definition times_body :: "int \<Rightarrow> int \<Rightarrow> unit \<Rightarrow> unit stm" where
  "times_body n i _ = (if in_int (n * i) then
       block [printf (fmt_d n @ '' * '' @ fmt_d i @ '' = '' @ fmt_d (n * i) @ ''\<newline>''), fflush]
     else undefined_behaviour ''n*i overflows'')"

definition sample_fn :: "string option \<Rightarrow> unit stm" where
  "sample_fn arg = block [
     printf ''\<newline>INFO: This code is running under child process.\<newline>'',
     case arg of None \<Rightarrow> signalled SIGSEGV
     | Some t \<Rightarrow> block [
         for_loop 1 4 (times_body (atoi t)) (),
         printf ''\<newline>'',
         quick_exit 0]]"

definition sample_wait :: "unit stm" where
  "sample_wait = do_while (bindS (sys (Waitpid 0 WAIT_OPTS)) (\<lambda>r.
     if rv r = -1 then ret False
     else yields [report_status [] (wstat r)] (\<not> WIFEXITED (wstat r) \<and> \<not> WIFSIGNALED (wstat r))))"

definition sample_main :: "int \<Rightarrow> string list \<Rightarrow> unit stm" where
  "sample_main code argv = block [
     printf ''Hello, World!\<newline>'',
     print_args argv,
     fflush,
     bindS (sysv (Malloc 1048576)) (\<lambda>pchild_stack. only_if (pchild_stack = 0) [
       printf ''ERROR: Unable to allocate memory.\<newline>'', exit 1]),
     bindS (sysv (Clone_fn (if argc argv > 1 then [S (argv ! 1)] else []))) (\<lambda>pid. only_if (pid < 0) [
       printf ''ERROR: Unable to create the child process.\<newline>'', exit 1]),
     sample_wait,
     printf ''INFO: Child process terminated.\<newline>'',
     exit code]"

interpretation sample_wl: wait_loop "reported []" "\<lambda>r. status_text [] (wstat r)" sample_wait 0 WAIT_OPTS skip
  by (rule wait_loop_do_while [OF sample_wait_def]) (auto simp: terminal_def run_simps obs_simps)

subsection \<open>Properties\<close>

definition args_text :: "string list \<Rightarrow> string" where
  "args_text argv = concat (map (\<lambda>i. ''Arg '' @ fmt_d i @ '': '' @ argv ! nat i) [1..argc argv - 1])"

lemma print_args_does: "does (print_args argv) [] (args_text argv)"
  using does_for_loop [of 1 "argc argv" "\<lambda>i _. printf (''Arg '' @ fmt_d i @ '': '' @ argv ! nat i)" "\<lambda>_. []"
      "\<lambda>i. ''Arg '' @ fmt_d i @ '': '' @ argv ! nat i"]
  by (simp add: print_args_def args_text_def does_basic)

text \<open>The status the kernel reports for a child that ended this way (\<open>core\<close>: with a core dump).\<close>

fun child_status :: "bool \<Rightarrow> unit result \<Rightarrow> status option" where
  "child_status core (Exited n) = Some (exit_status n)"
| "child_status core (Signalled n) = Some (signal_status n core)"
| "child_status core _ = None"

lemma clone_fn_ends:
  "fst (clone_fn traps addr None s) = Signalled SIGSEGV"
  "fst (clone_fn True addr (Some 0) s) = Signalled SIGFPE"
  "fst (clone_fn False addr (Some 0) s) = Exited 0"
  "n \<noteq> 0 \<Longrightarrow> n \<noteq> 1 \<Longrightarrow> fst (clone_fn traps addr (Some n) s) = Exited n"
  by (simp_all add: clone_fn_def divide_10_def quick_exit_run(1) eval_simps)

lemma status_kinds:
  "WIFSIGNALED (exit_status n) = False" "WIFEXITED (exit_status n)" "WEXITSTATUS (exit_status n) = n mod 256"
  "0 < k \<Longrightarrow> k < 127 \<Longrightarrow> WIFSIGNALED (signal_status k core)" "0 < k \<Longrightarrow> k < 127 \<Longrightarrow> WTERMSIG (signal_status k core) = k"
  "0 < j \<Longrightarrow> j < 256 \<Longrightarrow> WIFSTOPPED (stop_status j)" "0 < j \<Longrightarrow> j < 256 \<Longrightarrow> WSTOPSIG (stop_status j) = j"
  "0 < j \<Longrightarrow> j < 256 \<Longrightarrow> WIFSIGNALED (stop_status j) = False" "0 < j \<Longrightarrow> j < 256 \<Longrightarrow> WIFEXITED (stop_status j) = False"
  using exit_status_read status_exclusive(1) [OF exit_status_read(1)] signal_status_read stop_status_read status_exclusive(3) [OF stop_status_read(1)]
  by blast+

text \<open>The run of the parent when no call fails, whatever the statuses are: the calls it makes, and one text per status.\<close>

lemma clone_main_run:
  assumes "rv h \<noteq> 0" "\<forall>p \<in> {p1, p2, p3, p4, p5}. 0 \<le> rv p" "\<forall>w \<in> {w1, w2, w3, w4, w5}. rv w \<noteq> -1"
  shows "\<exists>s'. clone_main code argv (start m ([h, p1, w1, p2, w2, p3, z3, k3, w3, p4, z4, k4, w4, p5, w5] @ rest)) = (Exited code, s') \<and>
    answers s' = rest \<and>
    calls s' = [(Malloc 1048576, h), (Clone_fn [], p1), (Waitpid 0 WAIT_OPTS, w1), (Clone_fn [I 0], p2), (Waitpid 0 WAIT_OPTS, w2),
      (Clone_fn [I 1], p3), (Sleep 1, z3), (Kill (rv p3) SIGTERM, k3), (Waitpid 0 WAIT_OPTS, w3),
      (Clone_fn [I 1], p4), (Sleep 1, z4), (Kill (rv p4) SIGSTOP, k4), (Waitpid 0 WAIT_OPTS, w4),
      (Clone_fn [I 3], p5), (Waitpid 0 WAIT_OPTS, w5)] \<and>
    written s' = ''Hello, World!\<newline>'' @ args_text argv @ segv_text (wstat w1) @ fpe_text (wstat w2) @ term_text (wstat w3) @
      stop_text (wstat w4) @ plain_text (wstat w5) @ ''INFO: Child process terminated.\<newline>''"
proof -
  let ?s = "put_out ''Hello, World!\<newline>'' (start m ([h, p1, w1, p2, w2, p3, z3, k3, w3, p4, z4, k4, w4, p5, w5] @ rest))"
  obtain s1 where s1: "print_args argv ?s = (Ret (), s1)" "calls s1 = []"
      "answers s1 = [h, p1, w1, p2, w2, p3, z3, k3, w3, p4, z4, k4, w4, p5, w5] @ rest" "printed s1 = ''Hello, World!\<newline>'' @ args_text argv"
    by (rule doesE [OF print_args_does [of argv], of ?s]) (auto simp: obs_simps)
  then show ?thesis
    using assms by (simp add: clone_main_def make_child_def check_child_def signal_child_def eval_simps obs_simps Let_def)
qed

text \<open>What a signal does by default to a process: it is stopped, or killed, or (\<open>None\<close>) goes on.\<close>

definition default_action :: "bool \<Rightarrow> int \<Rightarrow> status option" where
  "default_action core sig = (if sig \<in> {0, 17, 18, 23, 28} then None
     else if sig \<in> {19, 20, 21, 22} then Some (stop_status sig) else Some (signal_status sig core))"

text \<open>The status of a child made with the argument \<open>arg\<close> that has been sent the signals \<open>sigs\<close>: where its function waits
  in a call, the first signal that acts decides; otherwise the status is that of the function's own end.\<close>

fun points_to :: "arg list \<Rightarrow> int option" where
  "points_to [I n] = Some n"
| "points_to _ = None"

definition report_of :: "bool \<Rightarrow> bool \<Rightarrow> int \<Rightarrow> arg list \<Rightarrow> int list \<Rightarrow> status option" where
  "report_of traps core addr arg sigs =
     (case (fst (clone_fn traps addr (points_to arg) (start Unbuffered [])), List.map_filter (default_action core) sigs) of
        (Blocked c, st # _) \<Rightarrow> Some st
      | _ \<Rightarrow> child_status core (fst (clone_fn traps addr (points_to arg) (start Unbuffered [rep 0]))))"

text \<open>A history of the parent's calls in which every \<^verbatim>\<open>waitpid\<close> reports the child that was made last, as its
  argument and the signals it was sent determine; \<open>cur\<close> are the argument, the process number and the signals of that child.\<close>

fun tells_truth :: "bool \<Rightarrow> bool \<Rightarrow> int \<Rightarrow> arg list \<times> int \<times> int list \<Rightarrow> (call \<times> reply) list \<Rightarrow> bool" where
  "tells_truth traps core addr cur [] \<longleftrightarrow> True"
| "tells_truth traps core addr (arg, pid, sigs) ((Call name as, r) # hist) \<longleftrightarrow>
     (if name = ''clone(fn)'' then tells_truth traps core addr (as, rv r, []) hist
      else if name = ''kill'' then tells_truth traps core addr
        (arg, pid, case as of [I p, I sig] \<Rightarrow> if p = pid then sigs @ [sig] else sigs | _ \<Rightarrow> sigs) hist
      else if name = ''waitpid'' then report_of traps core addr arg sigs = Some (wstat r) \<and> tells_truth traps core addr (arg, pid, sigs) hist
      else tells_truth traps core addr (arg, pid, sigs) hist)"

lemma report_of_children:
  "report_of traps core addr [] [] = Some (signal_status SIGSEGV core)"
  "report_of traps core addr [I 0] [] = Some (if traps then signal_status SIGFPE core else exit_status 0)"
  "report_of traps core addr [I 1] [SIGTERM] = Some (signal_status SIGTERM core)"
  "report_of traps core addr [I 1] [SIGSTOP] = Some (stop_status SIGSTOP)"
  "report_of traps core addr [I 3] [] = Some (exit_status 3)"
  by (simp_all add: report_of_def clone_fn_def divide_10_def quick_exit_run(1) default_action_def map_filter_simps eval_simps obs_simps)

text \<open>C22. \<^verbatim>\<open>clone.c\<close>, the parent and its five children: suppose the kernel reports to each \<^verbatim>\<open>waitpid\<close> of the parent what
  becomes of the child that the parent made last, by running the child's function on the argument the parent passed and
  applying the signals the parent sent to it while it sleeps. Then the parent prints for each child that it is as
  expected; except that on a machine where dividing by zero does not trap the second child exits with 0, which the parent
  reports.\<close>

theorem clone_children_reported:
  assumes "rv h \<noteq> 0" "\<forall>p \<in> {p1, p2, p3, p4, p5}. 0 \<le> rv p" "\<forall>w \<in> {w1, w2, w3, w4, w5}. rv w \<noteq> -1"
    and "rs = [h, p1, w1, p2, w2, p3, z3, k3, w3, p4, z4, k4, w4, p5, w5] @ rest"
    and "tells_truth traps core addr ([], 0, []) (calls (snd (clone_main code argv (start m rs))))"
  shows "\<exists>s'. clone_main code argv (start m rs) = (Exited code, s') \<and> answers s' = rest \<and>
    map fst (calls s') = [Malloc 1048576, Clone_fn [], Waitpid 0 WAIT_OPTS, Clone_fn [I 0], Waitpid 0 WAIT_OPTS,
      Clone_fn [I 1], Sleep 1, Kill (rv p3) SIGTERM, Waitpid 0 WAIT_OPTS, Clone_fn [I 1], Sleep 1, Kill (rv p4) SIGSTOP, Waitpid 0 WAIT_OPTS,
      Clone_fn [I 3], Waitpid 0 WAIT_OPTS] \<and>
    written s' = ''Hello, World!\<newline>'' @ args_text argv @ ''killed by segfault as expected\<newline>'' @
      (if traps then ''killed by floating point error as expected\<newline>''
       else ''Expect fpe but unexpectedly exited normally, status=0\<newline>'') @
      ''killed by sigterm as expected\<newline>stopped by sig stop as expected\<newline>Exited normally as expected, status=3\<newline>'' @
      ''INFO: Child process terminated.\<newline>''"
proof -
  have d: "fmt_d 3 = ''3''" "fmt_d 0 = ''0''"
    by code_simp+
  note texts = segv_text_def fpe_text_def term_text_def stop_text_def plain_text_def status_kinds d
  from clone_main_run [OF assms(1-3), of code argv m z3 k3 z4 k4 rest] obtain s' where
    run: "clone_main code argv (start m rs) = (Exited code, s')" "answers s' = rest"
    and calls: "calls s' = [(Malloc 1048576, h), (Clone_fn [], p1), (Waitpid 0 WAIT_OPTS, w1), (Clone_fn [I 0], p2), (Waitpid 0 WAIT_OPTS, w2),
      (Clone_fn [I 1], p3), (Sleep 1, z3), (Kill (rv p3) SIGTERM, k3), (Waitpid 0 WAIT_OPTS, w3),
      (Clone_fn [I 1], p4), (Sleep 1, z4), (Kill (rv p4) SIGSTOP, k4), (Waitpid 0 WAIT_OPTS, w4),
      (Clone_fn [I 3], p5), (Waitpid 0 WAIT_OPTS, w5)]"
    and out: "written s' = ''Hello, World!\<newline>'' @ args_text argv @ segv_text (wstat w1) @ fpe_text (wstat w2) @ term_text (wstat w3) @
      stop_text (wstat w4) @ plain_text (wstat w5) @ ''INFO: Child process terminated.\<newline>''"
    unfolding assms(4) by blast
  have st: "wstat w1 = signal_status SIGSEGV core" "wstat w2 = (if traps then signal_status SIGFPE core else exit_status 0)"
      "wstat w3 = signal_status SIGTERM core" "wstat w4 = stop_status SIGSTOP" "wstat w5 = exit_status 3"
    using assms(5) by (simp_all add: run(1) calls report_of_children)
  from run calls show ?thesis
    by (simp add: out st texts)
qed

theorem clone_children_reported_witness:
  "\<exists>s'. clone_main 0 [''clone''] (start Unbuffered ([rep 4096, rep 11, (rep 11)\<lparr>wstat := signal_status SIGSEGV False\<rparr>,
      rep 12, (rep 12)\<lparr>wstat := signal_status SIGFPE False\<rparr>, rep 13, rep 0, rep 0, (rep 13)\<lparr>wstat := signal_status SIGTERM False\<rparr>,
      rep 14, rep 0, rep 0, (rep 14)\<lparr>wstat := stop_status SIGSTOP\<rparr>, rep 15, (rep 15)\<lparr>wstat := exit_status 3\<rparr>] @ [])) = (Exited 0, s')"
proof -
  let ?p = "\<lambda>n. rep n" and ?w = "\<lambda>n st. (rep n)\<lparr>wstat := st\<rparr>"
  let ?rs = "[rep 4096, rep 11, ?w 11 (signal_status SIGSEGV False), rep 12, ?w 12 (signal_status SIGFPE False),
    rep 13, rep 0, rep 0, ?w 13 (signal_status SIGTERM False), rep 14, rep 0, rep 0, ?w 14 (stop_status SIGSTOP),
    rep 15, ?w 15 (exit_status 3)] @ []"
  have ok: "rv (rep 4096) \<noteq> 0" "\<forall>p \<in> {rep 11, rep 12, rep 13, rep 14, rep 15}. 0 \<le> rv p"
    "\<forall>w \<in> {?w 11 (signal_status SIGSEGV False), ?w 12 (signal_status SIGFPE False), ?w 13 (signal_status SIGTERM False),
      ?w 14 (stop_status SIGSTOP), ?w 15 (exit_status 3)}. rv w \<noteq> -1"
    by simp_all
  have "tells_truth True False 4096 ([], 0, []) (calls (snd (clone_main 0 [''clone''] (start Unbuffered ?rs))))"
    using clone_main_run [OF ok, of 0 "[''clone'']" Unbuffered "rep 0" "rep 0" "rep 0" "rep 0" "[]"]
    by (elim exE conjE) (simp add: report_of_children)
  from clone_children_reported [OF ok refl this] show ?thesis
    by blast
qed

subsection \<open>\<^verbatim>\<open>sample.c\<close>: properties\<close>

definition times_line :: "int \<Rightarrow> int \<Rightarrow> string" where
  "times_line n i = fmt_d n @ '' * '' @ fmt_d i @ '' = '' @ fmt_d (n * i) @ ''\<newline>''"

lemma times_loop:
  "for_loop 1 4 (times_body n) () s =
     (if \<not> in_int n then (Undefined ''n*i overflows'', s)
      else if \<not> in_int (2 * n) then (Undefined ''n*i overflows'', flush_out (put_out (times_line n 1) s))
      else if \<not> in_int (3 * n) then (Undefined ''n*i overflows'', flush_out (put_out (times_line n 2) (flush_out (put_out (times_line n 1) s))))
      else (Ret (), flush_out (put_out (times_line n 3) (flush_out (put_out (times_line n 2) (flush_out (put_out (times_line n 1) s)))))))"
  by (simp add: for_loop_step for_loop_empty times_body_def times_line_def eval_simps ac_simps)

text \<open>The child of \<^verbatim>\<open>sample.c\<close> overflows an \<^verbatim>\<open>int\<close> exactly when three times its argument does not fit;
  otherwise it prints the table and exits with 0, and the last newline is lost when standard output is
  fully buffered, because the child ends without flushing it.\<close>

theorem sample_fn_table:
  "if in_int (3 * atoi t) then
     \<exists>s'. sample_fn (Some t) (start m rs) = (Exited 0, s') \<and>
       written s' = ''\<newline>INFO: This code is running under child process.\<newline>'' @ times_line (atoi t) 1 @ times_line (atoi t) 2 @
         times_line (atoi t) 3 @ (if m = FullyBuffered then [] else ''\<newline>'')
   else \<exists>w. fst (sample_fn (Some t) (start m rs)) = Undefined w"
proof -
  have "in_int (atoi t)" "in_int (3 * atoi t) \<Longrightarrow> in_int (2 * atoi t)"
    using atoi_range [of t] by (auto simp: in_int_def int_limits)
  then show ?thesis
    by (cases m) (auto simp: sample_fn_def eval_simps obs_simps times_loop quick_exit_run(1) written_put_out)
qed

text \<open>The parent of \<^verbatim>\<open>sample.c\<close> together with its child: called without an argument it reports that the
  child was killed by signal 11, called with a number in range that it exited with 0.\<close>

theorem sample_system:
  assumes "rv h \<noteq> 0" "0 \<le> rv p" "\<And>w. w \<in> set ws \<Longrightarrow> live w" "rv e \<noteq> -1"
    and "child_status core (fst (sample_fn (if argc argv > 1 then Some (argv ! 1) else None) (start m' rs))) = Some (wstat e)"
  shows "\<exists>s'. sample_main code argv (start m (h # p # ws @ e # rest)) = (Exited code, s') \<and> answers s' = rest \<and>
    written s' = ''Hello, World!\<newline>'' @ args_text argv @ concat (map (\<lambda>r. status_text [] (wstat r)) ws) @
      (if argc argv > 1 then ''exited, status=0\<newline>'' else ''killed by signal 11\<newline>'') @ ''INFO: Child process terminated.\<newline>''"
proof -
  have st: "wstat e = (if argc argv > 1 then exit_status 0 else signal_status SIGSEGV core)"
    using assms(5) sample_fn_table [of "argv ! 1" m' rs]
    by (auto simp: sample_fn_def eval_simps split: if_splits)
  then have dead: "dead e"
    using assms(4) by (simp add: dead_def terminal_cases)
  have line: "status_text [] (wstat e) = (if argc argv > 1 then ''exited, status=0\<newline>'' else ''killed by signal 11\<newline>'')"
    by (simp add: st status_text_kinds) code_simp
  let ?s = "put_out ''Hello, World!\<newline>'' (start m (h # p # ws @ e # rest))"
  obtain s1 where s1: "print_args argv ?s = (Ret (), s1)" "answers s1 = h # p # ws @ e # rest"
      "printed s1 = ''Hello, World!\<newline>'' @ args_text argv"
    by (rule doesE [OF print_args_does [of argv], of ?s]) (auto simp: obs_simps)
  let ?s2 = "logged (Clone_fn (if argc argv > 1 then [S (argv ! 1)] else [])) p (logged (Malloc 1048576) h (flush_out s1))"
  have "sample_wait ?s2 = (Ret (), reap (reported []) (Waitpid 0 WAIT_OPTS) (ws @ [e]) ?s2)"
    by (rule sample_wl.returns) (use s1(2) assms(3) dead in \<open>auto simp: obs_simps\<close>)
  with s1 assms(1,2) line show ?thesis
    by (simp add: sample_main_def eval_simps obs_simps)
qed

theorem sample_system_witness:
  "\<exists>s'. sample_main 33 [''sample''] (start Unbuffered (rep 4096 # rep 20 # [(rep 20)\<lparr>wstat := continued_status\<rparr>] @
      (rep 20)\<lparr>wstat := signal_status SIGSEGV False\<rparr> # [])) = (Exited 33, s')"
  using sample_system [of "rep 4096" "rep 20" "[(rep 20)\<lparr>wstat := continued_status\<rparr>]" "(rep 20)\<lparr>wstat := signal_status SIGSEGV False\<rparr>"
      False "[''sample'']" Unbuffered "[]" 33 Unbuffered "[]"] live_continued [of 20]
  by (auto simp: sample_fn_def eval_simps argc_def)

end
