(* ===== verification/Control_Threads.thy ===== *)
theory Control_Threads
  imports Scatter_Gather Thread_Pool Small_Programs
begin

text \<open>
  \<^verbatim>\<open>controlthreads.c\<close>: a named pipe, two forked processes and seven threads that wait for the keyboard,
  a device, a file, each other through the pipe, and a device's \<^verbatim>\<open>ioctl\<close>s.

  A thread function ends with the pointer it gives to \<^verbatim>\<open>pthread_exit\<close>: \<open>None\<close> is the null pointer,
  \<open>Some v\<close> one to an \<^verbatim>\<open>int\<close> with value \<open>v\<close>. The reply of \<^verbatim>\<open>pthread_join\<close> has the numbers \<open>[v]\<close>, or
  none for a null pointer.
\<close>

abbreviation PIPE_NAME :: string where "PIPE_NAME \<equiv> ''/tmp/controlthreads_pipe''"
abbreviation DEVICE_NAME :: string where "DEVICE_NAME \<equiv> ''/dev/mydevice''"
abbreviation "Mkfifo path mode \<equiv> Call ''mkfifo'' [S path, I mode]"
abbreviation "Chmod path mode \<equiv> Call ''chmod'' [S path, I mode]"
abbreviation "Dup fd \<equiv> Call ''dup'' [I fd]"
abbreviation "Ioctl_write fd t \<equiv> Call ''ioctl(IOCTL_WRITE)'' [I fd, S t]"
abbreviation "Ioctl_read fd \<equiv> Call ''ioctl(IOCTL_READ)'' [I fd]"

subsection \<open>Thread functions\<close>

text \<open>\<^verbatim>\<open>*exitval = v; pthread_exit(exitval);\<close> where \<^verbatim>\<open>exitval\<close> is the unchecked result of \<^verbatim>\<open>malloc\<close>.\<close>

definition thread_exit :: "int \<Rightarrow> int \<Rightarrow> int option stm" where
  "thread_exit exitval v = (if exitval = 0 then signalled SIGSEGV else ret (Some v))"

definition ct_running_text :: "int \<Rightarrow> int \<Rightarrow> int \<Rightarrow> string" where
  "ct_running_text thread_id pid tid = ''Our thread '' @ fmt_d thread_id @ '' is running as pid, tid: '' @
     fmt_d pid @ '','' @ fmt_d tid"

definition ct_print_thread_id :: "int \<Rightarrow> int option stm" where
  "ct_print_thread_id thread_id = bindS (sysv (Malloc 4)) (\<lambda>exitval.
     bindS (sysv Getpid) (\<lambda>pid. bindS (sysv Gettid) (\<lambda>tid.
     bindS (block [printf (ct_running_text thread_id pid tid @ ''\<newline>''), do_call (Sleep 1)]) (\<lambda>_.
     bindS (sysv Getpid) (\<lambda>pid. bindS (sysv Gettid) (\<lambda>tid.
     bindS (printf (ct_running_text thread_id pid tid @ '' ready to exit\<newline>'')) (\<lambda>_.
     thread_exit exitval thread_id)))))))"

definition ct_waitkeyboard :: "int \<Rightarrow> int option stm" where
  "ct_waitkeyboard thread_id = bindS (sysv (Malloc 4)) (\<lambda>exitval.
     bindS (printf (''Thread '' @ fmt_d thread_id @ '' will wait for char to be entered\<newline>'')) (\<lambda>_.
     bindS (sysv Getchar) (\<lambda>v. let ch = signed_char v in
     bindS (if ch = EOF then printf ''Interrupted\<newline>''
            else printf (''Got '' @ [char_of (ch mod 256)] @ ''\<newline>'')) (\<lambda>_.
     thread_exit exitval ch))))"

text \<open>The byte at index 9 of what was read, as a \<^verbatim>\<open>char\<close>.\<close>

definition char_val :: "char \<Rightarrow> int" where
  "char_val c = signed_char (of_char c)"

definition bingo :: string where "bingo = ''bingo''"

text \<open>The loops of \<^verbatim>\<open>waitfakedev\<close> and \<^verbatim>\<open>waitfakefile\<close>: the state is the byte to return, once known. They
  differ in the text for a short read and in when they sleep.\<close>

definition fakedev_body :: "int \<Rightarrow> char option stm" where
  "fakedev_body fd = bindS (sys (Read fd 10)) (\<lambda>r. let nb = rv r; input = delivered r in
     if nb \<noteq> 10 then yields [
         printf (''Not enough input try again '' @ fmt_d nb @ ''\<newline>''),
         only_if (nb \<le> 0) [do_call (Sleep 1)]] None
     else if length input < 10 then undefined_behaviour unset_byte
     else if take 5 input = bingo then yields [printf (''got bingo, return '' @ [input ! 9] @ ''\<newline>'')] (Some (input ! 9))
     else yields [printf (''bad input '' @ cstr input @ '' not bingo\<newline>''), do_call (Sleep 1)] None)"

definition fakefile_body :: "int \<Rightarrow> char option stm" where
  "fakefile_body fd = bindS (sys (Read fd 10)) (\<lambda>r. let nb = rv r; input = delivered r in
     if nb \<noteq> 10 then yields [
         printf (''Not enough input ('' @ fmt_d nb @ '') try again\<newline>''),
         only_if (nb = 0) [do_call (Sleep 1)]] None
     else if length input < 10 then undefined_behaviour unset_byte
     else if take 5 input = bingo then yields [printf (''got bingo, return '' @ [input ! 9] @ ''\<newline>'')] (Some (input ! 9))
     else yields [printf (''bad input '' @ cstr input @ '' not bingo\<newline>'')] None)"

definition until_some :: "char option stm \<Rightarrow> char option stm" where
  "until_some body = while_loop (\<lambda>v. v = None) (\<lambda>_. body) None"

definition wait_text :: "int \<Rightarrow> string" where
  "wait_text thread_id = ''Thread '' @ fmt_d thread_id @ '' will wait for string '' @ [CHR 0x27] @ ''bingo'' @ [CHR 0x27] @
     '' to be read from fake dev\<newline>''"

definition waitfakedev :: "int \<Rightarrow> int option stm" where
  "waitfakedev thread_id = bindS (sysv (Malloc 4)) (\<lambda>exitval.
     bindS (sysv (Open ''/dev/fakeme'' 0)) (\<lambda>fd.
     if fd = -1 then bindS (printf ''No /dev/fakeme\<newline>'') (\<lambda>_. thread_exit exitval (-1))
     else bindS (printf (wait_text thread_id)) (\<lambda>_.
       bindS (until_some (fakedev_body fd)) (\<lambda>c. thread_exit exitval (char_val (the c))))))"

definition waitfakefile :: "int \<Rightarrow> int option stm" where
  "waitfakefile thread_id = bindS (sysv (Malloc 4)) (\<lambda>exitval.
     bindS (sysv (Open ''/FAKEME/fakename'' 0)) (\<lambda>fd.
     if fd = -1 then bindS (printf ''No file FAKEME\<newline>'') (\<lambda>_. thread_exit exitval (-1))
     else bindS (printf (wait_text thread_id)) (\<lambda>_.
       bindS (until_some (fakefile_body fd)) (\<lambda>c. thread_exit exitval (char_val (the c))))))"

definition pipe_messages :: "string list" where
  "pipe_messages = [''1st message'', ''2nd message'', ''last message'']"

definition sendbuf :: "int \<Rightarrow> int \<Rightarrow> string" where
  "sendbuf thread_id i = ''From '' @ fmt_d thread_id @ '': '' @ pipe_messages ! nat i"

definition write_body :: "int \<Rightarrow> int \<Rightarrow> int \<Rightarrow> unit \<Rightarrow> unit stm" where
  "write_body thread_id fd i _ = block [
     do_call (Write fd (sendbuf thread_id i @ [NUL])),
     printf (''Writer: Sent message: '' @ sendbuf thread_id i @ ''\<newline>'')]"

definition pipewriter :: "int \<Rightarrow> int option stm" where
  "pipewriter thread_id = bindS (sysv (Malloc 4)) (\<lambda>exitval.
     bindS (sysv (Open PIPE_NAME 1)) (\<lambda>fd.
     if fd = -1 then bindS (perror ''Failed to open pipe for writing'') (\<lambda>_. ret None)
     else bindS (for_loop 0 3 (write_body thread_id fd) ()) (\<lambda>_.
       bindS (do_call (Close fd)) (\<lambda>_. thread_exit exitval 88))))"

definition read_body :: "int \<Rightarrow> int \<Rightarrow> int \<Rightarrow> memory \<Rightarrow> memory stm" where
  "read_body thread_id fd i readbuf = bindS (sys (Read fd 100)) (\<lambda>r.
     let readbuf = poke 0 (delivered r) readbuf in
     if rv r > 0 then with_value (scan_all readbuf) (\<lambda>t.
       yields [printf (''Reader '' @ fmt_d thread_id @ '': Received message: '' @ t @ ''\<newline>'')] readbuf)
     else ret readbuf)"

definition pipereader :: "int \<Rightarrow> int option stm" where
  "pipereader thread_id = bindS (sysv (Malloc 4)) (\<lambda>exitval.
     bindS (sysv (Open PIPE_NAME 0)) (\<lambda>fd.
     if fd = -1 then bindS (perror ''Failed to open pipe for writing'') (\<lambda>_. ret None)
     else bindS (for_loop 0 3 (read_body thread_id fd) (unset 100)) (\<lambda>readbuf.
       bindS (do_call (Close fd)) (\<lambda>_.
       with_value (readbuf ! 10) (\<lambda>c. thread_exit exitval (char_val c))))))"

definition write_buf :: string where "write_buf = ''Hello, device!''"

definition useioctls :: "int option stm" where
  "useioctls = bindS (sysv (Malloc 4)) (\<lambda>exitval.
     bindS (sysv (Open DEVICE_NAME 2)) (\<lambda>fd.
     if fd < 0 then bindS (perror ''Failed to open the device'') (\<lambda>_. thread_exit exitval 1)
     else bindS (sysv (Ioctl_write fd write_buf)) (\<lambda>v.
       if v < 0 then bindS (block [perror ''Failed to write via ioctl'', do_call (Close fd)]) (\<lambda>_. thread_exit exitval 1)
       else bindS (printf (''Data written: '' @ write_buf @ ''\<newline>'')) (\<lambda>_.
       bindS (sys (Ioctl_read fd)) (\<lambda>r.
       if rv r < 0 then bindS (block [perror ''Failed to read via ioctl'', do_call (Close fd)]) (\<lambda>_. thread_exit exitval 1)
       else with_value (scan_all (poke 0 (take 100 (bytes r)) (zeros 100))) (\<lambda>read_buf.
         bindS (block [
           printf (''Data read: '' @ read_buf @ ''\<newline>''),
           only_if (read_buf \<noteq> write_buf) [
             printf (''Read did not match write '' @ read_buf @ '' != '' @ write_buf)],
           do_call (Close fd)]) (\<lambda>_. thread_exit exitval 0)))))))"

subsection \<open>Threads and processes\<close>

definition thread_funcs :: "string list" where
  "thread_funcs = [''print_thread_id'', ''waitkeyboard'', ''waitfakedev'', ''waitfakefile'', ''pipewriter'', ''pipereader'', ''useioctls'']"

definition ct_create_body :: "int \<Rightarrow> int list \<Rightarrow> int list stm" where
  "ct_create_body i threads = bindS (sys (Pthread_create (thread_funcs ! nat i) (i + 1))) (\<lambda>rc.
     if rv rc \<noteq> 0 then yields [printf (''Error: Unable to create thread '' @ fmt_d (i + 1) @ ''\<newline>''), exit (-1)] threads
     else ret (threads @ [out_int 0 rc]))"

definition ct_join_body :: "int list \<Rightarrow> int \<Rightarrow> unit \<Rightarrow> unit stm" where
  "ct_join_body threads i _ = bindS (thread_at threads i) (\<lambda>thread. bindS (sys (Pthread_join thread)) (\<lambda>r.
     if rv r \<noteq> 0 then undefined_behaviour ''threadstatus has no value''
     else case outs r of [] \<Rightarrow> signalled SIGSEGV
       | v # _ \<Rightarrow> printf (''Joined with thread '' @ fmt_d i @ '' which exited 0x'' @ fmt_x v @ ''\<newline>'')))"

definition makethreads :: "int stm" where
  "makethreads = (let numthreads = int (length thread_funcs) in
     bindS (for_loop 0 numthreads ct_create_body []) (\<lambda>threads.
     bindS (printf (''Created '' @ fmt_d numthreads @ '' threads\<newline>'')) (\<lambda>_.
     bindS (for_loop 0 numthreads (ct_join_body threads) ()) (\<lambda>_.
     ret numthreads))))"

text \<open>\<^verbatim>\<open>while (bytesread != 1) bytesread = read(fd, inchar, 1);\<close>\<close>

definition read_char_body :: "int \<Rightarrow> char option stm" where
  "read_char_body fd = bindS (sys (Read fd 1)) (\<lambda>r.
     if rv r \<noteq> 1 then ret None
     else case delivered r of [] \<Rightarrow> undefined_behaviour unset_byte | c # _ \<Rightarrow> ret (Some c))"

definition read_char :: "int \<Rightarrow> char option stm" where
  "read_char fd = until_some (read_char_body fd)"

definition fork_demon :: "int stm" where
  "fork_demon = bindS (sysv Fork) (\<lambda>cpid.
     if cpid = 0 then bindS (sysv (Dup 0)) (\<lambda>fd. bindS (read_char fd) (\<lambda>c. exit (char_val (the c))))
     else ret cpid)"

definition ct_wait :: "int \<Rightarrow> unit stm" where
  "ct_wait cpid = do_while (bindS (sys (Waitpid cpid WAIT_OPTS)) (\<lambda>r.
     if rv r = -1 then yields [perror ''Waitpid failed'', exit (-1)] False
     else yields [report_status [] (wstat r)] (\<not> WIFEXITED (wstat r) \<and> \<not> WIFSIGNALED (wstat r))))"

text \<open>Its value is never used. In the child it returns to \<^verbatim>\<open>main\<close>, which goes on there too.\<close>

definition fork_and_wait :: "unit stm" where
  "fork_and_wait = bindS (sysv Fork) (\<lambda>cpid.
     if cpid = 0 then bindS (sysv (Dup 0)) (\<lambda>fd. bindS (read_char fd) (\<lambda>_. skip))
     else ct_wait cpid)"

definition controlthreads_main :: "unit stm" where
  "controlthreads_main = block [
     setbuf_null,
     bindS (sysv (Access PIPE_NAME 0)) (\<lambda>a. only_if (a \<noteq> 0) [
       bindS (sysv (Mkfifo PIPE_NAME 438)) (\<lambda>f. only_if (f = -1) [perror ''Failed to create named pipe'', exit 1])]),
     bindS (sysv (Access ''/tmp'' 0)) (\<lambda>a.
       if a = 0 then do_call (Chmod ''/tmp'' 448) else do_call (Mkdir ''/tmp'' 448)),
     bindS fork_demon (\<lambda>demon_pid. block [
       fork_and_wait,
       bindS makethreads (\<lambda>numthreads. block [
         do_call (Waitpid demon_pid WAIT_OPTS),
         do_call (Unlink PIPE_NAME),
         exit numthreads])])]"

interpretation ct_wl: wait_loop "reported []" "\<lambda>r. status_text [] (wstat r)" "ct_wait cpid" cpid WAIT_OPTS wait_failed for cpid
  by (rule wait_loop_do_while [OF ct_wait_def]) (auto simp: terminal_def wait_failed_def run_simps obs_simps)

subsection \<open>Loops that read until they are satisfied\<close>

text \<open>
  The contract of such a loop: \<open>accepts r\<close> is the byte a reply to \<^verbatim>\<open>read\<close> leads to, if it ends the loop;
  after a reply that does not, \<open>pauses r\<close> more calls are made (a \<^verbatim>\<open>sleep\<close>) before the next one;
  \<open>line r\<close> is printed. A reply is \<open>regular\<close> when it comes with the bytes it counts.
\<close>

definition regular :: "reply \<Rightarrow> bool" where
  "regular r \<longleftrightarrow> rv r \<le> int (length (bytes r))"

definition rounds_of :: "(reply \<times> reply list) list \<Rightarrow> reply list" where
  "rounds_of qs = concat (map (\<lambda>(r, z). r # z) qs)"

locale polling =
  fixes body :: "char option stm"
    and accepts :: "reply \<Rightarrow> char option"
    and pauses :: "reply \<Rightarrow> nat"
    and line :: "reply \<Rightarrow> string"
  assumes no_reply: "answers s = [] \<Longrightarrow> \<exists>c. body s = (Blocked c, s)"
    and rejected: "answers s = r # z @ rest \<Longrightarrow> regular r \<Longrightarrow> accepts r = None \<Longrightarrow> length z = pauses r \<Longrightarrow>
      \<exists>s'. body s = (Ret None, s') \<and> answers s' = rest \<and> printed s' = printed s @ line r"
    and accepted: "answers s = r # rest \<Longrightarrow> regular r \<Longrightarrow> accepts r = Some c \<Longrightarrow>
      \<exists>s'. body s = (Ret (Some c), s') \<and> answers s' = rest \<and> printed s' = printed s @ line r"
begin

definition rejects :: "reply \<times> reply list \<Rightarrow> bool" where
  "rejects q \<longleftrightarrow> regular (fst q) \<and> accepts (fst q) = None \<and> length (snd q) = pauses (fst q)"

lemma passes:
  assumes "list_all rejects qs" "answers s = rounds_of qs @ rest"
  shows "\<exists>s'. until_some body s = until_some body s' \<and> answers s' = rest \<and>
    printed s' = printed s @ concat (map (\<lambda>q. line (fst q)) qs)"
  using assms
proof (induction qs arbitrary: s)
  case Nil
  then show ?case by (auto simp: rounds_of_def)
next
  case (Cons q qs)
  obtain r z where q: "q = (r, z)"
    by (cases q)
  with Cons.prems have "answers s = r # z @ (rounds_of qs @ rest)" "regular r" "accepts r = None" "length z = pauses r"
    by (auto simp: rejects_def rounds_of_def)
  from rejected [OF this] this(1) obtain s1 where s1: "body s = (Ret None, s1)" "answers s1 = rounds_of qs @ rest"
      "printed s1 = printed s @ line r" "length (answers s1) < length (answers s)"
    by auto
  then have "until_some body s = until_some body s1"
    by (simp add: until_some_def while_loop_next)
  with Cons.IH [OF _ s1(2)] Cons.prems(1) s1(3) show ?case
    by (auto simp: q)
qed

lemma finds:
  assumes "list_all rejects qs" "regular g" "accepts g = Some c" "answers s = rounds_of qs @ g # rest"
  shows "\<exists>s'. until_some body s = (Ret (Some c), s') \<and> answers s' = rest \<and>
    printed s' = printed s @ concat (map (\<lambda>q. line (fst q)) qs) @ line g"
proof -
  from passes [OF assms(1,4)] obtain s1 where s1: "until_some body s = until_some body s1" "answers s1 = g # rest"
      "printed s1 = printed s @ concat (map (\<lambda>q. line (fst q)) qs)"
    by blast
  from accepted [OF s1(2) assms(2,3)] obtain s2 where s2: "body s1 = (Ret (Some c), s2)" "answers s2 = rest"
      "printed s2 = printed s1 @ line g"
    by blast
  have "until_some body s1 = (Ret (Some c), s2)"
    unfolding until_some_def using s1(2) s2 by (subst while_loop_next) (auto simp: while_loop_stop)
  with s1 s2 show ?thesis
    by simp
qed

lemma keeps_waiting:
  assumes "list_all rejects qs" "answers s = rounds_of qs"
  shows "\<exists>c s'. until_some body s = (Blocked c, s')"
proof -
  from passes [OF assms(1), of s "[]"] assms(2) obtain s1 where s1: "until_some body s = until_some body s1" "answers s1 = []"
    by auto
  from no_reply [OF this(2)] obtain c where "body s1 = (Blocked c, s1)"
    by blast
  with s1 show ?thesis
    by (auto simp: until_some_def while_loop_out(3))
qed

end

definition bingo_byte :: "reply \<Rightarrow> char option" where
  "bingo_byte r = (if rv r = 10 \<and> take 5 (delivered r) = bingo then Some (delivered r ! 9) else None)"

definition bingo_line :: "(int \<Rightarrow> string) \<Rightarrow> reply \<Rightarrow> string" where
  "bingo_line short r = (if rv r \<noteq> 10 then short (rv r)
     else if take 5 (delivered r) = bingo then ''got bingo, return '' @ [delivered r ! 9] @ ''\<newline>''
     else ''bad input '' @ cstr (delivered r) @ '' not bingo\<newline>'')"

lemma regular_delivers: "regular r \<Longrightarrow> rv r = 10 \<Longrightarrow> length (delivered r) = 10"
  by (simp add: regular_def delivered_def)

interpretation fakedev_pl: polling "fakedev_body fd" bingo_byte "\<lambda>r. if rv r \<le> 0 \<or> rv r = 10 then 1 else 0"
  "bingo_line (\<lambda>nb. ''Not enough input try again '' @ fmt_d nb @ ''\<newline>'')" for fd
  by unfold_locales
    (auto simp: fakedev_body_def bingo_byte_def bingo_line_def eval_simps obs_simps Let_def regular_delivers length_Suc_conv
      split: if_splits)

interpretation fakefile_pl: polling "fakefile_body fd" bingo_byte "\<lambda>r. if rv r = 0 then 1 else 0"
  "bingo_line (\<lambda>nb. ''Not enough input ('' @ fmt_d nb @ '') try again\<newline>'')" for fd
  by unfold_locales
    (auto simp: fakefile_body_def bingo_byte_def bingo_line_def eval_simps obs_simps Let_def regular_delivers length_Suc_conv
      split: if_splits)

definition one_byte :: "reply \<Rightarrow> char option" where
  "one_byte r = (if rv r = 1 then Some (hd (delivered r)) else None)"

lemma regular_one: "regular r \<Longrightarrow> rv r = 1 \<Longrightarrow> \<exists>c. delivered r = [c]"
  by (cases "bytes r") (simp_all add: regular_def delivered_def)

interpretation read_char_pl: polling "read_char_body fd" one_byte "\<lambda>_. 0" "\<lambda>_. []" for fd
proof
  fix s :: process and r :: reply and rest c
  assume "answers s = r # rest" "regular r" "one_byte r = Some c"
  then show "\<exists>s'. read_char_body fd s = (Ret (Some c), s') \<and> answers s' = rest \<and> printed s' = printed s @ []"
    using regular_one [of r] by (auto simp: read_char_body_def one_byte_def eval_simps obs_simps split: if_splits)
qed (auto simp: read_char_body_def one_byte_def eval_simps obs_simps split: if_splits)

subsection \<open>Properties of the threads\<close>

text \<open>C17. \<^verbatim>\<open>waitfakedev\<close> and \<^verbatim>\<open>waitfakefile\<close> return exactly when ten bytes that start with bingo are read: after any
  number of other reads, with the sleeps the code makes between them, they return the tenth byte, and
  as long as there are only other reads they go on.\<close>

theorem bingo_found:
  assumes "rv h \<noteq> 0" "rv o' \<noteq> -1" "rv g = 10" "bytes g = bingo @ u" "length u = 5"
    and "list_all (\<lambda>(r, z). regular r \<and> bingo_byte r = None \<and> length z = (if rv r \<le> 0 \<or> rv r = 10 then 1 else 0)) qs"
    and "list_all (\<lambda>(r, z). regular r \<and> bingo_byte r = None \<and> length z = (if rv r = 0 then 1 else 0)) qs'"
  shows "(\<exists>s'. waitfakedev i (start m (h # o' # rounds_of qs @ g # rest)) = (Ret (Some (char_val (u ! 4))), s') \<and> answers s' = rest) \<and>
    (\<exists>c s'. waitfakedev i (start m (h # o' # rounds_of qs)) = (Blocked c, s')) \<and>
    (\<exists>s'. waitfakefile i (start m (h # o' # rounds_of qs' @ g # rest)) = (Ret (Some (char_val (u ! 4))), s') \<and> answers s' = rest) \<and>
    (\<exists>c s'. waitfakefile i (start m (h # o' # rounds_of qs')) = (Blocked c, s'))"
proof -
  have "delivered g = bingo @ u" "regular g"
    using assms(3-5) by (simp_all add: delivered_def regular_def bingo_def)
  then have g: "regular g" "bingo_byte g = Some (u ! 4)"
    using assms(3) by (simp_all add: bingo_byte_def) (simp add: bingo_def)
  have dev: "list_all fakedev_pl.rejects qs" and fil: "list_all fakefile_pl.rejects qs'"
    using assms(6,7) by (simp_all add: fakedev_pl.rejects_def [abs_def] fakefile_pl.rejects_def [abs_def] case_prod_unfold)
  define sd where "sd rs = put_out (wait_text i) (logged (Open ''/dev/fakeme'' 0) o' (logged (Malloc 4) h (start m (h # o' # rs))))" for rs
  define sf where "sf rs = put_out (wait_text i) (logged (Open ''/FAKEME/fakename'' 0) o' (logged (Malloc 4) h (start m (h # o' # rs))))" for rs
  have a: "answers (sd rs) = rs" "answers (sf rs) = rs" for rs
    by (simp_all add: sd_def sf_def obs_simps)
  have run: "waitfakedev i (start m (h # o' # rs)) = bindS (until_some (fakedev_body (rv o'))) (\<lambda>c. thread_exit (rv h) (char_val (the c))) (sd rs)"
    "waitfakefile i (start m (h # o' # rs)) = bindS (until_some (fakefile_body (rv o'))) (\<lambda>c. thread_exit (rv h) (char_val (the c))) (sf rs)" for rs
    using assms(2) by (simp_all add: waitfakedev_def waitfakefile_def sd_def sf_def run_simps obs_simps)
  show ?thesis
    unfolding run
    using fakedev_pl.finds [OF dev g a(1), of "rv o'" rest] fakedev_pl.keeps_waiting [OF dev a(1), of "rv o'"]
      fakefile_pl.finds [OF fil g a(2), of "rv o'" rest] fakefile_pl.keeps_waiting [OF fil a(2), of "rv o'"] assms(1)
    by (auto simp: bindS_result plain_run thread_exit_def)
qed

theorem bingo_found_witness:
  "(\<exists>s'. waitfakedev 3 (start Unbuffered (rep 4096 # rep 5 # rounds_of [(rep 0, [rep 0])] @ data_reply ''bingo1234A'' # [])) =
      (Ret (Some (char_val CHR ''A'')), s'))"
proof -
  have "list_all (\<lambda>(r, z). regular r \<and> bingo_byte r = None \<and> length z = (if rv r \<le> 0 \<or> rv r = 10 then 1 else 0)) [(rep 0, [rep 0])]"
    "list_all (\<lambda>(r, z). regular r \<and> bingo_byte r = None \<and> length z = (if rv r = 0 then 1 else 0)) [(rep 0, [rep 0])]"
    by (simp_all add: regular_def bingo_byte_def)
  from bingo_found [OF _ _ _ _ _ this, of "rep 4096" "rep 5" "data_reply ''bingo1234A''" "''1234A''" 3 Unbuffered "[]"] show ?thesis
    by (auto simp: bingo_def)
qed

text \<open>What a read adds to the reader's buffer and what is printed of it.\<close>

lemma read_body_run:
  "answers s = data_reply t # rest \<Longrightarrow> t \<noteq> [] \<Longrightarrow> scan_all (poke 0 t b) = Some u \<Longrightarrow>
    read_body i fd j b s = (Ret (poke 0 t b), put_out (''Reader '' @ fmt_d i @ '': Received message: '' @ u @ ''\<newline>'')
      (logged (Read fd 100) (data_reply t) s))"
  "answers s = rep 0 # rest \<Longrightarrow> read_body i fd j b s = (Ret b, logged (Read fd 100) (rep 0) s)"
  by (simp_all add: read_body_def eval_simps Let_def delivered_def)

lemma three_steps: "for_loop 0 3 body v = bindS (body 0 v) (\<lambda>v. bindS (body 1 v) (\<lambda>v. bindS (body 2 v) ret))"
  by (simp add: for_loop_step for_loop_empty)

lemma pipereader_run:
  assumes "rv h \<noteq> 0" "rv o' \<noteq> -1" "t1 \<noteq> []" "scan_all (poke 0 t1 (unset 100)) = Some u1"
  shows "t2 \<noteq> [] \<Longrightarrow> t3 \<noteq> [] \<Longrightarrow> scan_all (poke 0 t2 (poke 0 t1 (unset 100))) = Some u2 \<Longrightarrow>
      scan_all (poke 0 t3 (poke 0 t2 (poke 0 t1 (unset 100)))) = Some u3 \<Longrightarrow>
      poke 0 t3 (poke 0 t2 (poke 0 t1 (unset 100))) ! 10 = Some x \<Longrightarrow>
    \<exists>s'. pipereader i (start m ([h, o', data_reply t1, data_reply t2, data_reply t3, c] @ rest)) = (Ret (Some (char_val x)), s') \<and>
      printed s' = concat (map (\<lambda>u. ''Reader '' @ fmt_d i @ '': Received message: '' @ u @ ''\<newline>'') [u1, u2, u3])"
    and "poke 0 t1 (unset 100) ! 10 = Some y \<Longrightarrow>
    \<exists>s'. pipereader i (start m ([h, o', data_reply t1, rep 0, rep 0, c] @ rest)) = (Ret (Some (char_val y)), s') \<and>
      printed s' = ''Reader '' @ fmt_d i @ '': Received message: '' @ u1 @ ''\<newline>''"
  using assms by (simp_all add: pipereader_def three_steps eval_simps obs_simps read_body_run thread_exit_def)

lemma sendbuf_5:
  "sendbuf 5 0 = ''From 5: 1st message''" "sendbuf 5 1 = ''From 5: 2nd message''" "sendbuf 5 2 = ''From 5: last message''"
  by code_simp+

lemma reader_buffers:
  "scan_all (poke 0 (sendbuf 5 0 @ [NUL]) (unset 100)) = Some (sendbuf 5 0)"
  "scan_all (poke 0 (sendbuf 5 1 @ [NUL]) (poke 0 (sendbuf 5 0 @ [NUL]) (unset 100))) = Some (sendbuf 5 1)"
  "scan_all (poke 0 (sendbuf 5 2 @ [NUL]) (poke 0 (sendbuf 5 1 @ [NUL]) (poke 0 (sendbuf 5 0 @ [NUL]) (unset 100)))) = Some (sendbuf 5 2)"
  "poke 0 (sendbuf 5 2 @ [NUL]) (poke 0 (sendbuf 5 1 @ [NUL]) (poke 0 (sendbuf 5 0 @ [NUL]) (unset 100))) ! 10 = Some CHR ''s''"
  "scan_all (poke 0 (sendbuf 5 0 @ NUL # sendbuf 5 1 @ NUL # sendbuf 5 2 @ [NUL]) (unset 100)) = Some (sendbuf 5 0)"
  "poke 0 (sendbuf 5 0 @ NUL # sendbuf 5 1 @ NUL # sendbuf 5 2 @ [NUL]) (unset 100) ! 10 = Some CHR ''t''"
  by code_simp+

text \<open>C30. The writer and the reader of the pipe (threads 5 and 6). The writer makes three writes. When each
  read returns one of them the reader prints all three messages; when one read returns them together,
  as a pipe may, only the first is printed, and the other two are lost.\<close>

theorem pipe_exchange:
  assumes "rv h \<noteq> 0" "rv o' \<noteq> -1"
  shows "(\<exists>s'. pipewriter 5 (start m ([h, o', w1, w2, w3, c] @ rest)) = (Ret (Some 88), s') \<and>
      map fst (calls s') = [Malloc 4, Open PIPE_NAME 1, Write (rv o') (sendbuf 5 0 @ [NUL]), Write (rv o') (sendbuf 5 1 @ [NUL]),
        Write (rv o') (sendbuf 5 2 @ [NUL]), Close (rv o')]) \<and>
    (\<exists>s'. pipereader 6 (start m ([h, o', data_reply (sendbuf 5 0 @ [NUL]), data_reply (sendbuf 5 1 @ [NUL]),
        data_reply (sendbuf 5 2 @ [NUL]), c] @ rest)) = (Ret (Some 115), s') \<and>
      printed s' = ''Reader 6: Received message: From 5: 1st message\<newline>Reader 6: Received message: From 5: 2nd message\<newline>'' @
        ''Reader 6: Received message: From 5: last message\<newline>'') \<and>
    (\<exists>s'. pipereader 6 (start m ([h, o', data_reply (sendbuf 5 0 @ NUL # sendbuf 5 1 @ NUL # sendbuf 5 2 @ [NUL]),
        rep 0, rep 0, c] @ rest)) = (Ret (Some 116), s') \<and>
      printed s' = ''Reader 6: Received message: From 5: 1st message\<newline>'')"
proof (intro conjI)
  have e: "fmt_d 6 = ''6''" "char_val CHR ''s'' = 115" "char_val CHR ''t'' = 116"
    by code_simp+
  show "\<exists>s'. pipewriter 5 (start m ([h, o', w1, w2, w3, c] @ rest)) = (Ret (Some 88), s') \<and>
      map fst (calls s') = [Malloc 4, Open PIPE_NAME 1, Write (rv o') (sendbuf 5 0 @ [NUL]), Write (rv o') (sendbuf 5 1 @ [NUL]),
        Write (rv o') (sendbuf 5 2 @ [NUL]), Close (rv o')]"
    using assms by (simp add: pipewriter_def three_steps write_body_def eval_simps obs_simps thread_exit_def)
  show "\<exists>s'. pipereader 6 (start m ([h, o', data_reply (sendbuf 5 0 @ [NUL]), data_reply (sendbuf 5 1 @ [NUL]),
        data_reply (sendbuf 5 2 @ [NUL]), c] @ rest)) = (Ret (Some 115), s') \<and>
      printed s' = ''Reader 6: Received message: From 5: 1st message\<newline>Reader 6: Received message: From 5: 2nd message\<newline>'' @
        ''Reader 6: Received message: From 5: last message\<newline>''"
    using pipereader_run(1) [OF assms _ reader_buffers(1) _ _ reader_buffers(2-4), of 6 m c rest]
    by (simp add: e) (simp add: sendbuf_5)
  show "\<exists>s'. pipereader 6 (start m ([h, o', data_reply (sendbuf 5 0 @ NUL # sendbuf 5 1 @ NUL # sendbuf 5 2 @ [NUL]),
        rep 0, rep 0, c] @ rest)) = (Ret (Some 116), s') \<and>
      printed s' = ''Reader 6: Received message: From 5: 1st message\<newline>''"
    using pipereader_run(2) [OF assms _ reader_buffers(5,6), of 6 m c rest]
    by (simp add: e) (simp add: sendbuf_5)
qed

theorem pipe_exchange_witness:
  "\<exists>s'. pipereader 6 (start Unbuffered ([rep 4096, rep 3, data_reply (sendbuf 5 0 @ NUL # sendbuf 5 1 @ NUL # sendbuf 5 2 @ [NUL]),
        rep 0, rep 0, rep 0] @ [])) = (Ret (Some 116), s')"
  using pipe_exchange [of "rep 4096" "rep 3" Unbuffered "rep 1" "rep 1" "rep 1" "rep 0" "[]"] by auto

subsection \<open>All threads, all processes\<close>

lemma ct_created:
  assumes "length cs = n" "list_all (\<lambda>r. rv r = 0) cs" "answers s = cs @ rest"
  shows "\<exists>s'. for_from n i ct_create_body ts s = (Ret (ts @ map (out_int 0) cs), s') \<and> answers s' = rest \<and>
    printed s' = printed s"
  using assms
proof (induction cs arbitrary: n i ts s)
  case Nil
  then show ?case by (simp add: plain_run)
next
  case (Cons r cs)
  then obtain k where n: "n = Suc k" "length cs = k"
    by auto
  let ?s = "logged (Pthread_create (thread_funcs ! nat i) (i + 1)) r s"
  have "ct_create_body i ts s = (Ret (ts @ [out_int 0 r]), ?s)"
    using Cons.prems by (simp add: ct_create_body_def eval_simps)
  with Cons.IH [of k ?s "i + 1" "ts @ [out_int 0 r]"] n Cons.prems show ?case
    by (simp add: bindS_result(1) obs_simps)
qed

definition joined_text :: "int \<Rightarrow> reply \<Rightarrow> string" where
  "joined_text i r = ''Joined with thread '' @ fmt_d i @ '' which exited 0x'' @ fmt_x (out_int 0 r) @ ''\<newline>''"

lemma ct_join_body_run:
  assumes "answers s = r # rest" "rv r = 0" "0 \<le> i" "i < int (length ts)"
  shows "ct_join_body ts i () s = (if outs r = [] then (Signalled SIGSEGV, logged (Pthread_join (ts ! nat i)) r s)
    else (Ret (), put_out (joined_text i r) (logged (Pthread_join (ts ! nat i)) r s)))"
  using assms by (auto simp: ct_join_body_def eval_simps thread_at_def bindS_ret joined_text_def out_int_def split: list.split)

lemma ct_joined:
  assumes "length js = n" "list_all (\<lambda>r. rv r = 0 \<and> outs r \<noteq> []) js" "answers s = js @ rest" "0 \<le> i" "i + int n \<le> int (length ts)"
  shows "\<exists>s'. for_from n i (ct_join_body ts) () s = (Ret (), s') \<and> answers s' = rest \<and>
    printed s' = printed s @ concat (map2 joined_text [i..i + int n - 1] js)"
  using assms
proof (induction js arbitrary: n i s)
  case Nil
  then show ?case by (simp add: plain_run)
next
  case (Cons r js)
  then obtain k where n: "n = Suc k" "length js = k"
    by auto
  let ?s = "put_out (joined_text i r) (logged (Pthread_join (ts ! nat i)) r s)"
  have "ct_join_body ts i () s = (Ret (), ?s)"
    using Cons.prems by (simp add: ct_join_body_run)
  with Cons.IH [of k ?s "i + 1"] n Cons.prems show ?case
    by (auto simp: bindS_result(1) obs_simps upto_rec1 algebra_simps)
qed

text \<open>A thread that returned the null pointer ends the process at its join.\<close>

lemma ct_join_null:
  assumes "list_all (\<lambda>r. rv r = 0 \<and> outs r \<noteq> []) js" "answers s = js @ r # rest" "length js < n" "rv r = 0" "outs r = []"
    and "0 \<le> i" "i + int n \<le> int (length ts)"
  shows "\<exists>s'. for_from n i (ct_join_body ts) () s = (Signalled SIGSEGV, s')"
  using assms
proof (induction js arbitrary: n i s)
  case Nil
  then obtain k where "n = Suc k"
    by (cases n) auto
  with Nil show ?case
    by (simp add: bindS_result(3) [OF ct_join_body_run(1) [THEN trans]] ct_join_body_run)
next
  case (Cons r' js)
  then obtain k where n: "n = Suc k" "length js < k"
    by (cases n) auto
  let ?s = "put_out (joined_text i r') (logged (Pthread_join (ts ! nat i)) r' s)"
  have "ct_join_body ts i () s = (Ret (), ?s)"
    using Cons.prems by (simp add: ct_join_body_run)
  with Cons.IH [of ?s k "i + 1"] n Cons.prems show ?case
    by (auto simp: bindS_result(1) obs_simps)
qed

definition makethreads_text :: "reply list \<Rightarrow> string" where
  "makethreads_text js = ''Created 7 threads\<newline>'' @ concat (map2 joined_text [0..6] js)"

lemma seven: "int (length thread_funcs) = 7" "fmt_d 7 = ''7''"
  by (simp_all add: thread_funcs_def) code_simp

lemma makethreads_run:
  assumes "length cs = 7" "list_all (\<lambda>r. rv r = 0) cs" "length js = 7" "list_all (\<lambda>r. rv r = 0 \<and> outs r \<noteq> []) js"
    and "answers s = cs @ js @ rest"
  shows "\<exists>s'. makethreads s = (Ret 7, s') \<and> answers s' = rest \<and> printed s' = printed s @ makethreads_text js"
proof -
  from ct_created [OF assms(1,2,5), of 0 "[]"] obtain s1 where s1:
    "for_loop 0 7 ct_create_body [] s = (Ret (map (out_int 0) cs), s1)" "answers s1 = js @ rest" "printed s1 = printed s"
    by (auto simp: for_loop_def)
  let ?s2 = "put_out ''Created 7 threads\<newline>'' s1"
  from ct_joined [OF assms(3,4), of ?s2 rest 0 "map (out_int 0) cs"] s1 assms(1) obtain s3 where s3:
    "for_loop 0 7 (ct_join_body (map (out_int 0) cs)) () ?s2 = (Ret (), s3)" "answers s3 = rest"
    "printed s3 = printed s @ makethreads_text js"
    by (auto simp: for_loop_def obs_simps makethreads_text_def)
  with s1 show ?thesis
    by (simp add: makethreads_def seven Let_def bindS_result(1) plain_run)
qed

lemma makethreads_null:
  assumes "length cs = 7" "list_all (\<lambda>r. rv r = 0) cs" "list_all (\<lambda>r. rv r = 0 \<and> outs r \<noteq> []) js"
    and "answers s = cs @ js @ r # rest" "length js < 7" "rv r = 0" "outs r = []"
  shows "\<exists>s'. makethreads s = (Signalled SIGSEGV, s')"
proof -
  from ct_created [OF assms(1,2,4), of 0 "[]"] obtain s1 where s1:
    "for_loop 0 7 ct_create_body [] s = (Ret (map (out_int 0) cs), s1)" "answers s1 = js @ r # rest"
    by (auto simp: for_loop_def)
  let ?s2 = "put_out ''Created 7 threads\<newline>'' s1"
  from ct_join_null [OF assms(3), of ?s2 r rest 7 0 "map (out_int 0) cs"] s1 assms obtain s3 where
    "for_loop 0 7 (ct_join_body (map (out_int 0) cs)) () ?s2 = (Signalled SIGSEGV, s3)"
    by (auto simp: for_loop_def obs_simps)
  with s1 show ?thesis
    by (simp add: makethreads_def seven Let_def bindS_result plain_run)
qed

text \<open>What \<^verbatim>\<open>main\<close> does before it forks, and what it does after \<^verbatim>\<open>fork_and_wait\<close> in each process.\<close>

definition setup_replies :: "reply list \<Rightarrow> bool" where
  "setup_replies rs \<longleftrightarrow> (\<exists>a a' x. rs = [a, a', x] \<and> rv a = 0) \<or> (\<exists>a f a' x. rs = [a, f, a', x] \<and> rv a \<noteq> 0 \<and> rv f \<noteq> -1)"

definition main_tail :: "int \<Rightarrow> unit stm" where
  "main_tail demon_pid = bindS makethreads (\<lambda>numthreads. block [
     do_call (Waitpid demon_pid WAIT_OPTS), do_call (Unlink PIPE_NAME), exit numthreads])"

lemma controlthreads_forks:
  assumes "setup_replies as" "rv d \<noteq> 0"
  shows "\<exists>s'. controlthreads_main (start m (as @ d # rest)) = bindS fork_and_wait (\<lambda>_. main_tail (rv d)) s' \<and>
    answers s' = rest \<and> printed s' = []"
  using assms
  by (auto simp: setup_replies_def controlthreads_main_def fork_demon_def main_tail_def run_simps obs_simps bindS_skip)
    (rule exI, rule conjI, rule refl, simp add: obs_simps)+

lemma main_tail_run:
  assumes "length cs = 7" "list_all (\<lambda>r. rv r = 0) cs" "length js = 7" "list_all (\<lambda>r. rv r = 0 \<and> outs r \<noteq> []) js"
    and "answers s = cs @ js @ [w, u]"
  shows "\<exists>s'. main_tail d s = (Exited 7, s') \<and> written s' = printed s @ makethreads_text js"
proof -
  from makethreads_run [OF assms] obtain s1 where "makethreads s = (Ret 7, s1)" "answers s1 = [w, u]"
      "printed s1 = printed s @ makethreads_text js"
    by blast
  then show ?thesis
    by (simp add: main_tail_def bindS_result(1) eval_simps obs_simps)
qed

lemma rounds_of_reads:
  "rounds_of (map (\<lambda>r. (r, [])) qs) = qs"
  "list_all (\<lambda>r. regular r \<and> rv r \<noteq> 1) qs \<Longrightarrow> list_all read_char_pl.rejects (map (\<lambda>r. (r, [])) qs)"
  by (induction qs) (simp_all add: rounds_of_def read_char_pl.rejects_def one_byte_def)

text \<open>The parent and the child of \<^verbatim>\<open>fork_and_wait\<close>.\<close>

lemma both_go_on:
  assumes "setup_replies as" "rv d \<noteq> 0"
    and "length cs = 7" "list_all (\<lambda>r. rv r = 0) cs" "length js = 7" "list_all (\<lambda>r. rv r = 0 \<and> outs r \<noteq> []) js"
  shows "rv p \<noteq> 0 \<Longrightarrow> list_all live ws \<Longrightarrow> dead t \<Longrightarrow>
      \<exists>s'. controlthreads_main (start m (as @ d # p # ws @ t # cs @ js @ [w, u])) = (Exited 7, s') \<and>
        written s' = concat (map (\<lambda>r. status_text [] (wstat r)) (ws @ [t])) @ makethreads_text js"
    and "rv f = 0 \<Longrightarrow> list_all (\<lambda>r. regular r \<and> rv r \<noteq> 1) qs \<Longrightarrow>
      \<exists>s'. controlthreads_main (start m (as @ d # f # du # qs @ data_reply [c] # cs @ js @ [w, u])) = (Exited 7, s') \<and>
        written s' = makethreads_text js"
proof -
  assume p: "rv p \<noteq> 0" "list_all live ws" "dead t"
  obtain s1 where s1: "controlthreads_main (start m (as @ d # p # ws @ t # cs @ js @ [w, u])) =
      bindS fork_and_wait (\<lambda>_. main_tail (rv d)) s1" "answers s1 = p # ws @ t # cs @ js @ [w, u]" "printed s1 = []"
    using controlthreads_forks [OF assms(1,2)] by blast
  let ?s = "reap (reported []) (Waitpid (rv p) WAIT_OPTS) (ws @ [t]) (logged Fork p s1)"
  have "bindS fork_and_wait (\<lambda>_. main_tail (rv d)) s1 = main_tail (rv d) ?s"
    using s1(2) p ct_wl.bind_returns [of ws t "logged Fork p s1" "cs @ js @ [w, u]" "rv p" "\<lambda>_. main_tail (rv d)"]
    by (simp add: fork_and_wait_def run_simps list_all_iff obs_simps)
  with main_tail_run [OF assms(3-6), of ?s w u "rv d"] s1 show
    "\<exists>s'. controlthreads_main (start m (as @ d # p # ws @ t # cs @ js @ [w, u])) = (Exited 7, s') \<and>
        written s' = concat (map (\<lambda>r. status_text [] (wstat r)) (ws @ [t])) @ makethreads_text js"
    by (simp add: obs_simps)
next
  assume f: "rv f = 0" "list_all (\<lambda>r. regular r \<and> rv r \<noteq> 1) qs"
  obtain s1 where s1: "controlthreads_main (start m (as @ d # f # du # qs @ data_reply [c] # cs @ js @ [w, u])) =
      bindS fork_and_wait (\<lambda>_. main_tail (rv d)) s1" "answers s1 = f # du # qs @ data_reply [c] # cs @ js @ [w, u]" "printed s1 = []"
    using controlthreads_forks [OF assms(1,2)] by blast
  let ?s = "logged (Dup 0) du (logged Fork f s1)"
  have "\<exists>s2. until_some (read_char_body (rv du)) ?s = (Ret (Some c), s2) \<and> answers s2 = cs @ js @ [w, u] \<and> printed s2 = []"
    using read_char_pl.finds [OF rounds_of_reads(2) [OF f(2)], of "data_reply [c]" c ?s "cs @ js @ [w, u]" "rv du"] s1
    by (simp add: rounds_of_reads one_byte_def regular_def obs_simps comp_def)
  then obtain s2 where s2: "read_char (rv du) ?s = (Ret (Some c), s2)" "answers s2 = cs @ js @ [w, u]" "printed s2 = []"
    by (auto simp: read_char_def)
  have "bindS fork_and_wait (\<lambda>_. main_tail (rv d)) s1 = main_tail (rv d) s2"
    using s1(2) f s2 by (simp add: fork_and_wait_def run_simps obs_simps bindS_result(1))
  with main_tail_run [OF assms(3-6) s2(2), of "rv d"] s1 s2 show
    "\<exists>s'. controlthreads_main (start m (as @ d # f # du # qs @ data_reply [c] # cs @ js @ [w, u])) = (Exited 7, s') \<and>
        written s' = makethreads_text js"
    by simp
qed



text \<open>A thread that cannot open the pipe returns the null pointer, which \<^verbatim>\<open>makethreads\<close> dereferences when it joins
  it: the process is killed.\<close>

theorem pipe_open_failure_kills:
  assumes "rv o' = -1" "length cs = 7" "list_all (\<lambda>r. rv r = 0) cs" "length js < 7"
    and "list_all (\<lambda>r. rv r = 0 \<and> outs r \<noteq> []) js" "answers s = cs @ js @ j # rest" "rv j = 0"
  shows "(\<exists>s'. pipewriter i (start m (h # o' # rest)) = (Ret None, s')) \<and>
    (\<exists>s'. pipereader i (start m (h # o' # rest)) = (Ret None, s')) \<and>
    (outs j = [] \<longrightarrow> (\<exists>s'. makethreads s = (Signalled SIGSEGV, s')))"
  using assms makethreads_null [OF assms(2,3,5,6,4,7)]
  by (auto simp: pipewriter_def pipereader_def eval_simps obs_simps)

theorem pipe_open_failure_kills_witness:
  "\<exists>s'. makethreads (start Unbuffered (replicate 7 (rep 0) @ replicate 4 ((rep 0)\<lparr>outs := [1]\<rparr>) @ rep 0 # [])) = (Signalled SIGSEGV, s')"
  using pipe_open_failure_kills [of "rep (-1)" "replicate 7 (rep 0)" "replicate 4 ((rep 0)\<lparr>outs := [1]\<rparr>)"
      "start Unbuffered (replicate 7 (rep 0) @ replicate 4 ((rep 0)\<lparr>outs := [1]\<rparr>) @ rep 0 # [])" "rep 0" "[]"]
  by (simp add: list_all_iff start_obs)

text \<open>The pipe is made before its directory: without \<^verbatim>\<open>/tmp\<close> the program fails, and never gets to
  the \<^verbatim>\<open>mkdir\<close> meant for that case.\<close>

theorem controlthreads_no_tmp:
  assumes "rv a \<noteq> 0" "rv f = -1"
  shows "\<exists>s'. controlthreads_main (start m (a # f # rest)) = (Exited 1, s') \<and>
    map fst (calls s') = [Access PIPE_NAME 0, Mkfifo PIPE_NAME 438]"
  using assms by (simp add: controlthreads_main_def run_simps obs_simps)

theorem controlthreads_no_tmp_witness:
  "\<exists>s'. controlthreads_main (start Unbuffered [rep (-1), rep (-1)]) = (Exited 1, s')"
  using controlthreads_no_tmp [of "rep (-1)" "rep (-1)" Unbuffered "[]"] by auto

end
