(* ===== verification/Time64.thy ===== *)
theory Time64
  imports Memory
begin

text \<open>
  \<^verbatim>\<open>timeclock64.c\<close>: the clock and timer calls with 64-bit times, each tried when the headers define its
  number.

  The kernel stores a time as two 64-bit numbers in the byte order of the machine. The program declares
  \<^verbatim>\<open>long long tv_sec; long tv_nsec;\<close>, which on the targets of the makefiles takes 16 bytes too: where
  \<^verbatim>\<open>long\<close> has four bytes, the last four are padding. A reply holds the bytes the kernel stored, and a call that passes a
  structure carries its bytes, with the padding, which the program never sets.
\<close>

record abi =
  long_size :: nat
  time_t_size :: nat
  big_endian :: bool

record timespec64 =
  tv_sec :: int
  tv_nsec :: int

text \<open>What the padding of a structure happens to hold, by the name of the variable.\<close>

type_synonym junk = "string \<Rightarrow> nat \<Rightarrow> char"

text \<open>The bytes of a structure whose two fields have been set.\<close>

definition timespec_bytes :: "abi \<Rightarrow> (nat \<Rightarrow> char) \<Rightarrow> timespec64 \<Rightarrow> string" where
  "timespec_bytes a padding ts =
     map char_of (raw_bytes (big_endian a) 8 (nat (tv_sec ts mod 2 ^ 64))) @
     map char_of (raw_bytes (big_endian a) (long_size a) (nat (tv_nsec ts mod 2 ^ (8 * long_size a)))) @
     map padding [0..<8 - long_size a]"

text \<open>An \<^verbatim>\<open>itimerspec64\<close> that expires once, after some seconds.\<close>

definition its_bytes :: "abi \<Rightarrow> junk \<Rightarrow> int \<Rightarrow> string" where
  "its_bytes a junk secs = timespec_bytes a (junk ''its.it_interval'') \<lparr>tv_sec = 0, tv_nsec = 0\<rparr> @
     timespec_bytes a (junk ''its.it_value'') \<lparr>tv_sec = secs, tv_nsec = 0\<rparr>"

text \<open>The structure at index \<open>i\<close> of an array.\<close>

definition timespec_at :: "abi \<Rightarrow> memory \<Rightarrow> nat \<Rightarrow> timespec64 option" where
  "timespec_at a m i = (case (byte_vals m i 8, byte_vals m (i + 8) (long_size a)) of
      (Some s, Some n) \<Rightarrow> Some \<lparr>tv_sec = signed_val 8 (raw_val (big_endian a) s),
        tv_nsec = signed_val (long_size a) (raw_val (big_endian a) n)\<rparr>
    | _ \<Rightarrow> None)"

definition zero_ts :: "abi \<Rightarrow> memory" where
  "zero_ts a = poke 0 (replicate (8 + long_size a) NUL) (unset 16)"

text \<open>What the kernel stores: at most the size of the structure.\<close>

definition fill :: "nat \<Rightarrow> reply \<Rightarrow> memory \<Rightarrow> memory" where
  "fill n r m = poke 0 (take n (bytes r)) m"

abbreviation "Clock_gettime64 \<equiv> Call ''syscall(SYS_clock_gettime64)'' [I 0]"
abbreviation "Clock_settime64 bs \<equiv> Call ''syscall(SYS_clock_settime64)'' [I 0, S bs]"
abbreviation "Clock_getres_time64 \<equiv> Call ''syscall(SYS_clock_getres_time64)'' [I 0]"
abbreviation "Clock_nanosleep_time64 bs \<equiv> Call ''syscall(SYS_clock_nanosleep_time64)'' [I 0, I 0, S bs]"
abbreviation "Clock_adjtime64 \<equiv> Call ''syscall(SYS_clock_adjtime64)'' [I 0, I 0]"
abbreviation "Timerfd_create \<equiv> Call ''timerfd_create'' [I 0, I 0]"
abbreviation "Timerfd_settime64 fd bs \<equiv> Call ''syscall(SYS_timerfd_settime64)'' [I fd, I 0, S bs]"
abbreviation "Timerfd_gettime64 fd \<equiv> Call ''syscall(SYS_timerfd_gettime64)'' [I fd]"
abbreviation "Timer_create \<equiv> Call ''timer_create'' [I 0]"
abbreviation "Timer_settime64 tid bs \<equiv> Call ''syscall(SYS_timer_settime64)'' [I tid, I 0, S bs]"
abbreviation "Timer_gettime64 tid \<equiv> Call ''syscall(SYS_timer_gettime64)'' [I tid]"
abbreviation "Timer_delete tid \<equiv> Call ''timer_delete'' [I tid]"

definition perr :: "string \<Rightarrow> int \<Rightarrow> unit stm" where
  "perr what r = (if r = -1 then bindS get_errno (\<lambda>n. bindS strerror_errno (\<lambda>t.
       printf (what @ '' -> retval=-1 errno='' @ fmt_d n @ '' ('' @ t @ '')\<newline>'')))
     else printf (what @ '' -> retval='' @ fmt_d r @ ''\<newline>''))"

text \<open>The two nested \<^verbatim>\<open>#if\<close>s around every call.\<close>

definition guarded :: "build \<Rightarrow> string \<Rightarrow> 'a stm \<Rightarrow> 'a \<Rightarrow> 'a stm" where
  "guarded have_macro name m otherwise =
     (if have_macro (''SYS_'' @ name) then bindS (set_errno 0) (\<lambda>_. m)
      else if have_macro (''__NR_'' @ name) then yields [printf (name @ '' macro not present (skipping)\<newline>'')] otherwise
      else yields [printf (name @ '': no SYS_'' @ name @ ''/__NR_'' @ name @ '' on this build\<newline>'')] otherwise)"

text \<open>Its value is the memory of \<^verbatim>\<open>ts\<close>.\<close>

definition gettime_part :: "build \<Rightarrow> abi \<Rightarrow> memory stm" where
  "gettime_part have_macro a = guarded have_macro ''clock_gettime64'' (bindS (sys Clock_gettime64) (\<lambda>r.
     let ts = fill 16 r (zero_ts a) in
     yields [
       printf ''clock_gettime64: '',
       perr ''clock_gettime64'' (rv r),
       only_if (rv r = 0) [with_value (timespec_at a ts 0) (\<lambda>t.
         printf (''  -> got sec='' @ fmt_d (tv_sec t) @ '' nsec='' @ fmt_d (tv_nsec t) @ ''\<newline>''))]] ts)) (zero_ts a)"

definition settime_part :: "build \<Rightarrow> abi \<Rightarrow> junk \<Rightarrow> memory \<Rightarrow> unit stm" where
  "settime_part have_macro a junk ts = guarded have_macro ''clock_settime64'' (with_value (timespec_at a ts 0) (\<lambda>setts.
     bindS (sysv (Clock_settime64 (timespec_bytes a (junk ''setts'') setts))) (\<lambda>r. block [
       printf ''clock_settime64: '',
       perr ''clock_settime64'' r]))) ()"

definition getres_part :: "build \<Rightarrow> abi \<Rightarrow> unit stm" where
  "getres_part have_macro a = guarded have_macro ''clock_getres_time64'' (bindS (sys Clock_getres_time64) (\<lambda>r. block [
     printf ''clock_getres_time64: '',
     perr ''clock_getres_time64'' (rv r),
     only_if (rv r = 0) [with_value (timespec_at a (fill 16 r (unset 16)) 0) (\<lambda>res.
       printf (''  -> res sec='' @ fmt_d (tv_sec res) @ '' nsec='' @ fmt_d (tv_nsec res) @ ''\<newline>''))]])) ()"

definition nanosleep_part :: "build \<Rightarrow> abi \<Rightarrow> junk \<Rightarrow> unit stm" where
  "nanosleep_part have_macro a junk = guarded have_macro ''clock_nanosleep_time64''
     (bindS (sysv (Clock_nanosleep_time64 (timespec_bytes a (junk ''req'') \<lparr>tv_sec = 1, tv_nsec = 0\<rparr>))) (\<lambda>r. block [
       printf ''clock_nanosleep_time64 (1s): '',
       perr ''clock_nanosleep_time64'' r])) ()"

definition adjtime_part :: "build \<Rightarrow> unit stm" where
  "adjtime_part have_macro = guarded have_macro ''clock_adjtime64'' (bindS (sysv Clock_adjtime64) (\<lambda>r. block [
     printf ''clock_adjtime64: '',
     perr ''clock_adjtime64'' r])) ()"

definition timerfd_part :: "build \<Rightarrow> abi \<Rightarrow> junk \<Rightarrow> unit stm" where
  "timerfd_part have_macro a junk = bindS (sysv Timerfd_create) (\<lambda>tfd.
     if tfd < 0 then bindS strerror_errno (\<lambda>t.
       printf (''timerfd_create failed: '' @ t @ '' (skipping timerfd_*64 tests)\<newline>''))
     else block [
       printf (''timerfd created fd='' @ fmt_d tfd @ ''\<newline>''),
       guarded have_macro ''timerfd_settime64'' (bindS (sysv (Timerfd_settime64 tfd (its_bytes a junk 2))) (\<lambda>r. block [
         printf ''timerfd_settime64: '',
         perr ''timerfd_settime64'' r])) (),
       guarded have_macro ''timerfd_gettime64'' (bindS (sys (Timerfd_gettime64 tfd)) (\<lambda>r. block [
         printf ''timerfd_gettime64: '',
         perr ''timerfd_gettime64'' (rv r),
         only_if (rv r = 0) [with_value (timespec_at a (fill 32 r (unset 32)) 16) (\<lambda>v.
           printf (''  -> next expiration in '' @ fmt_d (tv_sec v) @ '' sec '' @ fmt_d (tv_nsec v) @ '' nsec\<newline>''))]])) (),
       do_call (Close tfd)])"

definition timer_part :: "build \<Rightarrow> abi \<Rightarrow> junk \<Rightarrow> unit stm" where
  "timer_part have_macro a junk = bindS (sys Timer_create) (\<lambda>c.
     if rv c = 0 then let tid = out_int 0 c in block [
       printf (''posix timer created (timer_t='' @ fmt_p tid @ '')\<newline>''),
       guarded have_macro ''timer_settime64'' (bindS (sysv (Timer_settime64 tid (its_bytes a junk 5))) (\<lambda>r. block [
         printf ''timer_settime64: '',
         perr ''timer_settime64'' r])) (),
       guarded have_macro ''timer_gettime64'' (bindS (sys (Timer_gettime64 tid)) (\<lambda>r. block [
         printf ''timer_gettime64: '',
         perr ''timer_gettime64'' (rv r),
         only_if (rv r = 0) [with_value (timespec_at a (fill 32 r (unset 32)) 16) (\<lambda>v.
           printf (''  -> timer next in '' @ fmt_d (tv_sec v) @ '' sec '' @ fmt_d (tv_nsec v) @ '' nsec\<newline>''))]])) (),
       do_call (Timer_delete tid)]
     else bindS strerror_errno (\<lambda>t.
       printf (''timer_create failed: '' @ t @ '' (skipping timer_gettime64/timer_settime64)\<newline>'')))"

definition timeclock64_main :: "build \<Rightarrow> abi \<Rightarrow> junk \<Rightarrow> unit stm" where
  "timeclock64_main have_macro a junk = block [
     printf ''time64-syscall test program\<newline>'',
     printf (''sizeof(time_t)='' @ fmt_u (time_t_size a) @ '', sizeof(long)='' @ fmt_u (long_size a) @ ''\<newline>''),
     bindS (gettime_part have_macro a) (settime_part have_macro a junk),
     getres_part have_macro a,
     nanosleep_part have_macro a junk,
     adjtime_part have_macro,
     timerfd_part have_macro a junk,
     timer_part have_macro a junk,
     printf ''done.\<newline>'',
     exit 0]"

subsection \<open>The kernel's times\<close>

definition kernel_timespec :: "bool \<Rightarrow> timespec64 \<Rightarrow> string" where
  "kernel_timespec big ts = map char_of (raw_bytes big 8 (nat (tv_sec ts mod 2 ^ 64)) @ raw_bytes big 8 (nat (tv_nsec ts mod 2 ^ 64)))"

definition valid_time :: "timespec64 \<Rightarrow> bool" where
  "valid_time ts \<longleftrightarrow> - (2 ^ 63) \<le> tv_sec ts \<and> tv_sec ts < 2 ^ 63 \<and> 0 \<le> tv_nsec ts \<and> tv_nsec ts < 10 ^ 9"

definition target :: "abi \<Rightarrow> bool" where
  "target a \<longleftrightarrow> long_size a = 4 \<or> long_size a = 8"

text \<open>What the program reads of a time the kernel stored.\<close>

definition as_read :: "abi \<Rightarrow> timespec64 \<Rightarrow> timespec64" where
  "as_read a ts = (if long_size a = 4 \<and> big_endian a then ts\<lparr>tv_nsec := 0\<rparr> else ts)"

lemma signed_val_small: "0 < n \<Longrightarrow> v < 2 ^ (8 * n - 1) \<Longrightarrow> signed_val n v = int v"
proof -
  assume a: "0 < n" "v < 2 ^ (8 * n - 1)"
  then have "(2 :: int) ^ (8 * n) = 2 * 2 ^ (8 * n - 1)"
    by (metis One_nat_def Suc_diff_1 mult_pos_pos power_Suc zero_less_numeral)
  moreover have "int v < 2 ^ (8 * n - 1)"
    using a(2) by (metis of_nat_less_iff of_nat_numeral of_nat_power)
  ultimately show ?thesis
    by (simp add: signed_val_def)
qed

lemma signed_val_8: "- (2 ^ 63) \<le> v \<Longrightarrow> v < 2 ^ 63 \<Longrightarrow> signed_val 8 (nat (v mod 2 ^ 64)) = v"
  using int64_mod [of v] by (simp add: signed_val_def int64_def)

lemma nsec_bytes:
  assumes "0 \<le> v" "v < 10 ^ 9" "n = 4 \<or> n = 8"
  shows "signed_val n (raw_val big (take n (raw_bytes big 8 (nat v)))) = (if n = 4 \<and> big then 0 else v)"
proof -
  have v: "nat v < 2 ^ 31" "nat v < 256 ^ 4" "nat v < 2 ^ 63" "nat v < 256 ^ 8"
    using assms(1,2) by auto
  show ?thesis
  proof (cases "n = 4")
    case True
    have "be_bytes 8 (nat v) = be_bytes 4 0 @ be_bytes 4 (nat v)"
      using be_bytes_add [of 4 4 "nat v"] v(2) by simp
    then have "take 4 (raw_bytes big 8 (nat v)) = raw_bytes big 4 (if big then 0 else nat v)"
      by (simp add: raw_bytes_def)
    with True v assms(1) show ?thesis
      by (simp add: raw_val_bytes signed_val_small)
  next
    case False
    with v assms show ?thesis
      by (simp add: raw_val_bytes signed_val_small)
  qed
qed

text \<open>A time the kernel stored at index \<open>length pre\<close> is read as \<open>as_read\<close> says.\<close>

lemma timespec_at_kernel:
  assumes "target a" "valid_time ts"
  shows "timespec_at a (map Some (pre @ kernel_timespec (big_endian a) ts @ post) @ m) (length pre) = Some (as_read a ts)"
proof -
  let ?s = "map char_of (raw_bytes (big_endian a) 8 (nat (tv_sec ts mod 2 ^ 64)))"
    and ?n = "map char_of (raw_bytes (big_endian a) 8 (nat (tv_nsec ts mod 2 ^ 64)))"
  have k: "pre @ kernel_timespec (big_endian a) ts @ post = pre @ ?s @ ?n @ post"
    by (simp add: kernel_timespec_def)
  have n: "long_size a \<le> 8" "tv_nsec ts mod 2 ^ 64 = tv_nsec ts" "long_size a = 4 \<or> long_size a = 8"
    using assms by (auto simp: target_def valid_time_def)
  have "byte_vals (map Some (pre @ ?s @ ?n @ post) @ m) (length pre) 8 = Some (raw_bytes (big_endian a) 8 (nat (tv_sec ts mod 2 ^ 64)))"
    by (subst byte_vals_stored) (simp_all add: chars_of_raw)
  moreover have "byte_vals (map Some (pre @ ?s @ ?n @ post) @ m) (length pre + 8) (long_size a) =
      Some (take (long_size a) (raw_bytes (big_endian a) 8 (nat (tv_nsec ts))))"
    using n chars_of_raw [of "big_endian a" 8 "nat (tv_nsec ts)"] by (subst byte_vals_stored) (simp_all flip: take_map)
  moreover have "nat (tv_sec ts mod 2 ^ 64) < 256 ^ 8"
    by (simp add: nat_less_iff)
  ultimately show ?thesis
    using assms(2) n signed_val_8 nsec_bytes [of "tv_nsec ts" "long_size a" "big_endian a"]
    by (simp add: k timespec_at_def as_read_def valid_time_def raw_val_bytes)
qed

lemma fill_timespec:
  "bytes g = kernel_timespec big ts \<Longrightarrow> length m = 16 \<Longrightarrow> fill 16 g m = map Some (kernel_timespec big ts)"
  by (simp add: fill_def poke_def kernel_timespec_def)

lemma length_zero_ts: "target a \<Longrightarrow> length (zero_ts a) = 16"
  by (auto simp: zero_ts_def target_def length_poke)

text \<open>What the kernel takes from a structure it is passed: two 64-bit numbers, and on a 32-bit target only the lower half of
  the second, because programs leave the upper half unset.\<close>

definition kernel_reads :: "abi \<Rightarrow> string \<Rightarrow> timespec64" where
  "kernel_reads a bs = (let n = raw_val (big_endian a) (map of_char (take 8 (drop 8 bs))) in
     \<lparr>tv_sec = signed_val 8 (raw_val (big_endian a) (map of_char (take 8 bs))),
      tv_nsec = (if long_size a = 4 then int (n mod 2 ^ 32) else signed_val 8 n)\<rparr>)"

text \<open>The number in the padding, as a big-endian machine reads it.\<close>

definition padding_val :: "(nat \<Rightarrow> char) \<Rightarrow> int" where
  "padding_val padding = int (be_val (map of_char (map padding [0..<4])))"

lemma kernel_reads_bytes:
  assumes "target a" "valid_time ts"
  shows "kernel_reads a (timespec_bytes a padding (as_read a ts)) =
    (if long_size a = 4 \<and> big_endian a then ts\<lparr>tv_nsec := padding_val padding\<rparr> else ts)"
proof -
  let ?e = "big_endian a" and ?n = "tv_nsec (as_read a ts)" and ?p = "map of_char (map padding [0..<8 - long_size a]) :: nat list"
  have n: "0 \<le> ?n" "?n < 10 ^ 9" "nat ?n < 256 ^ 4" "nat ?n < 2 ^ 63" "nat ?n < 256 ^ 8" "?n mod 2 ^ (8 * long_size a) = ?n"
    using assms by (auto simp: valid_time_def as_read_def target_def)
  have sec: "signed_val 8 (raw_val ?e (raw_bytes ?e 8 (nat (tv_sec ts mod 2 ^ 64)))) = tv_sec ts"
    using assms(2) signed_val_8 [of "tv_sec ts"] by (simp add: valid_time_def raw_val_bytes nat_less_iff)
  have bytes: "map of_char (take 8 (drop 8 (timespec_bytes a padding (as_read a ts)))) = raw_bytes ?e (long_size a) (nat ?n) @ ?p"
    "map of_char (take 8 (timespec_bytes a padding (as_read a ts))) = raw_bytes ?e 8 (nat (tv_sec ts mod 2 ^ 64))"
    using assms(1) n(6) chars_of_raw [of ?e "long_size a" "nat ?n"] chars_of_raw [of ?e 8 "nat (tv_sec ts mod 2 ^ 64)"]
    by (auto simp: timespec_bytes_def target_def as_read_def)
  consider (wide) "long_size a = 8" | (big) "long_size a = 4" "?e" | (little) "long_size a = 4" "\<not> ?e"
    using assms(1) by (auto simp: target_def)
  then show ?thesis
  proof cases
    case wide
    then have "signed_val 8 (raw_val ?e (raw_bytes ?e 8 (nat ?n))) = ?n"
      using n by (simp add: raw_val_bytes signed_val_small)
    with wide sec bytes show ?thesis
      by (cases ts) (simp add: kernel_reads_def as_read_def)
  next
    case big
    have "b < 256" if "b \<in> set ?p" for b
      using that by auto
    from be_val_bound [of ?p, OF this] big have p: "be_val ?p < 256 ^ 4"
      by simp
    have "raw_val ?e (raw_bytes ?e 4 (nat ?n) @ ?p) = nat ?n * 256 ^ 4 + be_val ?p"
      using big n(3) by (simp add: raw_val_def raw_bytes_def be_val_append be_val_bytes)
    with big p sec bytes show ?thesis
      by (cases ts) (simp add: kernel_reads_def padding_val_def)
  next
    case little
    have "raw_val ?e (raw_bytes ?e 4 (nat ?n) @ ?p) = be_val (rev ?p) * 256 ^ 4 + nat ?n"
      using little n(3) by (simp add: raw_val_def raw_bytes_def le_val_def be_val_append be_val_bytes)
    with little n sec bytes show ?thesis
      by (cases ts) (simp add: kernel_reads_def as_read_def)
  qed
qed

text \<open>C18. Reading the clock and setting it back. On a 64-bit target and on a little-endian 32-bit target the program prints
  the time the kernel stored, and the structure it passes back is read by the kernel as just that time. On a
  big-endian 32-bit target the field \<^verbatim>\<open>tv_nsec\<close> lies over the upper half of the kernel's number: 0 is printed for the
  nanoseconds, and the kernel takes what it sets from the padding of the structure, which was never set.\<close>

theorem clock_set_back:
  assumes "target a" "valid_time ts" "have_macro ''SYS_clock_gettime64''" "have_macro ''SYS_clock_settime64''"
    and "rv g = 0" "bytes g = kernel_timespec (big_endian a) ts" "rv r = 0"
  shows "\<exists>s' bs. bindS (gettime_part have_macro a) (settime_part have_macro a junk) (start m (g # r # rest)) = (Ret (), s') \<and>
    map fst (calls s') = [Clock_gettime64, Clock_settime64 bs] \<and>
    printed s' = ''clock_gettime64: clock_gettime64 -> retval=0\<newline>  -> got sec='' @ fmt_d (tv_sec ts) @
      '' nsec='' @ fmt_d (if long_size a = 4 \<and> big_endian a then 0 else tv_nsec ts) @
      ''\<newline>clock_settime64: clock_settime64 -> retval=0\<newline>'' \<and>
    kernel_reads a bs = (if long_size a = 4 \<and> big_endian a then ts\<lparr>tv_nsec := padding_val (junk ''setts'')\<rparr> else ts)"
proof -
  have z: "fmt_d 0 = ''0''"
    by code_simp
  have "tv_sec (as_read a ts) = tv_sec ts" "tv_nsec (as_read a ts) = (if long_size a = 4 \<and> big_endian a then 0 else tv_nsec ts)"
    by (simp_all add: as_read_def)
  with assms timespec_at_kernel [OF assms(1,2), of "[]" "[]" "[]"] obtain s' where
    "bindS (gettime_part have_macro a) (settime_part have_macro a junk) (start m (g # r # rest)) = (Ret (), s')"
      "map fst (calls s') = [Clock_gettime64, Clock_settime64 (timespec_bytes a (junk ''setts'') (as_read a ts))]"
      "printed s' = ''clock_gettime64: clock_gettime64 -> retval=0\<newline>  -> got sec='' @ fmt_d (tv_sec ts) @
        '' nsec='' @ fmt_d (if long_size a = 4 \<and> big_endian a then 0 else tv_nsec ts) @
        ''\<newline>clock_settime64: clock_settime64 -> retval=0\<newline>''"
    by (simp add: gettime_part_def settime_part_def guarded_def perr_def fill_timespec [OF _ length_zero_ts] Let_def eval_simps
      eval_errno obs_simps z)
  with kernel_reads_bytes [OF assms(1,2), of "junk ''setts''"] show ?thesis
    by (intro exI conjI)
qed

theorem clock_set_back_witness:
  "\<exists>s' bs. bindS (gettime_part (\<lambda>_. True) \<lparr>long_size = 4, time_t_size = 4, big_endian = True\<rparr>)
      (settime_part (\<lambda>_. True) \<lparr>long_size = 4, time_t_size = 4, big_endian = True\<rparr> (\<lambda>_ _. CHR 0x03))
     (start Unbuffered ((rep 0)\<lparr>bytes := kernel_timespec True \<lparr>tv_sec = 5, tv_nsec = 7\<rparr>\<rparr> # rep 0 # [])) = (Ret (), s') \<and>
    map fst (calls s') = [Clock_gettime64, Clock_settime64 bs] \<and>
    kernel_reads \<lparr>long_size = 4, time_t_size = 4, big_endian = True\<rparr> bs = \<lparr>tv_sec = 5, tv_nsec = 0x03030303\<rparr>"
proof -
  let ?a = "\<lparr>long_size = 4, time_t_size = 4, big_endian = True\<rparr>" and ?ts = "\<lparr>tv_sec = 5, tv_nsec = 7\<rparr>"
  have a: "target ?a" "valid_time ?ts"
    by (simp_all add: target_def valid_time_def)
  have g: "rv ((rep 0)\<lparr>bytes := kernel_timespec True ?ts\<rparr>) = 0"
    "bytes ((rep 0)\<lparr>bytes := kernel_timespec True ?ts\<rparr>) = kernel_timespec (big_endian ?a) ?ts"
    by (simp_all add: rep_def)
  have p: "?ts\<lparr>tv_nsec := padding_val (\<lambda>_. CHR 0x03)\<rparr> = \<lparr>tv_sec = 5, tv_nsec = 0x03030303\<rparr>"
    by (simp add: padding_val_def be_val_def upt_rec)
  show ?thesis
    using clock_set_back [where have_macro = "\<lambda>_. True" and junk = "\<lambda>_ _. CHR 0x03" and m = Unbuffered and rest = "[]",
      OF a TrueI TrueI g rep_obs(1)]
    by (elim exE conjE, intro exI conjI) (assumption | simp only: p abi.simps rep_def reply.simps if_True simp_thms refl)+
qed

definition no_call_line :: "string \<Rightarrow> string" where
  "no_call_line name = name @ '': no SYS_'' @ name @ ''/__NR_'' @ name @ '' on this build\<newline>''"

text \<open>On a target whose headers define none of the calls (every 64-bit one) the program says so for each of the nine,
  makes and closes one timer descriptor and one timer, and exits with 0.\<close>

theorem timeclock64_without_calls:
  assumes "\<And>x. \<not> have_macro x" "0 \<le> rv f" "rv c = 0"
  shows "\<exists>s'. timeclock64_main have_macro a junk (start m (f # cl # c # d # rest)) = (Exited 0, s') \<and>
    map fst (calls s') = [Timerfd_create, Close (rv f), Timer_create, Timer_delete (out_int 0 c)] \<and>
    written s' = ''time64-syscall test program\<newline>sizeof(time_t)='' @ fmt_u (time_t_size a) @ '', sizeof(long)='' @ fmt_u (long_size a) @ ''\<newline>'' @
      concat (map no_call_line [''clock_gettime64'', ''clock_settime64'', ''clock_getres_time64'', ''clock_nanosleep_time64'', ''clock_adjtime64'']) @
      ''timerfd created fd='' @ fmt_d (rv f) @ ''\<newline>'' @ concat (map no_call_line [''timerfd_settime64'', ''timerfd_gettime64'']) @
      ''posix timer created (timer_t='' @ fmt_p (out_int 0 c) @ '')\<newline>'' @ concat (map no_call_line [''timer_settime64'', ''timer_gettime64'']) @
      ''done.\<newline>''"
  using assms
  by (simp add: timeclock64_main_def gettime_part_def settime_part_def getres_part_def nanosleep_part_def adjtime_part_def timerfd_part_def
    timer_part_def guarded_def no_call_line_def Let_def eval_simps obs_simps)

theorem timeclock64_without_calls_witness:
  "\<exists>s'. timeclock64_main (\<lambda>_. False) \<lparr>long_size = 8, time_t_size = 8, big_endian = False\<rparr> (\<lambda>_ _. NUL) (start FullyBuffered (rep 3 # rep 0 # rep 0 # rep 0 # [])) =
    (Exited 0, s')"
  using timeclock64_without_calls [of "\<lambda>_. False" "rep 3" "rep 0" "\<lparr>long_size = 8, time_t_size = 8, big_endian = False\<rparr>" "\<lambda>_ _. NUL" FullyBuffered "rep 0" "rep 0" "[]"]
  by auto

end
