(* ===== verification/Arch_Prctl.thy ===== *)
theory Arch_Prctl
  imports Memory
begin

text \<open>
  \<^verbatim>\<open>arch_prctl.c\<close>: reads, changes and restores the bases of the segment registers GS and FS, then tries
  the other commands of \<^verbatim>\<open>arch_prctl\<close> that the headers of the build define. A command that stores through
  its pointer puts the numbers into the reply; without numbers the variable keeps its value.
\<close>

abbreviation "Arch_prctl cmd args \<equiv> Call ''arch_prctl'' (S cmd # args)"

definition print_result :: "string \<Rightarrow> int \<Rightarrow> unit stm" where
  "print_result name r = (let head = pad_right 28 name @ '' -> retval='' in
     if r = -1 then bindS get_errno (\<lambda>n. bindS strerror_errno (\<lambda>t.
       printf (head @ ''-1 errno='' @ fmt_d n @ '' ('' @ t @ '')\<newline>'')))
     else printf (head @ fmt_d r @ ''\<newline>''))"

definition assert_that :: "bool \<Rightarrow> unit stm" where
  "assert_that b = (if b then skip else signalled SIGABRT)"

definition stored :: "int \<Rightarrow> reply \<Rightarrow> int" where
  "stored v r = (case outs r of [] \<Rightarrow> v | x # _ \<Rightarrow> x)"

abbreviation test_val :: int where "test_val \<equiv> 0xdeadbeef"
abbreviation no_val :: int where "no_val \<equiv> 0xfeedface"

text \<open>The four commands, the return value of each and the variable it stores into.\<close>

definition arch_get :: "string \<Rightarrow> int \<Rightarrow> (int \<times> int) stm" where
  "arch_get cmd v = bindS (sys (Arch_prctl cmd [])) (\<lambda>r. ret (rv r, stored v r))"

definition arch_set :: "string \<Rightarrow> int \<Rightarrow> int stm" where
  "arch_set cmd v = sysv (Arch_prctl cmd [I v])"

text \<open>The value is the final \<^verbatim>\<open>out_val\<close>.\<close>

definition gs_part :: "int stm" where
  "gs_part = bindS (set_errno 0) (\<lambda>_. bindS (arch_get ''ARCH_GET_GS'' no_val) (\<lambda>(r, orig_val).
     bindS (block [
       if r = 0 then printf (''orig  -> GS = 0x'' @ fmt_lx orig_val @ ''\<newline>'') else print_result ''ARCH_GET'' r,
       set_errno 0]) (\<lambda>_. bindS (arch_set ''ARCH_SET_GS'' test_val) (\<lambda>r.
     bindS (block [print_result ''ARCH_SET'' r, set_errno 0]) (\<lambda>_. bindS (arch_get ''ARCH_GET_GS'' no_val) (\<lambda>(r, out_val).
     bindS (block [
       print_result ''ARCH_GET'' r,
       assert_that (out_val = test_val),
       only_if (r = 0) [printf (''check set  -> GS = 0x'' @ fmt_lx out_val @ ''\<newline>'')],
       set_errno 0]) (\<lambda>_. bindS (arch_set ''ARCH_SET_GS'' orig_val) (\<lambda>r.
     bindS (block [print_result ''ARCH_SET reset to orig'' r, set_errno 0]) (\<lambda>_. bindS (arch_get ''ARCH_GET_GS'' no_val) (\<lambda>(r, out_val).
     bindS (block [
       print_result ''ARCH_GET'' r,
       assert_that (out_val = orig_val),
       only_if (r = 0) [printf (''check restored  -> GS = 0x'' @ fmt_lx out_val @ ''\<newline>'')]]) (\<lambda>_. ret out_val)))))))))))"

text \<open>While FS has the test value nothing is printed: the C library itself uses FS. (Neither may a call fail
  there, since \<^verbatim>\<open>errno\<close> is reached through FS; the theorems about this part have no such call.)\<close>

definition fs_part :: "int stm" where
  "fs_part = bindS (set_errno 0) (\<lambda>_. bindS (arch_get ''ARCH_GET_FS'' no_val) (\<lambda>(r, orig_val).
     bindS (block [
       if r = 0 then printf (''orig  -> FS = 0x'' @ fmt_lx orig_val @ ''\<newline>'') else print_result ''ARCH_GET'' r,
       set_errno 0]) (\<lambda>_. bindS (arch_set ''ARCH_SET_FS'' test_val) (\<lambda>_. bindS (arch_get ''ARCH_GET_FS'' no_val) (\<lambda>(r, out_val).
     bindS (assert_that (out_val = test_val)) (\<lambda>_. bindS (arch_set ''ARCH_SET_FS'' orig_val) (\<lambda>_.
     bindS (arch_get ''ARCH_GET_FS'' out_val) (\<lambda>(r, out_val).
     bindS (assert_that (out_val = orig_val)) (\<lambda>_. ret out_val)))))))))"

definition buf4 :: "reply \<Rightarrow> int list" where
  "buf4 r = take 4 (outs r) @ replicate (4 - length (outs r)) 0"

definition cpuid_line :: "string \<Rightarrow> int list \<Rightarrow> string" where
  "cpuid_line t vs = t @ ''  -> cpuid[0..3] ='' @ concat (map (\<lambda>v. '' '' @ fmt_lx v) vs) @ ''\<newline>''"

definition cpuid_part :: "unit stm" where
  "cpuid_part = bindS (set_errno 0) (\<lambda>_. bindS (sys (Arch_prctl ''ARCH_GET_CPUID'' [])) (\<lambda>r.
     bindS (block [
       print_result ''ARCH_GET_CPUID'' (rv r),
       printf (cpuid_line ''orig'' (buf4 r)),
       set_errno 0,
       bindS (sysv (Arch_prctl ''ARCH_SET_CPUID'' [I 1, I 2, I 3, I 4])) (print_result ''ARCH_SET_CPUID'')]) (\<lambda>_.
     bindS (sys (Arch_prctl ''ARCH_GET_CPUID'' [])) (\<lambda>r. block [
       print_result ''ARCH_GET_CPUID'' (rv r),
       printf (cpuid_line ''new'' (buf4 r))]))))"

text \<open>A command tried when the headers define it; its value is \<^verbatim>\<open>out_val\<close>, which a \<^verbatim>\<open>GET\<close> command may change.\<close>

definition try_get :: "build \<Rightarrow> string \<Rightarrow> (int \<Rightarrow> int \<Rightarrow> unit stm) \<Rightarrow> int \<Rightarrow> int stm" where
  "try_get have_macro cmd after out_val = (if have_macro cmd then
     bindS (set_errno 0) (\<lambda>_. bindS (arch_get cmd out_val) (\<lambda>(r, out_val).
       yields [print_result cmd r, after r out_val] out_val))
     else ret out_val)"

definition try_set :: "build \<Rightarrow> string \<Rightarrow> int \<Rightarrow> unit stm" where
  "try_set have_macro cmd v = only_if (have_macro cmd) [set_errno 0, bindS (arch_set cmd v) (print_result cmd)]"

definition rare_probes :: "build \<Rightarrow> int \<Rightarrow> unit stm" where
  "rare_probes have_macro out_val =
     bindS (try_get have_macro ''ARCH_GET_L1I'' (\<lambda>_ _. skip) out_val) (\<lambda>out_val.
     bindS (try_get have_macro ''ARCH_GET_L1D'' (\<lambda>_ _. skip) out_val) (\<lambda>out_val.
     bindS (block [
       try_set have_macro ''ARCH_SET_L1I'' test_val,
       try_set have_macro ''ARCH_SET_L1D'' test_val]) (\<lambda>_.
     bindS (try_get have_macro ''ARCH_GET_XCOMP_SUPP'' (\<lambda>_ _. skip) out_val) (\<lambda>out_val.
     bindS (try_set have_macro ''ARCH_SET_XCOMP'' test_val) (\<lambda>_.
     bindS (try_get have_macro ''ARCH_GET_XCOMP'' (\<lambda>_ _. skip) out_val) (\<lambda>out_val.
     bindS (try_get have_macro ''ARCH_GET_XSTATE_SIZE'' (\<lambda>r v. only_if (r = 0) [
       printf (''  -> xstate size = '' @ fmt_u (nat (v mod 2 ^ 64)) @ ''\<newline>'')]) out_val) (\<lambda>out_val.
     bindS (try_get have_macro ''ARCH_GET_KERNEL_BP'' (\<lambda>_ _. skip) out_val) (\<lambda>_.
     try_set have_macro ''ARCH_SET_KERNEL_BP'' test_val))))))))"

definition vdso_part :: "build \<Rightarrow> unit stm" where
  "vdso_part have_macro = (if have_macro ''ARCH_MAP_VDSO'' then
       block [set_errno 0, bindS (arch_set ''ARCH_MAP_VDSO'' 0) (print_result ''ARCH_MAP_VDSO'')]
     else printf ''ARCH_MAP_VDSO not defined on this build (skipping)\<newline>'')"

definition after_registers :: "build \<Rightarrow> int \<Rightarrow> unit stm" where
  "after_registers have_macro out_val = block [
     if have_macro ''ARCH_GET_CPUID'' \<and> have_macro ''ARCH_SET_CPUID'' then cpuid_part
     else printf ''ARCH_GET/SET_CPUID not defined on this build (skipping)\<newline>'',
     vdso_part have_macro,
     rare_probes have_macro out_val,
     only_if (\<not> have_macro ''ARCH_SET_GS'' \<and> \<not> have_macro ''ARCH_GET_GS'' \<and> \<not> have_macro ''ARCH_SET_FS'' \<and> \<not> have_macro ''ARCH_GET_FS'') [
       printf (''No common ARCH_* macros detected at compile time. Check your kernel headers '' @
         ''(/usr/include/asm/prctl.h or /usr/include/linux/prctl.h).\<newline>'')],
     printf ''Finished arch_prctl probes.\<newline>'',
     exit 0]"

text \<open>\<open>num\<close> is the number of the system call.\<close>

definition arch_prctl_main :: "build \<Rightarrow> int \<Rightarrow> unit stm" where
  "arch_prctl_main have_macro num = bindS (block [
     printf ''arch_prctl exercise program\<newline>'',
     if have_macro ''SYS_arch_prctl'' then printf (''Using syscall number SYS_arch_prctl = '' @ fmt_d num @ ''\<newline>'')
     else printf ''Warning: SYS_arch_prctl not defined; syscall may fail to compile/run.\<newline>'']) (\<lambda>_.
     bindS (if have_macro ''ARCH_GET_GS'' \<and> have_macro ''ARCH_SET_GS'' then gs_part
       else yields [printf ''ARCH_SET_GS not defined on this build (skipping)\<newline>''] 0) (\<lambda>out_val.
     bindS (if have_macro ''ARCH_GET_FS'' \<and> have_macro ''ARCH_SET_FS'' then fs_part
       else yields [printf ''ARCH_GET/SET_GS not defined on this build (skipping)\<newline>''] out_val) (\<lambda>out_val.
     after_registers have_macro out_val)))"

subsection \<open>What the program needs of the kernel\<close>

datatype segment = FS | GS

fun get_cmd :: "segment \<Rightarrow> string" where
  "get_cmd FS = ''ARCH_GET_FS''"
| "get_cmd GS = ''ARCH_GET_GS''"

fun set_cmd :: "segment \<Rightarrow> string" where
  "set_cmd FS = ''ARCH_SET_FS''"
| "set_cmd GS = ''ARCH_SET_GS''"

text \<open>\<open>base k seg\<close> is the base of a segment register, an address below \<open>limit\<close>. Only the two \<^verbatim>\<open>SET\<close> commands
  change it.\<close>

text \<open>The macros without which the program does not compile: they are used outside the \<^verbatim>\<open>#if\<close>s too.\<close>

definition common :: "build \<Rightarrow> bool" where
  "common have_macro \<longleftrightarrow> have_macro ''SYS_arch_prctl'' \<and> have_macro ''ARCH_GET_GS'' \<and> have_macro ''ARCH_SET_GS'' \<and>
     have_macro ''ARCH_GET_FS'' \<and> have_macro ''ARCH_SET_FS''"

definition result_line :: "string \<Rightarrow> string" where
  "result_line name = pad_right 28 name @ '' -> retval=0\<newline>''"

definition gs_text :: "int \<Rightarrow> string" where
  "gs_text b = ''orig  -> GS = 0x'' @ fmt_lx b @ ''\<newline>'' @ result_line ''ARCH_SET'' @ result_line ''ARCH_GET'' @
     ''check set  -> GS = 0xdeadbeef\<newline>'' @ result_line ''ARCH_SET reset to orig'' @ result_line ''ARCH_GET'' @
     ''check restored  -> GS = 0x'' @ fmt_lx b @ ''\<newline>''"

definition fs_text :: "int \<Rightarrow> string" where
  "fs_text b = ''orig  -> FS = 0x'' @ fmt_lx b @ ''\<newline>''"

lemma print_result_0: "print_result name 0 = printf (result_line name)"
proof -
  have "fmt_d 0 = ''0''"
    by code_simp
  then show ?thesis
    by (simp add: print_result_def result_line_def)
qed

lemma hex_test_val: "fmt_lx test_val = ''deadbeef''"
  by (simp add: fmt_lx_def radix.simps digit_def) code_simp

lemma assert_simps: "assert_that True = skip" "assert_that False = signalled SIGABRT"
  by (simp_all add: assert_that_def)

lemma appends_arch [appends_intros]:
  "appends (print_result name r)" "appends (assert_that b)" "appends (arch_get cmd v)" "appends (arch_set cmd v)"
  by (auto simp: print_result_def Let_def assert_that_def arch_get_def arch_set_def intro!: appends_intros)

locale arch_kernel =
  fixes base :: "'k \<Rightarrow> segment \<Rightarrow> int"
    and limit :: int
    and kstep :: "'k \<Rightarrow> call \<Rightarrow> reply \<Rightarrow> 'k \<Rightarrow> bool"
  assumes base_range: "0 \<le> base k seg" "base k seg < limit"
    and test_val_fits: "test_val < limit"
    and free: "\<exists>r k'. kstep k c r k'"
    and get_done: "kstep k (Arch_prctl (get_cmd seg) []) r k' \<Longrightarrow> rv r = 0 \<and> outs r = [base k seg]"
    and set_done: "kstep k (Arch_prctl (set_cmd seg) [I v]) r k' \<Longrightarrow> 0 \<le> v \<Longrightarrow> v < limit \<Longrightarrow>
      rv r = 0 \<and> base k' = (base k)(seg := v)"
    and keeps: "kstep k c r k' \<Longrightarrow> (\<And>seg v. c \<noteq> Arch_prctl (set_cmd seg) [I v]) \<Longrightarrow> base k' = base k"
begin

text \<open>A statement that leaves the registers alone, ends with a value or waits, and only adds to the output.\<close>

definition neutral :: "'a stm \<Rightarrow> bool" where
  "neutral m \<longleftrightarrow> appends m \<and> (\<forall>k s. meets kstep k m s (\<lambda>e s' k'. base k' = base k \<and> ((\<exists>x. e = Ret x) \<or> (\<exists>c. e = Blocked c)) \<and>
     (\<exists>t. printed s' = printed s @ t)))"

lemma neutral_bindS:
  assumes "neutral m" "\<And>x. neutral (f x)"
  shows "neutral (bindS m f)"
proof -
  have "meets kstep k (bindS m f) s (\<lambda>e s' k'. base k' = base k \<and> ((\<exists>x. e = Ret x) \<or> (\<exists>c. e = Blocked c)) \<and>
     (\<exists>t. printed s' = printed s @ t))" for k s
  proof (rule meets_bindS)
    have f: "meets kstep k' (f x) s' (\<lambda>e s'' k''. base k'' = base k' \<and> ((\<exists>x. e = Ret x) \<or> (\<exists>c. e = Blocked c)) \<and>
      (\<exists>t. printed s'' = printed s' @ t))" for k' x s'
      using assms(2) by (auto simp: neutral_def)
    show "meets kstep k m s (\<lambda>e s' k'. (\<exists>x. e = Ret x \<and> meets kstep k' (f x) s' (\<lambda>e s' k'. base k' = base k \<and>
        ((\<exists>x. e = Ret x) \<or> (\<exists>c. e = Blocked c)) \<and> (\<exists>t. printed s' = printed s @ t))) \<or>
      (\<exists>c. e = Blocked c \<and> base k' = base k \<and> ((\<exists>x. Blocked c = (Ret x :: 'b result)) \<or> (\<exists>d. Blocked c = (Blocked d :: 'b result))) \<and>
        (\<exists>t. printed s' = printed s @ t)))"
      by (rule meets_mono [OF assms(1) [unfolded neutral_def, THEN conjunct2, rule_format]])
        (auto intro!: meets_mono [OF f])
  qed (use assms in \<open>auto simp: neutral_def\<close>)
  then show ?thesis
    using assms by (auto simp: neutral_def intro!: appends_intros)
qed

lemma neutral_basic:
  "neutral (ret x)" "neutral skip" "neutral (printf t)" "neutral (set_errno n)" "neutral get_errno"
  "(\<And>seg v. c \<noteq> Arch_prctl (set_cmd seg) [I v]) \<Longrightarrow> neutral (sys c)"
proof -
  show "neutral (ret x)" "neutral skip" "neutral (printf t)" "neutral (set_errno n)" "neutral get_errno"
    by (auto simp: neutral_def meets_def eval_simps eval_errno obs_simps intro!: appends_intros)
  show "neutral (sys c)" if "\<And>seg v. c \<noteq> Arch_prctl (set_cmd seg) [I v]"
    using that keeps by (auto simp: neutral_def meets_def sys_eval obs_simps intro!: appends_intros split: list.split)
qed

lemma neutral_control:
  "neutral (block [])" "neutral m \<Longrightarrow> neutral (block ms) \<Longrightarrow> neutral (block (m # ms))"
  "neutral (block ms) \<Longrightarrow> neutral (only_if b ms)"
  "neutral n \<Longrightarrow> neutral n' \<Longrightarrow> neutral (if b then n else n')"
  "neutral (block ms) \<Longrightarrow> neutral (yields ms v)"
  by (auto simp: only_if_def yields_def neutral_basic intro!: neutral_bindS)

lemma neutral_calls:
  "(\<And>seg v. c \<noteq> Arch_prctl (set_cmd seg) [I v]) \<Longrightarrow> neutral (sysv c)"
  "neutral strerror_errno"
  by (auto simp: sysv_def strerror_errno_def intro!: neutral_bindS neutral_basic)

lemmas neutral_intros = neutral_bindS neutral_basic neutral_control neutral_calls

lemma neutral_print_result: "neutral (print_result name r)"
  by (auto simp: print_result_def Let_def intro!: neutral_intros)

lemma other_cmd:
  "cmd \<notin> {''ARCH_SET_FS'', ''ARCH_SET_GS''} \<Longrightarrow> Arch_prctl cmd args \<noteq> Arch_prctl (set_cmd seg) [I v]"
  "Arch_prctl cmd [] \<noteq> Arch_prctl (set_cmd seg) [I v]"
  by (cases seg; simp)+

lemma neutral_probes:
  "(\<And>r v. neutral (after r v)) \<Longrightarrow> neutral (try_get have_macro cmd after out_val)"
  "cmd \<notin> {''ARCH_SET_FS'', ''ARCH_SET_GS''} \<Longrightarrow> neutral (try_set have_macro cmd v)"
  "neutral cpuid_part" "neutral (vdso_part have_macro)"
  by (auto simp: try_get_def try_set_def cpuid_part_def vdso_part_def arch_get_def arch_set_def
    intro!: neutral_intros neutral_print_result other_cmd split: prod.split)

lemma neutral_rare: "neutral (rare_probes have_macro out_val)"
  by (auto simp: rare_probes_def intro!: neutral_intros neutral_probes)

lemma meets_get:
  assumes "\<And>x. appends (g x)" "\<And>c s k. Q (Blocked c) s k"
    and "\<And>k' s'. base k' = base k \<Longrightarrow> printed s' = printed s \<Longrightarrow> meets kstep k' (g (0, base k seg)) s' Q"
  shows "meets kstep k (bindS (arch_get (get_cmd seg) v) g) s Q"
  unfolding arch_get_def bindS_assoc bindS_ret
proof (rule meets_sys)
  fix r rest k1
  assume "kstep k (Arch_prctl (get_cmd seg) []) r k1"
  then show "meets kstep k1 (g (rv r, stored v r)) (logged (Arch_prctl (get_cmd seg) []) r s) Q"
    using get_done keeps [OF _ other_cmd(2)] assms(3) by (simp add: stored_def obs_simps)
qed (use assms in auto)

lemma meets_set:
  assumes "\<And>x. appends (g x)" "\<And>c s k. Q (Blocked c) s k" "0 \<le> v" "v < limit"
    and "\<And>k' s'. base k' = (base k)(seg := v) \<Longrightarrow> printed s' = printed s \<Longrightarrow> meets kstep k' (g 0) s' Q"
  shows "meets kstep k (bindS (arch_set (set_cmd seg) v) g) s Q"
  unfolding arch_set_def
proof (rule meets_sysv)
  fix r rest k1
  assume "kstep k (Arch_prctl (set_cmd seg) [I v]) r k1"
  then show "meets kstep k1 (g (rv r)) (logged (Arch_prctl (set_cmd seg) [I v]) r s) Q"
    using set_done assms(3-5) by (simp add: obs_simps)
qed (use assms in auto)

lemmas meets_gs_calls = meets_get [where seg = GS, simplified get_cmd.simps] meets_set [where seg = GS, simplified set_cmd.simps]
lemmas meets_fs_calls = meets_get [where seg = FS, simplified get_cmd.simps] meets_set [where seg = FS, simplified set_cmd.simps]

lemmas part_simps = print_result_0 assert_simps bindS_assoc bindS_ret meets_simps meets_errno obs_simps base_range test_val_fits

lemma meets_gs:
  assumes "\<And>x. appends (g x)" "\<And>c s k. Q (Blocked c) s k"
    and "\<And>k' s' x. base k' = base k \<Longrightarrow> printed s' = printed s @ gs_text (base k GS) \<Longrightarrow> meets kstep k' (g x) s' Q"
  shows "meets kstep k (bindS gs_part g) s Q"
proof -
  show ?thesis
    unfolding gs_part_def bindS_assoc meets_errno
    by (rule meets_gs_calls, (auto intro!: appends_intros assms(1) split: prod.split)[1], rule assms(2), (simp add: part_simps; fail)?,
      (simp add: part_simps; fail)?, (simp add: part_simps)?)+ (simp_all add: assms(3) gs_text_def part_simps hex_test_val)
qed

lemma meets_fs:
  assumes "\<And>x. appends (g x)" "\<And>c s k. Q (Blocked c) s k"
    and "\<And>k' s' x. base k' = base k \<Longrightarrow> printed s' = printed s @ fs_text (base k FS) \<Longrightarrow> meets kstep k' (g x) s' Q"
  shows "meets kstep k (bindS fs_part g) s Q"
  unfolding fs_part_def bindS_assoc meets_errno
  by (rule meets_fs_calls, (auto intro!: appends_intros assms(1) split: prod.split)[1], rule assms(2), (simp add: part_simps; fail)?,
      (simp add: part_simps; fail)?, (simp add: part_simps)?)+ (simp_all add: assms(3) fs_text_def part_simps)

lemma meets_after:
  assumes "common have_macro"
  shows "meets kstep k (after_registers have_macro out_val) s (\<lambda>e s' k'. (\<exists>c. e = Blocked c) \<or>
    e = Exited 0 \<and> base k' = base k \<and> (\<exists>t. written s' = printed s @ t @ ''Finished arch_prctl probes.\<newline>''))"
    (is "meets kstep k _ s ?Q")
proof -
  define m where "m = block [
     if have_macro ''ARCH_GET_CPUID'' \<and> have_macro ''ARCH_SET_CPUID'' then cpuid_part
     else printf ''ARCH_GET/SET_CPUID not defined on this build (skipping)\<newline>'',
     vdso_part have_macro, rare_probes have_macro out_val]"
  have n: "neutral m"
    unfolding m_def by (intro neutral_control neutral_basic neutral_probes neutral_rare)
  have "after_registers have_macro out_val = bindS m (\<lambda>_. bindS (printf ''Finished arch_prctl probes.\<newline>'') (\<lambda>_. exit 0))"
    using assms by (simp add: after_registers_def m_def common_def only_if_def bindS_assoc bindS_ret bindS_exit)
  moreover have "meets kstep k (bindS m (\<lambda>_. bindS (printf ''Finished arch_prctl probes.\<newline>'') (\<lambda>_. exit 0))) s ?Q"
  proof (rule meets_bindS)
    from n have "meets kstep k m s (\<lambda>e s' k'. base k' = base k \<and> ((\<exists>x. e = Ret x) \<or> (\<exists>c. e = Blocked c)) \<and> (\<exists>t. printed s' = printed s @ t))"
      by (simp add: neutral_def)
    then show "meets kstep k m s (\<lambda>e s' k'. (\<exists>x. e = Ret x \<and>
        meets kstep k' (bindS (printf ''Finished arch_prctl probes.\<newline>'') (\<lambda>_. exit 0)) s' ?Q) \<or> (\<exists>c. e = Blocked c \<and> ?Q (Blocked c) s' k'))"
      by (rule meets_mono) (auto simp: meets_simps obs_simps)
  qed (use n in \<open>auto simp: neutral_def intro!: appends_intros\<close>)
  ultimately show ?thesis
    by simp
qed

lemma appends_after [appends_intros]: "appends (after_registers have_macro out_val)"
  using neutral_probes(3,4) neutral_rare by (auto simp: after_registers_def neutral_def intro!: appends_intros)

lemma meets_arch_main:
  assumes "common have_macro"
  shows "meets kstep k (arch_prctl_main have_macro num) s (\<lambda>e s' k'. (\<exists>c. e = Blocked c) \<or>
    e = Exited 0 \<and> base k' = base k \<and> (\<exists>t. written s' = printed s @ ''arch_prctl exercise program\<newline>'' @
      ''Using syscall number SYS_arch_prctl = '' @ fmt_d num @ ''\<newline>'' @ gs_text (base k GS) @ fs_text (base k FS) @ t @
      ''Finished arch_prctl probes.\<newline>''))"
proof -
  have f: "appends (bindS fs_part (after_registers have_macro))"
    by (auto simp: fs_part_def intro!: appends_intros split: prod.split)
  have main: "arch_prctl_main have_macro num = bindS (printf ''arch_prctl exercise program\<newline>'') (\<lambda>_.
      bindS (printf (''Using syscall number SYS_arch_prctl = '' @ fmt_d num @ ''\<newline>'')) (\<lambda>_.
      bindS gs_part (\<lambda>_. bindS fs_part (after_registers have_macro))))"
    using assms by (simp add: arch_prctl_main_def common_def bindS_assoc bindS_ret)
  show ?thesis
    unfolding main meets_simps
    by (rule meets_gs [OF f], simp, rule meets_fs [OF appends_after], simp)
      (rule meets_mono [OF meets_after [OF assms]], auto simp: obs_simps)
qed

end

subsection \<open>A kernel that keeps the promise\<close>

text \<open>Two registers with user addresses; every other call is answered with a failure.\<close>

typedef address = "{0 ..< 0x7ffffffff000 :: int}"
  by (rule exI [of _ 0]) simp

type_synonym registers = "segment \<Rightarrow> address"

definition regs_base :: "registers \<Rightarrow> segment \<Rightarrow> int" where
  "regs_base k seg = Rep_address (k seg)"

definition is_base_call :: "call \<Rightarrow> bool" where
  "is_base_call c \<longleftrightarrow> (\<exists>seg. c = Arch_prctl (get_cmd seg) []) \<or> (\<exists>seg v. c = Arch_prctl (set_cmd seg) [I v])"

inductive regs_step :: "registers \<Rightarrow> call \<Rightarrow> reply \<Rightarrow> registers \<Rightarrow> bool" where
  "regs_step k (Arch_prctl (get_cmd seg) []) ((rep 0)\<lparr>outs := [regs_base k seg]\<rparr>) k"
| "0 \<le> v \<Longrightarrow> v < 0x7ffffffff000 \<Longrightarrow> regs_step k (Arch_prctl (set_cmd seg) [I v]) (rep 0) (k(seg := Abs_address v))"
| "\<not> (0 \<le> v \<and> v < 0x7ffffffff000) \<Longrightarrow> regs_step k (Arch_prctl (set_cmd seg) [I v]) (rep (-1)) k"
| "\<not> is_base_call c \<Longrightarrow> regs_step k c (rep (-1)) k"

lemma cmd_inject [simp]: "get_cmd a = get_cmd b \<longleftrightarrow> a = b" "set_cmd a = set_cmd b \<longleftrightarrow> a = b" "get_cmd a \<noteq> set_cmd b"
  by (cases a; cases b; simp)+

inductive_cases regs_stepE: "regs_step k (Arch_prctl cmd args) r k'"

interpretation regs: arch_kernel regs_base "0x7ffffffff000" regs_step
proof (unfold_locales, goal_cases)
  case (1 k seg)
  show ?case using Rep_address [of "k seg"] by (simp add: regs_base_def)
next
  case (2 k seg)
  show ?case using Rep_address [of "k seg"] by (simp add: regs_base_def)
next
  case 3
  show ?case by simp
next
  case (4 k c)
  show ?case
  proof (cases "is_base_call c")
    case True
    then consider (get) seg where "c = Arch_prctl (get_cmd seg) []" | (set) seg v where "c = Arch_prctl (set_cmd seg) [I v]"
      by (auto simp: is_base_call_def)
    then show ?thesis
    proof cases
      case (set seg v)
      then show ?thesis
        by (cases "0 \<le> v \<and> v < 0x7ffffffff000") (blast intro: regs_step.intros)+
    qed (blast intro: regs_step.intros)
  qed (blast intro: regs_step.intros)
next
  case 5
  then show ?case by (auto elim!: regs_stepE simp: is_base_call_def)
next
  case 6
  then show ?case by (auto elim!: regs_stepE simp: is_base_call_def regs_base_def fun_eq_iff Abs_address_inverse)
next
  case 7
  then show ?case by (cases rule: regs_step.cases) auto
qed

subsection \<open>The properties\<close>

text \<open>C7. On every kernel that keeps the promise, whatever optional macros the headers define and whatever the
  other commands answer: \<^verbatim>\<open>arch_prctl.c\<close> waits in a call the kernel can complete or has exited with 0; no
  assertion has failed, the report shows GS as it was, with the test value, and as it was again, and both registers
  have the bases they had at the start.\<close>

theorem arch_prctl_restores:
  assumes "arch_kernel base limit kstep" "common have_macro"
    and "arch_prctl_main have_macro num (start m rs) = (e, s')" "served kstep k (calls s') k'"
  shows "(\<exists>c r k''. e = Blocked c \<and> kstep k' c r k'') \<or>
    e = Exited 0 \<and> base k' = base k \<and> (\<exists>t. written s' = ''arch_prctl exercise program\<newline>'' @
      ''Using syscall number SYS_arch_prctl = '' @ fmt_d num @ ''\<newline>'' @ gs_text (base k GS) @ fs_text (base k FS) @ t @
      ''Finished arch_prctl probes.\<newline>'')"
  using arch_kernel.meets_arch_main [OF assms(1,2), of k num "start m rs"] arch_kernel.free [OF assms(1)] assms(3,4)
  by (simp add: meets_def obs_simps)

theorem arch_prctl_restores_witness:
  "(\<exists>t. written (snd (arch_prctl_main (\<lambda>x. x \<in> {''SYS_arch_prctl'', ''ARCH_GET_GS'', ''ARCH_SET_GS'', ''ARCH_GET_FS'', ''ARCH_SET_FS''}) 158
     (start Unbuffered (concat (replicate 2 [(rep 0)\<lparr>outs := [4096]\<rparr>, rep 0, (rep 0)\<lparr>outs := [test_val]\<rparr>, rep 0, (rep 0)\<lparr>outs := [4096]\<rparr>]))))) =
     ''arch_prctl exercise program\<newline>Using syscall number SYS_arch_prctl = '' @ t)"
proof -
  let ?have = "\<lambda>x. x \<in> {''SYS_arch_prctl'', ''ARCH_GET_GS'', ''ARCH_SET_GS'', ''ARCH_GET_FS'', ''ARCH_SET_FS''}"
  let ?k = "\<lambda>_ :: segment. Abs_address 4096"
  let ?g = "(rep 0)\<lparr>outs := [4096]\<rparr>" and ?h = "(rep 0)\<lparr>outs := [test_val]\<rparr>"
  let ?run = "arch_prctl_main ?have 158 (start Unbuffered (concat (replicate 2 [?g, rep 0, ?h, rep 0, ?g])))"
  have run: "fst ?run = Exited 0" "calls (snd ?run) = concat (map (\<lambda>seg. [(Arch_prctl (get_cmd seg) [], ?g),
      (Arch_prctl (set_cmd seg) [I test_val], rep 0), (Arch_prctl (get_cmd seg) [], ?h), (Arch_prctl (set_cmd seg) [I 4096], rep 0),
      (Arch_prctl (get_cmd seg) [], ?g)]) [GS, FS])"
    by (simp_all add: arch_prctl_main_def gs_part_def fs_part_def arch_get_def arch_set_def print_result_0 stored_def assert_that_def
      after_registers_def vdso_part_def rare_probes_def try_get_def try_set_def eval_simps eval_errno obs_simps numeral_2_eq_2)
  have get: "regs_step k (Arch_prctl (get_cmd seg) []) ((rep 0)\<lparr>outs := [v]\<rparr>) k" if "regs_base k seg = v" for k seg v
    using regs_step.intros(1) [of k seg] that by simp
  have b: "regs_base (k(seg := Abs_address v)) seg = v" if "0 \<le> v" "v < 0x7ffffffff000" for k seg v
    using that by (simp add: regs_base_def Abs_address_inverse)
  have cycle: "served regs_step ?k [(Arch_prctl (get_cmd seg) [], ?g), (Arch_prctl (set_cmd seg) [I test_val], rep 0),
      (Arch_prctl (get_cmd seg) [], ?h), (Arch_prctl (set_cmd seg) [I 4096], rep 0), (Arch_prctl (get_cmd seg) [], ?g)] ?k" for seg
  proof -
    have "?k(seg := Abs_address test_val, seg := Abs_address 4096) = ?k"
      by auto
    then show ?thesis
      using get [of ?k seg 4096] get [OF b, of test_val ?k seg] regs_step.intros(2) [of test_val ?k seg]
        regs_step.intros(2) [of 4096 "?k(seg := Abs_address test_val)" seg] b [of 4096 ?k seg]
      by (auto simp: fun_upd_idem)
  qed
  have "served regs_step ?k (calls (snd ?run)) ?k"
    unfolding run using cycle [of GS] cycle [of FS] by (simp add: served_append) blast
  moreover have "?run = (Exited 0, snd ?run)" "common ?have"
    using run(1) by (simp_all add: prod_eq_iff common_def)
  ultimately show ?thesis
    using arch_prctl_restores [OF regs.arch_kernel_axioms, of ?have 158 Unbuffered] by fastforce
qed

text \<open>A kernel that refuses to set GS, or to read it back, makes the first assertion fail: the program is killed by
  \<^verbatim>\<open>SIGABRT\<close>, and when its output goes to a file or a pipe even what it has printed so far is lost.\<close>

theorem arch_prctl_refused_aborts:
  assumes "common have_macro" "rv g = 0" "rv r = -1" "stored no_val g' \<noteq> test_val" "rv g' \<noteq> -1"
  shows "\<exists>s'. arch_prctl_main have_macro num (start m (g # r # e # g' # rest)) = (Signalled SIGABRT, s') \<and>
    (m = FullyBuffered \<longrightarrow> written s' = [])"
  using assms
  by (simp add: arch_prctl_main_def common_def gs_part_def arch_get_def arch_set_def print_result_def Let_def assert_that_def
    eval_simps eval_errno obs_simps written_put_full)

theorem arch_prctl_refused_aborts_witness:
  "\<exists>s'. arch_prctl_main (\<lambda>_. True) 158 (start FullyBuffered [(rep 0)\<lparr>outs := [0]\<rparr>, (rep (-1))\<lparr>err := 1\<rparr>, rep 0, (rep 0)\<lparr>outs := [0]\<rparr>]) =
    (Signalled SIGABRT, s') \<and> written s' = []"
  using arch_prctl_refused_aborts [of "\<lambda>_. True" "(rep 0)\<lparr>outs := [0]\<rparr>" "(rep (-1))\<lparr>err := 1\<rparr>" "(rep 0)\<lparr>outs := [0]\<rparr>" 158 FullyBuffered "rep 0" "[]"]
  by (simp add: common_def stored_def)

end
