(* ===== verification/Probe_Programs.thy ===== *)
theory Probe_Programs
  imports Memory
begin

text \<open>
  The programs that make a few calls and print what they return: \<^verbatim>\<open>stat.c\<close>, \<^verbatim>\<open>identity.c\<close>, \<^verbatim>\<open>robustlist.c\<close>,
  \<^verbatim>\<open>fakeafile.c\<close>, \<^verbatim>\<open>devmemmadness.c\<close> and \<^verbatim>\<open>termios.c\<close>. Addresses, and the size of a pointer, are parameters.
\<close>

subsection \<open>\<^verbatim>\<open>stat.c\<close>\<close>

abbreviation "Stat path \<equiv> Call ''stat'' [S path]"

text \<open>The fields of \<^verbatim>\<open>struct stat\<close> in the order of the first four lines; a failing call leaves them unset.\<close>

record stat_info =
  st_dev :: int
  st_ino :: int
  st_mode :: int
  st_nlink :: int
  st_uid :: int
  st_gid :: int
  st_rdev :: int
  st_size :: int
  st_blksize :: int
  st_blocks :: int
  st_atime :: int
  st_mtime :: int
  st_ctime :: int

definition stat_of :: "reply \<Rightarrow> stat_info option" where
  "stat_of r = (case outs r of
      [dev, ino, mode, nlink, uid, gid, rdev, sz, blksize, blocks, atime, mtime, ctime] \<Rightarrow>
        Some \<lparr>st_dev = dev, st_ino = ino, st_mode = mode, st_nlink = nlink, st_uid = uid, st_gid = gid, st_rdev = rdev,
          st_size = sz, st_blksize = blksize, st_blocks = blocks, st_atime = atime, st_mtime = mtime, st_ctime = ctime\<rparr>
    | _ \<Rightarrow> None)"

definition fmt_ld :: "int \<Rightarrow> string" where
  "fmt_ld v = fmt_d (int64 v)"

definition spaced :: "string list \<Rightarrow> string" where
  "spaced ws = concat (map (\<lambda>w. w @ '' '') (butlast ws)) @ last ws @ ''\<newline>''"

definition stat_main :: "string list \<Rightarrow> unit stm" where
  "stat_main argv =
     bindS (if argc argv = 1 then ret (argv ! 0) else if argc argv > 1 then ret (argv ! 1)
       else undefined_behaviour ''argv[1] is past the end'') (\<lambda>filename.
     bindS (sys (Stat filename)) (\<lambda>r. with_value (stat_of r) (\<lambda>info. block [
       printf (spaced [fmt_ld (st_dev info), fmt_ld (st_ino info), fmt_d (int32 (st_mode info)), fmt_d (int32 (st_nlink info))]),
       printf (spaced [fmt_d (int32 (st_uid info)), fmt_d (int32 (st_gid info)), fmt_ld (st_rdev info)]),
       printf (spaced [fmt_ld (st_size info), fmt_ld (st_blksize info), fmt_ld (st_blocks info)]),
       printf (spaced [fmt_ld (st_atime info), fmt_ld (st_mtime info), fmt_ld (st_ctime info)]),
       printf (spaced [fmt_lx (st_dev info), fmt_lx (st_ino info), fmt_x (st_mode info), fmt_x (st_nlink info)]),
       printf (spaced [fmt_x (st_uid info), fmt_x (st_gid info), fmt_lx (st_rdev info)]),
       printf (spaced [fmt_lx (st_size info), fmt_lx (st_blksize info), fmt_lx (st_blocks info)]),
       printf (spaced [fmt_lx (st_atime info), fmt_lx (st_mtime info), fmt_lx (st_ctime info)]),
       exit 0])))"

subsection \<open>\<^verbatim>\<open>identity.c\<close>\<close>

abbreviation "Uname \<equiv> Call ''uname'' []"

text \<open>\<^verbatim>\<open>struct utsname\<close> has fields of 65 bytes.\<close>

definition uts_field :: "memory \<Rightarrow> nat \<Rightarrow> string option" where
  "uts_field uts i = scan_all (take 65 (drop (65 * i) uts))"

definition four_ids :: "call \<Rightarrow> call \<Rightarrow> unit stm" where
  "four_ids real effective = bindS (sysv real) (\<lambda>a. bindS (sysv real) (\<lambda>b. bindS (sysv effective) (\<lambda>c. bindS (sysv effective) (\<lambda>d.
     printf (fmt_d (int32 a) @ '' 0x'' @ fmt_x b @ '' '' @ fmt_d (int32 c) @ '' 0x'' @ fmt_x d @ ''\<newline>'')))))"

definition identity_main :: "unit stm" where
  "identity_main = block [
     setbuf_null,
     bindS (sys Uname) (\<lambda>r. let uts = poke 0 (bytes r) (unset (6 * 65)) in
       with_value (those (map (uts_field uts) [0..<5])) (\<lambda>fs. printf (spaced fs))),
     four_ids Getuid Geteuid,
     four_ids Getgid Getegid,
     exit 0]"

subsection \<open>\<^verbatim>\<open>robustlist.c\<close>\<close>

abbreviation "Set_robust_list_len head len \<equiv> Call ''set_robust_list'' [I head, I len]"

text \<open>An access to memory that may not be there: \<open>err\<close> of the reply is 0, or the signal the process gets instead.\<close>

definition access :: "call \<Rightarrow> int stm" where
  "access c = bindS (sys c) (\<lambda>r. if err r = 0 then ret (rv r) else signalled (err r))"

text \<open>\<open>head\<close> is the address of the program's own head, whose fields are all zero, and \<open>w\<close> the size of a pointer. Any
  other address is read from memory the program does not know.\<close>

definition head_field :: "int \<Rightarrow> int \<Rightarrow> int \<Rightarrow> int stm" where
  "head_field head got_head off = (if got_head = head then ret 0 else access (Load_int (got_head + off)))"

definition robustlist_main :: "int \<Rightarrow> int \<Rightarrow> unit stm" where
  "robustlist_main head w = bindS (sysv Gettid) (\<lambda>tid.
     bindS (sysv (Set_robust_list_len head (3 * w))) (\<lambda>v.
     bindS (only_if (v \<noteq> 0) [perror ''set_robust_list failed'', exit 1]) (\<lambda>_.
     bindS (sys (Get_robust_list tid)) (\<lambda>r.
     if rv r = -1 then block [perror ''get_robust_list'', exit 2]
     else let got_head = out_int 0 r in block [
       printf (''Robust list head: '' @ fmt_p got_head @ ''\<newline>''),
       printf (''Length: '' @ fmt_d (out_int 1 r) @ ''\<newline>''),
       only_if (got_head \<noteq> 0) [
         bindS (head_field head got_head w) (\<lambda>off. printf (''Futex offset: '' @ fmt_d off @ ''\<newline>'')),
         bindS (head_field head got_head (2 * w)) (\<lambda>p. printf (''List pending: '' @ fmt_p p @ ''\<newline>''))],
       exit 0]))))"

subsection \<open>\<^verbatim>\<open>fakeafile.c\<close>, \<^verbatim>\<open>devmemmadness.c\<close>, \<^verbatim>\<open>termios.c\<close>\<close>

abbreviation "Mmap len flags fd off \<equiv> Call ''mmap'' [I len, I flags, I fd, I off]"
abbreviation "Open_mode path flags mode \<equiv> Call ''open'' [S path, I flags, I mode]"
abbreviation "Lseek fd off whence \<equiv> Call ''lseek'' [I fd, I off, I whence]"
abbreviation "Tcgetattr fd \<equiv> Call ''tcgetattr'' [I fd]"
abbreviation TESTVAL :: int where "TESTVAL \<equiv> 0x12345678"
abbreviation MAP_FAILED :: int where "MAP_FAILED \<equiv> - 1"

definition open_report :: "string \<Rightarrow> string \<Rightarrow> int \<Rightarrow> unit stm" where
  "open_report failed opened fd = (if fd = -1 then block [fprintf_stderr failed, perror ''open'']
     else printf (opened @ fmt_d fd @ ''\<newline>''))"

text \<open>The result of \<^verbatim>\<open>mmap\<close> is not checked: storing through \<^verbatim>\<open>MAP_FAILED\<close> faults.\<close>

definition val_text :: string where "val_text = ''Test string''"

definition fakeafile_main :: "unit stm" where
  "fakeafile_main = bindS setbuf_null (\<lambda>_. bindS (sysv (Mmap 4096 34 0 0)) (\<lambda>region.
     bindS (printf (''Got a mmap region at '' @ fmt_p region @ ''\<newline>'')) (\<lambda>_.
     bindS (if region = MAP_FAILED then signalled SIGSEGV else do_call (Store_int region TESTVAL)) (\<lambda>_.
     bindS (sysv (Open_mode ''/qemu/synfiles/fromguest'' 577 128)) (\<lambda>fd.
     bindS (block [
       open_report ''open of fromguest failed\<newline>'' ''open of fromguest at fd '' fd,
       do_call (Close fd)]) (\<lambda>_.
     bindS (sysv (Open_mode ''/FAKEME/fakefile'' 2 384)) (\<lambda>fd.
     bindS (open_report ''open of FAKEME failed\<newline>'' ''open of /FAKEME/fakefile at fd '' fd) (\<lambda>_.
     block [
       bindS (sysv (Read fd 256)) (\<lambda>nbytes. only_if (nbytes \<noteq> 256) [
         printf (''read of fakefile failed only got '' @ fmt_d nbytes @ '' bytes\<newline>'')]),
       do_call (Lseek fd 128 0),
       bindS (sysv (Write fd (val_text @ [NUL]))) (\<lambda>nbytes. only_if (nbytes \<noteq> 12) [
         printf (''write of fakefile failed only wrote '' @ fmt_d nbytes @ '' bytes\<newline>'')]),
       do_call (Close fd),
       exit 0]))))))))"

text \<open>The mapping is private, so a load after the store need not show the device: both loads are calls. The device may
  answer none of them: then the process gets a signal.\<close>

definition devmemmadness_main :: "unit stm" where
  "devmemmadness_main = bindS (sysv (Open ''/dev/mem'' 2)) (\<lambda>fd.
     bindS (open_report ''open of /dev/mem failed\<newline>'' ''open of /dev/mem at fd '' fd) (\<lambda>_.
     bindS (sysv (Mmap 4096 2 fd 0x60000000)) (\<lambda>mmio_region.
     block [
       if mmio_region = MAP_FAILED then fprintf_stderr ''mmap of /dev/mem failed\<newline>''
       else bindS (printf (''mmap of /dev/mem at 0x'' @ fmt_p mmio_region @ ''\<newline>'')) (\<lambda>_.
         bindS (access (Load_int mmio_region)) (\<lambda>val1. bindS (access (Store_int mmio_region TESTVAL)) (\<lambda>_.
         bindS (access (Load_int mmio_region)) (\<lambda>val2.
         printf (''Read as '' @ fmt_lx val1 @ '', set to '' @ fmt_lx TESTVAL @ '', then read '' @ fmt_lx val2 @ ''\<newline>''))))),
       exit 0])))"

definition termios_main :: "unit stm" where
  "termios_main = block [do_call (Tcgetattr 1), exit 0]"

subsection \<open>Properties\<close>

text \<open>\<^verbatim>\<open>stat.c\<close> makes one call, for its argument or else for itself; it does not look at the result, so it is
  well defined exactly when the call has filled the structure.\<close>

theorem stat_defined_iff:
  assumes "argv \<noteq> []"
  shows "(\<exists>s'. stat_main argv (start m (r # rest)) =
      (if stat_of r = None then Undefined unset_byte else Exited 0, s') \<and>
      calls s' = [(Stat (if length argv = 1 then argv ! 0 else argv ! 1), r)])"
  using assms by (cases argv) (auto simp: stat_main_def argc_def eval_simps obs_simps split: option.split)

theorem stat_defined_iff_witness:
  "\<exists>s'. stat_main [''stat'', ''/nowhere''] (start FullyBuffered (rep (-1) # [])) = (Undefined unset_byte, s')"
  using stat_defined_iff [of "[''stat'', ''/nowhere'']" FullyBuffered "rep (-1)" "[]"] by (simp add: stat_of_def) blast

text \<open>What \<^verbatim>\<open>robustlist.c\<close> prints when the kernel gives back the head that was registered with its size.\<close>

theorem robustlist_gets_back:
  assumes "rv s1 = 0" "rv g \<noteq> -1" "outs g = [head, 3 * w]" "head \<noteq> 0"
  shows "\<exists>s'. robustlist_main head w (start m (t # s1 # g # rest)) = (Exited 0, s') \<and>
    map fst (calls s') = [Gettid, Set_robust_list_len head (3 * w), Get_robust_list (rv t)] \<and>
    written s' = ''Robust list head: '' @ fmt_p head @ ''\<newline>Length: '' @ fmt_d (3 * w) @ ''\<newline>Futex offset: 0\<newline>List pending: (nil)\<newline>''"
proof -
  have "fmt_d 0 = ''0''"
    by code_simp
  with assms show ?thesis
    by (simp add: robustlist_main_def head_field_def fmt_p_def [of 0] out_int_def Let_def eval_simps obs_simps)
qed

theorem robustlist_gets_back_witness:
  "\<exists>s'. robustlist_main 4096 8 (start Unbuffered (rep 9 # rep 0 # (rep 0)\<lparr>outs := [4096, 3 * 8]\<rparr> # [])) = (Exited 0, s')"
  using robustlist_gets_back [of "rep 0" "(rep 0)\<lparr>outs := [4096, 3 * 8]\<rparr>" 4096 8 Unbuffered "rep 9" "[]"] by auto

text \<open>\<^verbatim>\<open>fakeafile.c\<close> goes on whatever its calls return: with both files missing it closes, reads, seeks in and
  writes to descriptor -1, and it exits with 0 all the same. Only a failing \<^verbatim>\<open>mmap\<close>, whose result it uses unchecked, ends it earlier.\<close>

theorem fakeafile_goes_on:
  "(rv p \<noteq> MAP_FAILED \<longrightarrow> (\<exists>s'. fakeafile_main (start m ([p, z, f, c, g, r, l, w, d] @ rest)) = (Exited 0, s') \<and>
      map fst (calls s') = [Mmap 4096 34 0 0, Store_int (rv p) TESTVAL, Open_mode ''/qemu/synfiles/fromguest'' 577 128, Close (rv f),
        Open_mode ''/FAKEME/fakefile'' 2 384, Read (rv g) 256, Lseek (rv g) 128 0, Write (rv g) (val_text @ [NUL]), Close (rv g)])) \<and>
   (rv p = MAP_FAILED \<longrightarrow> fst (fakeafile_main (start m (p # rest))) = Signalled SIGSEGV)"
  by (simp add: fakeafile_main_def open_report_def eval_simps eval_errno obs_simps)

theorem fakeafile_goes_on_witness:
  "\<exists>s'. fakeafile_main (start Unbuffered ([rep 4096, rep 0, rep (-1), rep (-1), rep (-1), rep (-1), rep (-1), rep (-1), rep (-1)] @ [])) = (Exited 0, s')"
  using fakeafile_goes_on [of "rep 4096" Unbuffered "rep 0" "rep (-1)" "rep (-1)" "rep (-1)" "rep (-1)" "rep (-1)" "rep (-1)" "rep (-1)" "[]"]
  by auto

text \<open>When the head that is got back is another one, at an address the program cannot read, it ends by the signal, with
  what it has printed so far.\<close>

theorem robustlist_faults:
  assumes "rv s1 = 0" "rv g \<noteq> -1" "outs g = [other, n]" "other \<noteq> 0" "other \<noteq> head" "err r \<noteq> 0"
  shows "\<exists>s'. robustlist_main head w (start m (t # s1 # g # r # rest)) = (Signalled (err r), s') \<and>
    map fst (calls s') = [Gettid, Set_robust_list_len head (3 * w), Get_robust_list (rv t), Load_int (other + w)] \<and>
    printed s' = ''Robust list head: '' @ fmt_p other @ ''\<newline>Length: '' @ fmt_d n @ ''\<newline>''"
  using assms by (simp add: robustlist_main_def head_field_def access_def out_int_def Let_def eval_simps obs_simps)

theorem robustlist_faults_witness:
  "\<exists>s'. robustlist_main 4096 8 (start Unbuffered (rep 9 # rep 0 # (rep 0)\<lparr>outs := [64, 24]\<rparr> # (rep 0)\<lparr>err := SIGSEGV\<rparr> # [])) =
    (Signalled SIGSEGV, s')"
  using robustlist_faults [of "rep 0" "(rep 0)\<lparr>outs := [64, 24]\<rparr>" 64 24 4096 "(rep 0)\<lparr>err := SIGSEGV\<rparr>" 8 Unbuffered "rep 9" "[]"] by auto

text \<open>\<^verbatim>\<open>devmemmadness.c\<close> tries the mapping even without a descriptor, and touches memory only when it got one: a load, a
  store and a load, of which the first that faults ends it.\<close>

theorem devmem_touches_only_mapping:
  "(rv p = MAP_FAILED \<longrightarrow> (\<exists>s'. devmemmadness_main (start m ([f, p] @ rest)) = (Exited 0, s') \<and>
      map fst (calls s') = [Open ''/dev/mem'' 2, Mmap 4096 2 (rv f) 0x60000000])) \<and>
   (rv p \<noteq> MAP_FAILED \<longrightarrow> (\<exists>s'. devmemmadness_main (start m ([f, p, a, b, c] @ rest)) =
        (if err a \<noteq> 0 then Signalled (err a) else if err b \<noteq> 0 then Signalled (err b) else if err c \<noteq> 0 then Signalled (err c)
         else Exited 0, s') \<and>
      map fst (calls s') = [Open ''/dev/mem'' 2, Mmap 4096 2 (rv f) 0x60000000] @
        take (if err a \<noteq> 0 then 1 else if err b \<noteq> 0 then 2 else 3) [Load_int (rv p), Store_int (rv p) TESTVAL, Load_int (rv p)]))"
  by (simp add: devmemmadness_main_def open_report_def access_def eval_simps eval_errno obs_simps)

text \<open>The layout of \<^verbatim>\<open>struct utsname\<close>, and its fields read back.\<close>

definition encode_uts :: "string list \<Rightarrow> string" where
  "encode_uts fs = concat (map (\<lambda>f. f @ replicate (65 - length f) NUL) fs)"

definition uts_ok :: "string \<Rightarrow> bool" where
  "uts_ok f \<longleftrightarrow> length f < 65 \<and> NUL \<notin> set f"

lemma block_at:
  assumes "\<And>b. b \<in> set bs \<Longrightarrow> length b = n" "i < length bs"
  shows "take n (drop (n * i) (concat bs)) = bs ! i"
  using assms
proof (induction bs arbitrary: i)
  case (Cons b bs)
  then show ?case
    by (cases i) (auto simp: algebra_simps)
qed simp

lemma uts_field_encoded:
  assumes "list_all uts_ok fs" "length fs = 6" "i < 5"
  shows "uts_field (poke 0 (encode_uts fs) (unset (6 * 65))) i = Some (fs ! i)"
proof -
  let ?bs = "map (\<lambda>f. f @ replicate (65 - length f) NUL) fs"
  have len: "length b = 65" if "b \<in> set ?bs" for b
    using that assms(1) by (auto simp: list_all_iff uts_ok_def)
  have "sum_list (map length ?bs) = 6 * 65"
    using assms(1,2) by (auto simp: numeral_eq_Suc length_Suc_conv uts_ok_def)
  then have l: "length (encode_uts fs) = 6 * 65"
    by (simp add: encode_uts_def length_concat comp_def)
  have ok: "uts_ok (fs ! i)"
    using assms by (simp add: list_all_length)
  have "take 65 (drop (65 * i) (encode_uts fs)) = fs ! i @ replicate (65 - length (fs ! i)) NUL"
    unfolding encode_uts_def by (subst block_at [OF len]) (use assms(2,3) in auto)
  then have "take 65 (drop (65 * i) (poke 0 (encode_uts fs) (unset (6 * 65)))) = map Some (fs ! i) @ map Some (replicate (65 - length (fs ! i)) NUL)"
    using l by (simp add: poke_def drop_map take_map)
  moreover obtain k where "65 - length (fs ! i) = Suc k"
    using ok by (cases "65 - length (fs ! i)") (auto simp: uts_ok_def)
  ultimately show ?thesis
    using ok by (simp add: uts_field_def scan_all_string uts_ok_def)
qed

text \<open>\<^verbatim>\<open>identity.c\<close> prints the first five fields as the kernel stored them, and each id twice, in both bases; when
  \<^verbatim>\<open>uname\<close> has stored nothing it prints memory that was never set.\<close>

theorem identity_reads_back:
  assumes "list_all uts_ok fs" "length fs = 6" "bytes r = encode_uts fs" "bytes r' = []"
  shows "(\<exists>s'. identity_main (start m ([r, a, b, c, d, e, f, g, h] @ rest)) = (Exited 0, s') \<and>
      written s' = spaced (take 5 fs) @
        fmt_d (int32 (rv a)) @ '' 0x'' @ fmt_x (rv b) @ '' '' @ fmt_d (int32 (rv c)) @ '' 0x'' @ fmt_x (rv d) @ ''\<newline>'' @
        fmt_d (int32 (rv e)) @ '' 0x'' @ fmt_x (rv f) @ '' '' @ fmt_d (int32 (rv g)) @ '' 0x'' @ fmt_x (rv h) @ ''\<newline>'') \<and>
    fst (identity_main (start m (r' # rest))) = Undefined unset_byte"
proof -
  have "map (uts_field (poke 0 (bytes r) (unset (6 * 65)))) [0..<5] = map Some (take 5 fs)"
    using uts_field_encoded [OF assms(1,2)] assms(2,3) by (intro nth_equalityI) simp_all
  then have "those (map (uts_field (poke 0 (bytes r) (unset (6 * 65)))) [0..<5]) = Some (take 5 fs)"
    by (simp only: those_map_Some)
  moreover have "scan_all (unset 65) = None"
    by (simp add: scan_all_def scan_unset)
  then have "uts_field (unset 390) 0 = None"
    by (simp add: uts_field_def unset_def)
  then have "those (map (uts_field (unset 390)) (0 # [1..<5])) = None"
    by simp
  then have "those (map (uts_field (unset 390)) [0..<5]) = None"
    using upt_conv_Cons [of 0 5] by simp
  ultimately show ?thesis
    using assms(4) by (simp add: identity_main_def four_ids_def eval_simps obs_simps Let_def del: upt_rec_numeral)
qed

definition sample_uts :: "string list" where
  "sample_uts = [''Linux'', ''box'', ''6.1'', ''#1'', ''mips'', []]"

theorem identity_reads_back_witness:
  "\<exists>s'. identity_main (start Unbuffered ([(rep 0)\<lparr>bytes := encode_uts sample_uts\<rparr>, rep 0, rep 0, rep 0, rep 0,
     rep 0, rep 0, rep 0, rep 0] @ [])) = (Exited 0, s')"
proof -
  have "list_all uts_ok sample_uts" "length sample_uts = 6"
    by (simp_all add: uts_ok_def sample_uts_def NUL_def)
  from identity_reads_back [OF this, of "(rep 0)\<lparr>bytes := encode_uts sample_uts\<rparr>" "rep (-1)" Unbuffered "rep 0" "rep 0" "rep 0" "rep 0"
      "rep 0" "rep 0" "rep 0" "rep 0" "[]"] show ?thesis
    by auto
qed

end
