(* ===== verification/Outcomes.thy ===== *)
theory Outcomes
  imports Memory
begin

text \<open>
  Two judgements about a program and all lists of replies, with a rule for each kind of statement.
  \<open>ends m s Q\<close>: however the run of \<open>m\<close> on \<open>s\<close> ends, or where it waits, satisfies \<open>Q\<close>. \<open>within n m\<close>: \<open>m\<close> ends after
  at most \<open>n\<close> calls: given \<open>n\<close> replies it neither waits nor loops.
\<close>

subsection \<open>How a run ends\<close>

definition ends :: "'a stm \<Rightarrow> process \<Rightarrow> ('a result \<Rightarrow> process \<Rightarrow> bool) \<Rightarrow> bool" where
  "ends m s Q \<longleftrightarrow> (case m s of (e, s') \<Rightarrow> Q e s')"

lemma endsD: "ends m s Q \<Longrightarrow> Q (fst (m s)) (snd (m s))"
  by (simp add: ends_def split: prod.splits)

lemma ends_mono: "ends m s Q \<Longrightarrow> (\<And>e s'. Q e s' \<Longrightarrow> Q' e s') \<Longrightarrow> ends m s Q'"
  by (auto simp: ends_def)

lemma ends_sys:
  assumes "answers s = [] \<Longrightarrow> Q (Blocked c) s" "\<And>r rest. answers s = r # rest \<Longrightarrow> ends (f r) (logged c r s) Q"
  shows "ends (bindS (sys c) f) s Q"
  using assms by (cases "answers s") (auto simp: ends_def bindS_sys)

lemma ends_calls:
  "(answers s = [] \<Longrightarrow> Q (Blocked c) s) \<Longrightarrow> (\<And>r rest. answers s = r # rest \<Longrightarrow> ends (g (rv r)) (logged c r s) Q) \<Longrightarrow>
     ends (bindS (sysv c) g) s Q"
  "(answers s = [] \<Longrightarrow> Q (Blocked c) s) \<Longrightarrow> (\<And>r rest. answers s = r # rest \<Longrightarrow> ends (h ()) (logged c r s) Q) \<Longrightarrow>
     ends (bindS (do_call c) h) s Q"
  unfolding sysv_def do_call_def bindS_assoc bindS_ret by (rule ends_sys; simp)+

lemma ends_execve:
  assumes "answers s = [] \<Longrightarrow> Q (Blocked (Execve p a e)) s"
    and "\<And>r rest. answers s = r # rest \<Longrightarrow> rv r = -1 \<Longrightarrow> ends (f (-1)) (logged (Execve p a e) r s) Q"
    and "\<And>r rest. answers s = r # rest \<Longrightarrow> rv r \<noteq> -1 \<Longrightarrow> Q (Replaced p a e) (logged (Execve p a e) r s)"
  shows "ends (bindS (execve p a e) f) s Q"
  using assms by (cases "answers s") (auto simp: ends_def bindS_execve)

lemma ends_simps:
  "ends (bindS (printf t) h) s Q = ends (h ()) (put_out t s) Q"
  "ends (bindS fflush h) s Q = ends (h ()) (flush_out s) Q"
  "ends (bindS setbuf_null h) s Q = ends (h ()) (unbuffered s) Q"
  "ends (bindS (perror w) h) s Q = ends (h ()) (noted (Perror w (errno s)) s) Q"
  "ends (bindS (only_if b ms) h) s Q = (if b then ends (bindS (block ms) h) s Q else ends (h ()) s Q)"
  "ends (exit n) s Q = Q (Exited n) (flush_out s)" "ends (ret x) s Q = Q (Ret x) s"
  "ends (undefined_behaviour w) s Q = Q (Undefined w) s" "ends (signalled n) s Q = Q (Signalled n) s"
  "ends skip s Q' = Q' (Ret ()) s"
  by (simp_all add: ends_def run_simps)

lemma ends_undefined: "ends (bindS (undefined_behaviour w) g) s Q = Q (Undefined w) s"
  by (simp add: ends_def run_simps)

text \<open>A \<^verbatim>\<open>do\<close> loop with an invariant; its body makes a call in every iteration.\<close>

lemma ends_while:
  assumes "Inv s"
    and "\<And>s. Inv s \<Longrightarrow> ends body s (\<lambda>e s'. case e of
      Ret b \<Rightarrow> length (answers s') < length (answers s) \<and> (if b then Inv s' else Q (Ret False) s')
    | Exited n \<Rightarrow> Q (Exited n) s' | Signalled n \<Rightarrow> Q (Signalled n) s' | Replaced p a e \<Rightarrow> Q (Replaced p a e) s'
    | Blocked c \<Rightarrow> Q (Blocked c) s' | Undefined w \<Rightarrow> Q (Undefined w) s' | Spins \<Rightarrow> Q Spins s')"
  shows "ends (while_loop (\<lambda>b. b) (\<lambda>_. body) True) s Q"
  using assms(1)
proof (induction "length (answers s)" arbitrary: s rule: less_induct)
  case less
  obtain e s' where run: "body s = (e, s')"
    by (cases "body s")
  note body = assms(2) [OF less.prems, unfolded ends_def run prod.case]
  show ?case
  proof (cases "e = Ret True")
    case True
    with body have "ends (while_loop (\<lambda>b. b) (\<lambda>_. body) True) s' Q" "length (answers s') < length (answers s)"
      using less.hyps by simp_all
    with True run show ?thesis
      by (simp add: ends_def while_loop_next)
  next
    case False
    with body run show ?thesis
      by (cases e) (auto simp: ends_def while_loop.simps [of _ _ True s] while_loop.simps [of _ _ False] split: if_splits)
  qed
qed

lemma ends_do_while:
  assumes "Inv s"
    and "\<And>s. Inv s \<Longrightarrow> ends body s (\<lambda>e s'. case e of
      Ret b \<Rightarrow> length (answers s') < length (answers s) \<and> (if b then Inv s' else ends (g ()) s' Q)
    | Exited n \<Rightarrow> Q (Exited n) s' | Signalled n \<Rightarrow> Q (Signalled n) s' | Replaced p a e \<Rightarrow> Q (Replaced p a e) s'
    | Blocked c \<Rightarrow> Q (Blocked c) s' | Undefined w \<Rightarrow> Q (Undefined w) s' | Spins \<Rightarrow> Q Spins s')"
  shows "ends (bindS (do_while body) g) s Q"
proof -
  let ?Q = "\<lambda>e s'. case e of Ret b \<Rightarrow> ends (g ()) s' Q
    | Exited n \<Rightarrow> Q (Exited n) s' | Signalled n \<Rightarrow> Q (Signalled n) s' | Replaced p a e \<Rightarrow> Q (Replaced p a e) s'
    | Blocked c \<Rightarrow> Q (Blocked c) s' | Undefined w \<Rightarrow> Q (Undefined w) s' | Spins \<Rightarrow> Q Spins s'"
  have "ends (while_loop (\<lambda>b. b) (\<lambda>_. body) True) s ?Q"
    by (rule ends_while [of Inv, OF assms(1)], rule ends_mono [OF assms(2)]) (auto split: result.splits if_splits)
  then show ?thesis
    by (auto simp: ends_def do_while_def bindS_def skip_def ret_def split: prod.splits result.splits)
qed

lemmas ends_intros = ends_sys ends_calls ends_execve

lemmas ends_step = ends_simps bindS_assoc bindS_block bindS_ret bindS_exit

subsection \<open>How many calls a run makes\<close>

named_theorems within_intros

definition within :: "nat \<Rightarrow> 'a stm \<Rightarrow> bool" where
  "within n m \<longleftrightarrow> (\<forall>s. n \<le> length (answers s) \<longrightarrow>
     fst (m s) \<noteq> Spins \<and> (\<forall>c. fst (m s) \<noteq> Blocked c) \<and> length (answers s) \<le> length (answers (snd (m s))) + n)"

lemma within_mono: "within i m \<Longrightarrow> i \<le> n \<Longrightarrow> within n m"
  unfolding within_def by (meson add_left_mono le_trans)

text \<open>The rules compute the bound; \<open>within_mono\<close> compares it with the one that is claimed.\<close>

lemma within_basic [within_intros]:
  "within 0 (ret x)" "within 0 skip" "within 0 (printf t)" "within 0 fflush" "within 0 setbuf_null"
  "within 0 (perror w)" "within 0 (exit v)" "within 0 (signalled v)" "within 0 (undefined_behaviour w)"
  "within 0 get_errno" "within 0 (set_errno v)" "within 0 (fprintf_stderr t)" "within 0 (Pair (Ret x))"
  by (auto simp: within_def ret_def skip_def printf_def fflush_def setbuf_null_def perror_def exit_def signalled_def
      undefined_behaviour_def eval_errno obs_simps)

lemma within_sys [within_intros]: "within 1 (sys c)"
  by (auto simp: within_def sys_def obs_simps split: list.split)

lemma within_bindS [within_intros]:
  assumes "within i m" "\<And>x. within j (f x)"
  shows "within (i + j) (bindS m f)"
  unfolding within_def
proof (intro allI impI)
  fix s :: process
  assume s: "i + j \<le> length (answers s)"
  obtain e s1 where m: "m s = (e, s1)"
    by (cases "m s")
  from assms(1) s have "fst (m s) \<noteq> Spins \<and> (\<forall>c. fst (m s) \<noteq> Blocked c) \<and> length (answers s) \<le> length (answers (snd (m s))) + i"
    unfolding within_def by fastforce
  with m have e: "e \<noteq> Spins" "\<And>c. e \<noteq> Blocked c" "length (answers s) \<le> length (answers s1) + i"
    by auto
  show "fst (bindS m f s) \<noteq> Spins \<and> (\<forall>c. fst (bindS m f s) \<noteq> Blocked c) \<and>
      length (answers s) \<le> length (answers (snd (bindS m f s))) + (i + j)"
  proof (cases "\<exists>x. e = Ret x")
    case True
    then obtain x where x: "e = Ret x"
      by blast
    from assms(2) [of x] e(3) s have "fst (f x s1) \<noteq> Spins \<and> (\<forall>c. fst (f x s1) \<noteq> Blocked c) \<and>
        length (answers s1) \<le> length (answers (snd (f x s1))) + j"
      unfolding within_def by fastforce
    with m x e(3) show ?thesis
      by (auto simp: bindS_def)
  next
    case False
    with m e show ?thesis
      by (cases e) (auto simp: bindS_def)
  qed
qed

lemma within_block [within_intros]:
  "within 0 (block [])" "within i m \<Longrightarrow> within j (block ms) \<Longrightarrow> within (i + j) (block (m # ms))"
  by (auto intro: within_intros)

lemma within_derived [within_intros]:
  "within 1 (sysv c)" "within 1 (do_call c)"
  "within n (block ms) \<Longrightarrow> within n (only_if b ms)"
  "within n (block ms) \<Longrightarrow> within n (yields ms v)"
  "within i m \<Longrightarrow> within j m' \<Longrightarrow> within (max i j) (if b then m else m')"
  "(\<And>t. within n (h t)) \<Longrightarrow> within n (with_value x h)"
  using within_bindS [OF within_sys within_basic(1)] within_bindS [OF within_sys within_basic(2)]
    within_bindS [of n "block ms" 0 "\<lambda>_. ret v"]
  by (auto simp: sysv_def do_call_def only_if_def yields_def with_value_def split: option.split
      intro: within_basic within_mono [of 0] within_mono [of i m "max i j"] within_mono [of j m' "max i j"])

lemma within_execve [within_intros]: "within 1 (execve p a e)"
  by (auto simp: within_def execve_def run_simps obs_simps split: list.split)

lemma within_for [within_intros]:
  assumes "\<And>j v. within i (body j v)"
  shows "within (nat (hi - lo) * i) (for_loop lo hi body v)"
proof -
  have "within (k * i) (for_from k l body v)" for k l v
  proof (induction k arbitrary: l v)
    case (Suc k)
    with within_bindS [OF assms this] show ?case
      by simp
  qed (simp add: within_basic)
  then show ?thesis
    by (simp add: for_loop_def)
qed

subsection \<open>Which calls a program makes\<close>

text \<open>\<open>asks C m\<close>: every call in which \<open>m\<close> can wait satisfies \<open>C\<close>.\<close>

named_theorems asks_intros

definition asks :: "(call \<Rightarrow> bool) \<Rightarrow> 'a stm \<Rightarrow> bool" where
  "asks C m \<longleftrightarrow> (\<forall>s c. fst (m s) = Blocked c \<longrightarrow> C c)"

lemma asksD: "asks C m \<Longrightarrow> fst (m s) = Blocked c \<Longrightarrow> C c"
  by (simp add: asks_def)

lemma asks_basic [asks_intros]:
  "asks C (ret x)" "asks C skip" "asks C (printf t)" "asks C fflush" "asks C setbuf_null" "asks C (perror t)"
  "asks C (exit n)" "asks C (signalled n)" "asks C (undefined_behaviour w)"
  "asks C get_errno" "asks C (set_errno n)" "asks C (fprintf_stderr t)"
  by (simp_all add: asks_def ret_def skip_def printf_def fflush_def setbuf_null_def perror_def exit_def signalled_def
      undefined_behaviour_def eval_errno)

lemma asks_sys [asks_intros]: "C c \<Longrightarrow> asks C (sys c)"
  by (simp add: asks_def sys_def split: list.split)

lemma asks_bindS [asks_intros]: "asks C m \<Longrightarrow> (\<And>x. asks C (f x)) \<Longrightarrow> asks C (bindS m f)"
  by (auto simp: asks_def bindS_def split: prod.splits result.splits) (metis fst_conv)+

lemma asks_derived [asks_intros]:
  "asks C (block [])" "asks C m \<Longrightarrow> asks C (block ms) \<Longrightarrow> asks C (block (m # ms))"
  "C c \<Longrightarrow> asks C (sysv c)" "C c \<Longrightarrow> asks C (do_call c)"
  "(b \<Longrightarrow> asks C (block ms)) \<Longrightarrow> asks C (only_if b ms)"
  "asks C (block ms) \<Longrightarrow> asks C (yields ms v)"
  "(b \<Longrightarrow> asks C k) \<Longrightarrow> (\<not> b \<Longrightarrow> asks C k') \<Longrightarrow> asks C (if b then k else k')"
  "(\<And>t. asks C (h t)) \<Longrightarrow> asks C (with_value x h)"
  by (auto simp: sysv_def do_call_def only_if_def yields_def with_value_def split: option.split intro!: asks_basic asks_bindS asks_sys)

lemma asks_execve [asks_intros]: "C (Execve p a e) \<Longrightarrow> asks C (execve p a e)"
  by (auto simp: asks_def execve_def run_simps split: list.splits if_splits)

lemma asks_for [asks_intros]:
  assumes "\<And>j v. asks C (body j v)"
  shows "asks C (for_loop lo hi body v)"
proof -
  have "asks C (for_from k l body v)" for k l v
    by (induction k arbitrary: l v) (auto intro!: asks_basic asks_bindS assms)
  then show ?thesis
    by (simp add: for_loop_def)
qed

lemma asks_while [asks_intros]:
  assumes "\<And>v. asks C (body v)"
  shows "asks C (while_loop b body v)"
proof -
  have "C c" if "fst (while_loop b body v s) = Blocked c" for v s c
    using that
  proof (induction "length (answers s)" arbitrary: v s rule: less_induct)
    case less
    obtain e s' where run: "body v s = (e, s')"
      by (cases "body v s")
    with asksD [OF assms, of v s] have "e = Blocked c \<Longrightarrow> C c"
      by simp
    with less run show ?case
      by (cases e) (auto simp: while_loop.simps [of b body v s] split: if_splits)
  qed
  then show ?thesis
    by (simp add: asks_def)
qed

lemma asks_do_while [asks_intros]: "asks C body \<Longrightarrow> asks C (do_while body)"
  by (auto simp: do_while_def intro!: asks_intros)

end
