(* ===== verification/Interleaving.thy ===== *)
theory Interleaving
  imports Two_Processes Outcomes
begin

text \<open>
  Any number of processes and threads on one kernel. The state of the whole system is its log: who made
  which call, and what the reply was, in the order in which the calls were completed. What a party does
  next is determined by its program and the replies it has got so far; whether the kernel can complete
  the call now, and with which reply, may depend on the whole log. So \<open>runs prog kern hist\<close> covers every
  interleaving, and the kernel is a parameter: what is documented of it is stated as laws of \<open>kern\<close>.

  The link between a log and the runs of a single program is \<open>on_demand\<close>: statements use their replies one
  by one, and with more replies they first do what they did with fewer. Every statement the programs are
  made of has it, so that a fact about a program on all lists of replies is a fact about its part of
  every log (\<open>runs_calls\<close>).
\<close>

subsection \<open>Statements take their replies on demand\<close>

named_theorems demand_intros

definition more :: "reply list \<Rightarrow> process \<Rightarrow> process" where
  "more rs s = s\<lparr>answers := answers s @ rs\<rparr>"

definition extends :: "process \<Rightarrow> process \<Rightarrow> bool" where
  "extends s s' \<longleftrightarrow> (\<exists>es. trace s' = trace s @ es \<and> answers s = map snd (concat (map call_of es)) @ answers s')"

definition resumes :: "'a stm \<Rightarrow> process \<Rightarrow> 'a result \<Rightarrow> process \<Rightarrow> bool" where
  "resumes m s e s' = (case e of
      Blocked c \<Rightarrow> answers s' = [] \<and> (\<forall>r rs. \<exists>es. trace (snd (m (more (r # rs) s))) = trace s' @ Sys c r # es)
    | _ \<Rightarrow> (\<forall>rs. m (more rs s) = (e, more rs s')))"

definition on_demand :: "'a stm \<Rightarrow> bool" where
  "on_demand m \<longleftrightarrow> (\<forall>s e s'. m s = (e, s') \<longrightarrow> extends s s' \<and> resumes m s e s')"

lemma extends_refl [simp]: "extends s s"
  by (simp add: extends_def)

lemma extends_trans: "extends s s1 \<Longrightarrow> extends s1 s2 \<Longrightarrow> extends s s2"
  by (fastforce simp: extends_def)

lemma extends_trace: "extends s s' \<Longrightarrow> trace s = t @ es \<Longrightarrow> \<exists>es'. trace s' = t @ es @ es'"
  by (auto simp: extends_def)

lemma on_demandD:
  "on_demand m \<Longrightarrow> m s = (e, s') \<Longrightarrow> extends s s'"
  "on_demand m \<Longrightarrow> m s = (e, s') \<Longrightarrow> resumes m s e s'"
  by (simp_all add: on_demand_def)

lemma on_demand_snd: "on_demand m \<Longrightarrow> extends s (snd (m s))"
  by (metis on_demandD(1) prod.collapse)

lemma more_obs:
  "emit t (more rs s) = more rs (emit t s)" "put_out t (more rs s) = more rs (put_out t s)"
  "flush_out (more rs s) = more rs (flush_out s)" "unbuffered (more rs s) = more rs (unbuffered s)"
  "noted e (more rs s) = more rs (noted e s)" "errno (more rs s) = errno s"
  "more rs s\<lparr>errno := n\<rparr> = more rs (s\<lparr>errno := n\<rparr>)"
  by (simp_all add: more_def emit_def put_out_def flush_out_def unbuffered_def noted_def split: bufmode.split)

lemma extends_emit [simp]: "extends s (emit t s)"
  by (simp add: extends_def emit_def)

lemma extends_obs:
  "extends s (put_out t s)" "extends s (flush_out s)" "extends s (unbuffered s)"
  "extends s (noted (Perror w n) s)" "extends s (noted (Err w) s)" "extends s (s\<lparr>errno := n\<rparr>)"
  by (auto simp: extends_def emit_def put_out_def flush_out_def unbuffered_def noted_def split: bufmode.split)

lemma on_demand_basic [demand_intros]:
  "on_demand (ret x)" "on_demand skip" "on_demand (printf t)" "on_demand fflush" "on_demand setbuf_null"
  "on_demand (exit n)" "on_demand (signalled n)" "on_demand (undefined_behaviour w)"
  "on_demand (set_errno n)"
  by (auto simp: on_demand_def resumes_def ret_def skip_def printf_def fflush_def setbuf_null_def exit_def
      signalled_def undefined_behaviour_def set_errno_def more_obs extends_obs)

lemma on_demand_errno [demand_intros]: "on_demand (perror t)" "on_demand get_errno" "on_demand (fprintf_stderr t)"
  by (auto simp: on_demand_def perror_def get_errno_def fprintf_stderr_def resumes_def more_obs extends_obs)

lemma on_demand_sys [demand_intros]: "on_demand (sys c)"
  by (auto simp: on_demand_def sys_def resumes_def more_def logged_def extends_def split: list.splits)

lemma bindS_cases:
  assumes "bindS m f s = (e, s')"
  obtains (ret) x s1 where "m s = (Ret x, s1)" "f x s1 = (e, s')"
  | (blocked) c where "m s = (Blocked c, s')" "e = Blocked c"
  | (over) e' where "m s = (e', s')" "\<And>x. e' \<noteq> Ret x" "\<And>c. e' \<noteq> Blocked c" "\<And>c. e \<noteq> Blocked c"
      "\<And>t t'. m t = (e', t') \<Longrightarrow> bindS m f t = (e, t')"
  using assms by (cases "m s", cases "fst (m s)") (auto simp: bindS_def)

lemma resumes_over: "(\<And>c. e \<noteq> Blocked c) \<Longrightarrow> resumes m s e s' \<longleftrightarrow> (\<forall>rs. m (more rs s) = (e, more rs s'))"
  by (cases e) (auto simp: resumes_def)

lemma extends_bindS: "(\<And>x. on_demand (f x)) \<Longrightarrow> extends (snd (m s)) (snd (bindS m f s))"
  by (cases "m s"; cases "fst (m s)") (auto simp: bindS_def intro: on_demand_snd)

lemma on_demand_bindS [demand_intros]:
  assumes m: "on_demand m" and f: "\<And>x. on_demand (f x)"
  shows "on_demand (bindS m f)"
  unfolding on_demand_def
proof (intro allI impI)
  fix s e s'
  assume run: "bindS m f s = (e, s')"
  then show "extends s s' \<and> resumes (bindS m f) s e s'"
  proof (cases rule: bindS_cases)
    case (ret x s1)
    from on_demandD [OF m ret(1)] have m1: "extends s s1" "\<And>rs. m (more rs s) = (Ret x, more rs s1)"
      by (simp_all add: resumes_def)
    then have "bindS m f (more rs s) = f x (more rs s1)" for rs
      by (simp add: bindS_def)
    with on_demandD [OF f ret(2)] have "resumes (bindS m f) s e s'"
      by (simp add: resumes_def split: result.splits)
    with m1(1) on_demandD(1) [OF f ret(2)] show ?thesis
      by (blast intro: extends_trans)
  next
    case (blocked c)
    note m1 = on_demandD [OF m blocked(1)]
    have "\<exists>es. trace (snd (bindS m f (more (r # rs) s))) = trace s' @ Sys c r # es" for r rs
    proof -
      obtain es where "trace (snd (m (more (r # rs) s))) = trace s' @ Sys c r # es"
        using m1(2) by (auto simp: resumes_def)
      with extends_bindS [of f m "more (r # rs) s"] f show ?thesis
        by (auto dest: extends_trace)
    qed
    with m1 blocked(2) show ?thesis
      by (simp add: resumes_def)
  next
    case (over e')
    with on_demandD [OF m over(1)] show ?thesis
      by (simp add: resumes_over)
  qed
qed

lemma on_demand_block [demand_intros]:
  "on_demand (block [])" "on_demand m \<Longrightarrow> on_demand (block ms) \<Longrightarrow> on_demand (block (m # ms))"
  by (auto intro: demand_intros)

lemma on_demand_Pair [demand_intros]: "on_demand (Pair (Ret x))" "on_demand (Pair (Replaced p a e))"
  by (auto simp: on_demand_def resumes_def)

lemma on_demand_derived [demand_intros]:
  "on_demand (sysv c)" "on_demand (do_call c)"
  "(b \<Longrightarrow> on_demand (block ms)) \<Longrightarrow> on_demand (only_if b ms)"
  "on_demand (block ms) \<Longrightarrow> on_demand (yields ms v)"
  "(b \<Longrightarrow> on_demand m) \<Longrightarrow> (\<not> b \<Longrightarrow> on_demand n) \<Longrightarrow> on_demand (if b then m else n)"
  "(\<And>t. on_demand (h t)) \<Longrightarrow> on_demand (with_value x h)"
  by (auto simp: sysv_def do_call_def only_if_def yields_def with_value_def split: option.split intro!: demand_intros)

lemma on_demand_execve [demand_intros]: "on_demand (execve p a e)"
proof -
  have "on_demand (\<lambda>s. if v = -1 then (Ret (-1), s) else (Replaced p a e, s))" for v :: int
    by (cases "v = -1") (auto simp: on_demand_def resumes_def)
  then show ?thesis
    unfolding execve_def by (auto intro!: demand_intros)
qed

lemma on_demand_for [demand_intros]:
  assumes "\<And>j v. on_demand (body j v)"
  shows "on_demand (for_from k i body v)" "on_demand (for_loop lo hi body v)"
proof -
  show "on_demand (for_from k i body v)" for k i v
    by (induction k arbitrary: i v) (auto intro!: demand_intros assms)
  then show "on_demand (for_loop lo hi body v)"
    by (simp add: for_loop_def)
qed

text \<open>An iteration of a \<^verbatim>\<open>while\<close> loop; the loop is the iteration followed by the loop as long as replies are used.\<close>

lemma while_loop_cases:
  assumes "while_loop c body v s = (e, s')"
  obtains (stop) "\<not> c v" "e = Ret v" "s' = s"
  | (again) v' s1 where "c v" "body v s = (Ret v', s1)" "length (answers s1) < length (answers s)"
      "while_loop c body v' s1 = (e, s')"
  | (spins) v' where "c v" "body v s = (Ret v', s')" "\<not> length (answers s') < length (answers s)" "c v'" "e = Spins"
  | (last) v' where "c v" "body v s = (Ret v', s')" "\<not> length (answers s') < length (answers s)" "\<not> c v'" "e = Ret v'"
  | (blocked) k where "c v" "body v s = (Blocked k, s')" "e = Blocked k"
  | (over) e' where "c v" "body v s = (e', s')" "\<And>x. e' \<noteq> Ret x" "\<And>k. e' \<noteq> Blocked k" "\<And>k. e \<noteq> Blocked k"
      "\<And>t t'. body v t = (e', t') \<Longrightarrow> while_loop c body v t = (e, t')"
  using assms by (cases "body v s"; cases "fst (body v s)")
    (auto simp: while_loop.simps [of c body v] split: if_splits)

lemma extends_while:
  assumes "\<And>v. on_demand (body v)"
  shows "extends s (snd (while_loop c body v s))" "c v \<Longrightarrow> extends (snd (body v s)) (snd (while_loop c body v s))"
proof -
  have step: "extends s (snd (while_loop c body v s)) \<and> (c v \<longrightarrow> extends (snd (body v s)) (snd (while_loop c body v s)))" for v s
  proof (induction "length (answers s)" arbitrary: v s rule: less_induct)
    case less
    obtain e s' where run: "while_loop c body v s = (e, s')"
      by (cases "while_loop c body v s")
    then show ?case
    proof (cases rule: while_loop_cases)
      case (again v' s1)
      with less [OF again(3), of v'] on_demandD(1) [OF assms again(2)] run show ?thesis
        by (auto intro: extends_trans)
    qed (use run assms in \<open>auto dest: on_demandD(1) [OF assms]\<close>)
  qed
  then show "extends s (snd (while_loop c body v s))" "c v \<Longrightarrow> extends (snd (body v s)) (snd (while_loop c body v s))"
    by blast+
qed

lemma on_demand_while [demand_intros]:
  assumes body: "\<And>v. on_demand (body v)"
  shows "on_demand (while_loop c body v)"
proof -
  have "extends s s' \<and> resumes (while_loop c body v) s e s'" if "while_loop c body v s = (e, s')" for v s e s'
    using that
  proof (induction "length (answers s)" arbitrary: v s rule: less_induct)
    case less
    from less.prems show ?case
    proof (cases rule: while_loop_cases)
      case stop
      then show ?thesis
        by (simp add: resumes_def while_loop_stop)
    next
      case (again v' s1)
      from on_demandD [OF body again(2)] have b: "extends s s1" "\<And>rs. body v (more rs s) = (Ret v', more rs s1)"
        by (simp_all add: resumes_def)
      then have "while_loop c body v (more rs s) = while_loop c body v' (more rs s1)" for rs
        using again by (intro while_loop_next) (simp_all add: more_def)
      with less.hyps [OF again(3,4)] b(1) show ?thesis
        by (auto simp: resumes_def intro: extends_trans split: result.splits)
    next
      case (blocked k)
      note b = on_demandD [OF body blocked(2)]
      have "\<exists>es. trace (snd (while_loop c body v (more (r # rs) s))) = trace s' @ Sys k r # es" for r rs
      proof -
        obtain es where "trace (snd (body v (more (r # rs) s))) = trace s' @ Sys k r # es"
          using b(2) by (auto simp: resumes_def)
        with extends_while(2) [of body c v "more (r # rs) s"] body blocked(1) show ?thesis
          by (auto dest: extends_trace)
      qed
      with b blocked(3) show ?thesis
        by (simp add: resumes_def)
    next
      case (over e')
      with on_demandD [OF body over(2)] show ?thesis
        by (simp add: resumes_over)
    next
      case (spins v')
      with on_demandD [OF body spins(2)] show ?thesis
        by (auto simp: resumes_def while_loop.simps [of c body v] more_def)
    next
      case (last v')
      with on_demandD [OF body last(2)] show ?thesis
        by (auto simp: resumes_def while_loop.simps [of c body v] more_def)
    qed
  qed
  then show ?thesis
    by (simp add: on_demand_def)
qed

lemma on_demand_do_while [demand_intros]: "on_demand body \<Longrightarrow> on_demand (do_while body)"
  by (auto simp: do_while_def intro!: demand_intros)

subsection \<open>Logs\<close>

definition next_call :: "'a stm \<Rightarrow> reply list \<Rightarrow> call option" where
  "next_call m rs = (case fst (m (fresh rs)) of Blocked c \<Rightarrow> Some c | _ \<Rightarrow> None)"

definition of_party :: "'p \<Rightarrow> ('p \<times> call \<times> reply) list \<Rightarrow> (call \<times> reply) list" where
  "of_party p hist = map snd (filter (\<lambda>e. fst e = p) hist)"

definition replies :: "'p \<Rightarrow> ('p \<times> call \<times> reply) list \<Rightarrow> reply list" where
  "replies p hist = map snd (of_party p hist)"

inductive runs :: "('p \<Rightarrow> reply list \<Rightarrow> call option) \<Rightarrow> (('p \<times> call \<times> reply) list \<Rightarrow> 'p \<Rightarrow> call \<Rightarrow> reply \<Rightarrow> bool) \<Rightarrow>
    ('p \<times> call \<times> reply) list \<Rightarrow> bool"
  for prog kern where
  begin_run: "runs prog kern []"
| step_run: "runs prog kern hist \<Longrightarrow> prog p (replies p hist) = Some c \<Longrightarrow> kern hist p c r \<Longrightarrow>
    runs prog kern (hist @ [(p, c, r)])"

inductive_cases runs_snocE: "runs prog kern (hist @ [(p, c, r)])"

lemma of_party_simps [simp]:
  "of_party p [] = []"
  "of_party p (hist @ hist') = of_party p hist @ of_party p hist'"
  "of_party p ((q, c, r) # hist) = (if q = p then (c, r) # of_party p hist else of_party p hist)"
  by (simp_all add: of_party_def)

lemma replies_simps [simp]:
  "replies p [] = []"
  "replies p (hist @ hist') = replies p hist @ replies p hist'"
  "replies p ((q, c, r) # hist) = (if q = p then r # replies p hist else replies p hist)"
  by (simp_all add: replies_def)

lemma of_party_mem [simp]: "(c, r) \<in> set (of_party p hist) \<longleftrightarrow> (p, c, r) \<in> set hist"
  by (force simp: of_party_def)

lemma runs_prefix: "runs prog kern (hist @ hist') \<Longrightarrow> runs prog kern hist"
  by (induction hist' rule: rev_induct) (auto simp flip: append_assoc elim: runs_snocE)

lemma runs_at:
  assumes "runs prog kern (hist @ (p, c, r) # hist')"
  shows "prog p (replies p hist) = Some c" "kern hist p c r" "runs prog kern hist"
proof -
  have "runs prog kern (hist @ [(p, c, r)])"
    using assms runs_prefix [of prog kern "hist @ [(p, c, r)]" hist'] by simp
  then show "prog p (replies p hist) = Some c" "kern hist p c r" "runs prog kern hist"
    by (auto elim: runs_snocE)
qed

lemma runs_kern: "runs prog kern hist \<Longrightarrow> (p, c, r) \<in> set hist \<Longrightarrow> \<exists>a. kern a p c r"
  by (auto dest!: split_list runs_at(2))

lemma next_call_Some: "next_call m rs = Some c \<longleftrightarrow> fst (m (fresh rs)) = Blocked c"
  by (simp add: next_call_def split: result.split)

lemma calls_used:
  assumes "on_demand m"
  shows "map snd (calls (snd (m (fresh rs)))) @ answers (snd (m (fresh rs))) = rs"
  using on_demand_snd [OF assms, of "fresh rs"] by (auto simp: extends_def fresh_def start_def calls_def)

text \<open>A party's part of the log is what its program does on the replies in it.\<close>

lemma next_reply:
  assumes "on_demand m" "next_call m rs = Some c"
  shows "calls (snd (m (fresh (rs @ [r])))) = calls (snd (m (fresh rs))) @ [(c, r)]"
proof -
  obtain s' where s': "m (fresh rs) = (Blocked c, s')"
    using assms(2) by (cases "m (fresh rs)") (simp add: next_call_Some)
  have "more [r] (fresh rs) = fresh (rs @ [r])"
    by (simp add: more_def fresh_def start_def)
  moreover from on_demandD(2) [OF assms(1) s'] have "answers s' = []"
      "\<exists>es. trace (snd (m (more [r] (fresh rs)))) = trace s' @ Sys c r # es"
    by (simp_all add: resumes_def)
  ultimately obtain es where
    es: "answers s' = []" "trace (snd (m (fresh (rs @ [r])))) = trace s' @ Sys c r # es"
    by auto
  then have c: "calls (snd (m (fresh (rs @ [r])))) = calls s' @ (c, r) # concat (map call_of es)"
    by (simp add: calls_def)
  have "map snd (calls s') = rs"
    using calls_used [OF assms(1), of rs] s' es(1) by simp
  moreover from calls_used [OF assms(1), of "rs @ [r]"] c
  have "map snd (calls s') @ r # map snd (concat (map call_of es)) @ answers (snd (m (fresh (rs @ [r])))) = rs @ [r]"
    by simp
  ultimately have "concat (map call_of es) = []"
    by auto
  with c s' show ?thesis
    by simp
qed

lemma runs_calls:
  assumes "runs prog kern hist" "prog p = next_call m" "on_demand m"
  shows "of_party p hist = calls (snd (m (fresh (replies p hist))))"
  using assms(1)
proof (induction rule: runs.induct)
  case begin_run
  show ?case
    using calls_used [OF assms(3), of "[]"] by simp
next
  case (step_run hist q c r)
  then show ?case
    using next_reply [OF assms(3), of "replies p hist" c r] assms(2) by (auto simp: replies_simps)
qed

text \<open>Call number \<open>k\<close> of a party is what it waits in after \<open>k\<close> replies.\<close>

lemma nth_call:
  assumes "runs prog kern hist" "k < length (replies p hist)"
  shows "prog p (take k (replies p hist)) = Some (fst (of_party p hist ! k))"
  using assms
proof (induction rule: runs.induct)
  case (step_run hist q c r)
  then show ?case
    by (cases "k < length (replies p hist)") (auto simp: nth_append replies_def less_Suc_eq split: if_splits)
qed simp

text \<open>A program that uses up its replies waits, with fewer of them, in the call that got the next one.\<close>

lemma calls_next:
  assumes "on_demand m" "calls (snd (m (fresh rs))) = zip cs rs" "length cs = length rs" "k < length rs"
  shows "next_call m (take k rs) = Some (cs ! k)"
proof -
  let ?t = "take k rs" and ?d = "drop (Suc k) rs"
  have rs: "rs = ?t @ rs ! k # ?d"
    using assms(4) by (simp add: id_take_nth_drop)
  have more: "more (rs ! k # ?d) (fresh ?t) = fresh rs"
    by (subst (3) rs) (simp add: more_def fresh_def start_def)
  obtain e s' where run: "m (fresh ?t) = (e, s')"
    by (cases "m (fresh ?t)")
  from calls_used [OF assms(1), of ?t] run have used: "map snd (calls s') @ answers s' = ?t"
    by simp
  show ?thesis
  proof (cases "\<exists>c. e = Blocked c")
    case True
    then obtain c where c: "e = Blocked c"
      by blast
    with on_demandD(2) [OF assms(1) run] have "answers s' = []"
      "\<exists>es. trace (snd (m (more (rs ! k # ?d) (fresh ?t)))) = trace s' @ Sys c (rs ! k) # es"
      by (simp_all add: resumes_def)
    then obtain es where es: "answers s' = []" "trace (snd (m (fresh rs))) = trace s' @ Sys c (rs ! k) # es"
      unfolding more by blast
    with used assms(4) have "length (calls s') = k"
      by (metis append_Nil2 length_map length_take less_imp_le min.absorb2)
    moreover have "zip cs rs = calls s' @ (c, rs ! k) # concat (map call_of es)"
      using es(2) assms(2) by (simp add: calls_def)
    ultimately have "zip cs rs ! k = (c, rs ! k)"
      by (metis nth_append_length)
    with assms(3,4) run c show ?thesis
      by (simp add: next_call_Some)
  next
    case False
    with on_demandD(2) [OF assms(1) run] have "snd (m (more (rs ! k # ?d) (fresh ?t))) = more (rs ! k # ?d) s'"
      by (cases e) (auto simp: resumes_def)
    then have "snd (m (fresh rs)) = more (rs ! k # ?d) s'"
      unfolding more .
    with assms(2) have "calls s' = zip cs rs"
      by (simp add: more_def calls_def)
    with used assms(3,4) have "length rs \<le> k"
      by (metis length_append length_map length_take length_zip le_add1 min.absorb2 min.idem less_imp_le)
    with assms(4) show ?thesis
      by simp
  qed
qed

text \<open>A stretch of calls of one party.\<close>

lemma runs_stretch:
  assumes "runs prog kern hist" "length cs = length rs" "\<And>k. k < length rs \<Longrightarrow> prog p (replies p hist @ take k rs) = Some (cs ! k)"
    and "\<And>k. k < length rs \<Longrightarrow> kern (hist @ map (Pair p) (zip (take k cs) (take k rs))) p (cs ! k) (rs ! k)"
  shows "runs prog kern (hist @ map (Pair p) (zip cs rs))"
proof -
  have own: "replies p (map (Pair p) (zip xs ys)) = ys" if "length xs = length ys" for xs ys
    using that by (induction xs ys rule: list_induct2) simp_all
  have "runs prog kern (hist @ map (Pair p) (zip (take n cs) (take n rs)))" if "n \<le> length rs" for n
    using that
  proof (induction n)
    case (Suc n)
    then have "runs prog kern (hist @ map (Pair p) (zip (take n cs) (take n rs)) @ [(p, cs ! n, rs ! n)])"
      using assms(2-4) step_run [of prog kern "hist @ map (Pair p) (zip (take n cs) (take n rs))"] by (simp add: own)
    with Suc.prems assms(2) show ?case
      by (simp add: take_Suc_conv_app_nth)
  qed (simp add: assms(1))
  from this [of "length rs"] assms(2) show ?thesis
    by simp
qed

lemma runs_part:
  assumes "runs prog kern hist" "prog p = next_call m" "on_demand m"
    and "calls (snd (m (fresh rs))) = zip cs rs" "length cs = length rs" "replies p hist = take i rs" "i + n \<le> length rs"
    and "\<And>k. k < n \<Longrightarrow> kern (hist @ map (Pair p) (zip (take k (drop i cs)) (take k (drop i rs)))) p (cs ! (i + k)) (rs ! (i + k))"
  shows "runs prog kern (hist @ map (Pair p) (zip (take n (drop i cs)) (take n (drop i rs))))"
proof (rule runs_stretch [OF assms(1)])
  fix k
  assume "k < length (take n (drop i rs))"
  with assms(7) have k: "i + k < length rs" "k < n"
    by auto
  with calls_next [OF assms(3-5) k(1)] assms(2,5-7)
  show "prog p (replies p hist @ take k (take n (drop i rs))) = Some (take n (drop i cs) ! k)"
    by (simp add: take_add)
  show "kern (hist @ map (Pair p) (zip (take k (take n (drop i cs))) (take k (take n (drop i rs))))) p
      (take n (drop i cs) ! k) (take n (drop i rs) ! k)"
    using k assms(5,7) assms(8) [OF k(2)] by simp
qed (simp add: assms(5))

text \<open>A party that is over makes no more calls.\<close>

lemma over_stays: "runs prog kern (hist @ hist') \<Longrightarrow> prog p (replies p hist) = None \<Longrightarrow> replies p (hist @ hist') = replies p hist"
proof (induction hist' rule: rev_induct)
  case (snoc e hist')
  obtain q c r where e: "e = (q, c, r)"
    by (cases e)
  with snoc.prems(1) have "runs prog kern ((hist @ hist') @ (q, c, r) # [])"
    by simp
  note at = runs_at [OF this]
  from snoc.IH [OF at(3) snoc.prems(2)] at(1) snoc.prems(2) e show ?case
    by auto
qed simp

text \<open>The first call of a party.\<close>

lemma first_call:
  assumes "runs prog kern hist" "(p, c, r) \<in> set hist"
  obtains a c0 r0 b where "hist = a @ (p, c0, r0) # b" "replies p a = []" "prog p [] = Some c0" "kern a p c0 r0"
    "\<And>c r. (p, c, r) \<notin> set a"
proof -
  from assms(2) have "\<exists>x \<in> set hist. fst x = p"
    by force
  then obtain a x b where hist: "hist = a @ x # b" "fst x = p" "\<And>y. y \<in> set a \<Longrightarrow> fst y \<noteq> p"
    by (elim split_at_first) blast
  then have "replies p a = []"
    by (auto simp: replies_def of_party_def filter_empty_conv)
  moreover obtain c0 r0 where "x = (p, c0, r0)"
    using hist(2) by (cases x) auto
  ultimately show ?thesis
    using that [of a c0 r0 b] runs_at [of prog kern a p c0 r0 b] hist assms(1) by force
qed

text \<open>A program that ends within \<open>n\<close> calls has at most \<open>n\<close> entries in a log.\<close>

lemma within_next: "within n m \<Longrightarrow> next_call m rs = Some c \<Longrightarrow> length rs < n"
  unfolding within_def next_call_Some fresh_def by (metis linorder_not_less start_obs(1))

lemma runs_within:
  assumes "runs prog kern hist" "prog p = next_call m" "within n m"
  shows "length (of_party p hist) \<le> n"
  using assms(1)
proof (induction rule: runs.induct)
  case (step_run hist q c r)
  then show ?case
    using within_next [OF assms(3), of "replies p hist" c] assms(2) by (auto simp: replies_def)
qed simp

text \<open>A log is as long as the parts of its parties together.\<close>

lemma length_by_party:
  assumes "finite P" "fst ` set hist \<subseteq> P"
  shows "length hist = (\<Sum>p \<in> P. length (of_party p hist))"
  using assms(2)
proof (induction hist)
  case (Cons e hist)
  obtain q c r where e: "e = (q, c, r)"
    by (cases e)
  with Cons have "(\<Sum>p \<in> P. length (of_party p (e # hist))) = (\<Sum>p \<in> P. length (of_party p hist) + (if p = q then 1 else 0))"
    by (intro sum.cong) auto
  with Cons assms(1) e show ?case
    by (simp add: sum.distrib)
qed simp

text \<open>A run with a kernel that is a function, following a schedule: who makes the next step.\<close>

fun drive :: "('p \<Rightarrow> reply list \<Rightarrow> call option) \<Rightarrow> (('p \<times> call \<times> reply) list \<Rightarrow> 'p \<Rightarrow> call \<Rightarrow> reply option) \<Rightarrow>
    ('p \<times> call \<times> reply) list \<Rightarrow> 'p list \<Rightarrow> ('p \<times> call \<times> reply) list option" where
  "drive prog answer hist [] = Some hist"
| "drive prog answer hist (p # ps) = (case prog p (replies p hist) of None \<Rightarrow> None
     | Some c \<Rightarrow> (case answer hist p c of None \<Rightarrow> None | Some r \<Rightarrow> drive prog answer (hist @ [(p, c, r)]) ps))"

lemma drive_runs:
  "runs prog (\<lambda>hist p c r. answer hist p c = Some r) hist \<Longrightarrow> drive prog answer hist ps = Some hist' \<Longrightarrow>
     runs prog (\<lambda>hist p c r. answer hist p c = Some r) hist'"
  by (induction ps arbitrary: hist) (auto split: option.splits intro: step_run)

end
