(* ===== verification/Namespace_System.thy ===== *)
theory Namespace_System
  imports Namespace Interleaving
begin

text \<open>
  \<^verbatim>\<open>mkuidns.c\<close> as a whole: \<^verbatim>\<open>main\<close> and the function of the clone, running concurrently.
\<close>

subsection \<open>The system and its kernel\<close>

datatype uidns_party = Parent | Child

fun uidns_prog :: "int \<Rightarrow> string list \<Rightarrow> string list \<Rightarrow> uidns_party \<Rightarrow> reply list \<Rightarrow> call option" where
  "uidns_prog rd argv envp Parent = next_call (mkuidns_main argv)"
| "uidns_prog rd argv envp Child = next_call (childfunc rd (drop 1 argv) envp)"

text \<open>
  What the program relies on: \<^verbatim>\<open>socketpair\<close> gives the two ends; \<^verbatim>\<open>open\<close> never gives a descriptor that is
  open already; the child does not exist before the \<^verbatim>\<open>clone\<close>; a read of one end returns only after a write
  to the other, which stays open in both processes.
\<close>

locale socket_pair =
  fixes kern :: "(uidns_party \<times> call \<times> reply) list \<Rightarrow> uidns_party \<Rightarrow> call \<Rightarrow> reply \<Rightarrow> bool"
    and rd wr :: int
  assumes ends: "kern hist p Socketpair r \<Longrightarrow> outs r = [rd, wr]"
    and unused: "kern hist p (Open path flags) r \<Longrightarrow> rv r \<noteq> wr"
    and read_waits: "kern hist p (Read rd n) r \<Longrightarrow> \<exists>q t r'. (q, Write wr t, r') \<in> set hist"

lemma demand_check [demand_intros]: "on_demand (block ms) \<Longrightarrow> on_demand (check c ms)"
  by (auto simp: check_def intro!: demand_intros)

lemma demand_print_args [demand_intros]: "on_demand (print_args k as)"
  by (induction k arbitrary: as) (auto split: list.split intro!: demand_intros)

lemma demand_bind_mount [demand_intros]: "on_demand (block ms) \<Longrightarrow> on_demand (bind_mount source target ms)"
  by (auto simp: bind_mount_def sprintf_buf_def intro!: demand_intros)

lemma demand_childfunc: "on_demand (childfunc sock args envp)"
  by (auto simp: childfunc_def run_command_def exec_command_def split: list.split intro!: demand_intros)

lemma demand_mkuidns: "on_demand (mkuidns_main argv)"
  by (auto simp: mkuidns_main_def mkuidns_parent_def write_proc_def intro!: demand_intros)

text \<open>The calls of \<^verbatim>\<open>main\<close> up to the message to the child.\<close>

definition uidns_setup :: "string list \<Rightarrow> int \<Rightarrow> int \<Rightarrow> int \<Rightarrow> int \<Rightarrow> int \<Rightarrow> int \<Rightarrow> int \<Rightarrow> call list" where
  "uidns_setup argv wr pid f1 uid f2 f3 gid = [
     Socketpair, Malloc 1048576, Clone CLONE_FLAGS (drop 1 argv),
     Open (proc_file pid ''uid_map'') 1, Getuid, Write f1 (take 11 (map_line uid)), Close f1,
     Open (proc_file pid ''setgroups'') 1, Write f2 ''deny\<newline>'', Close f2,
     Open (proc_file pid ''gid_map'') 1, Getgid, Write f3 (take 11 (map_line gid)), Close f3,
     Write wr ''go'']"

definition is_set_up :: "string list \<Rightarrow> int \<Rightarrow> (uidns_party \<times> call \<times> reply) list \<Rightarrow> bool" where
  "is_set_up argv wr hist \<longleftrightarrow> (\<exists>pid f1 uid f2 f3 gid rest.
     map fst (of_party Parent hist) = uidns_setup argv wr pid f1 uid f2 f3 gid @ rest)"

lemma is_set_up_append: "is_set_up argv wr hist \<Longrightarrow> is_set_up argv wr (hist @ hist')"
  unfolding is_set_up_def by fastforce

text \<open>How \<^verbatim>\<open>main\<close> can end, and in which calls it can wait.\<close>

definition uidns_failed :: "call \<Rightarrow> reply \<Rightarrow> bool" where
  "uidns_failed c r \<longleftrightarrow> (c = Socketpair \<and> rv r < 0) \<or> (c = Malloc 1048576 \<and> rv r = 0) \<or>
     (\<exists>flags args. c = Clone flags args \<and> rv r = -1) \<or> (\<exists>path. c = Open path 1 \<and> rv r = -1) \<or>
     (\<exists>pid. c = Waitpid pid 0 \<and> rv r \<le> 0)"

definition uidns_outcome :: "string list \<Rightarrow> unit result \<Rightarrow> process \<Rightarrow> bool" where
  "uidns_outcome argv e s' \<longleftrightarrow>
     (\<forall>fd t. e = Blocked (Write fd t) \<longrightarrow>
       (\<exists>path f. (Open path 1, f) \<in> set (calls s') \<and> fd = rv f) \<or>
       (\<exists>sp pid f1 uid f2 f3 gid. (Socketpair, sp) \<in> set (calls s') \<and> fd = out_int 1 sp \<and>
         map fst (calls s') @ [Write fd t] = uidns_setup argv fd pid f1 uid f2 f3 gid)) \<and>
     (\<forall>fd n. e \<noteq> Blocked (Read fd n)) \<and>
     (e = Exited 0 \<or> (\<exists>pid opts. e = Blocked (Waitpid pid opts)) \<longrightarrow>
       (\<exists>sp r. (Socketpair, sp) \<in> set (calls s') \<and> (Write (out_int 1 sp) ''go'', r) \<in> set (calls s'))) \<and>
     (e = Exited 2 \<longrightarrow> length (calls s') < 15) \<and>
     ((\<exists>c. e = Blocked c) \<or> e = Exited 0 \<or> (\<exists>(c, r) \<in> set (calls s'). uidns_failed c r))"

lemma main_outcome: "ends (mkuidns_main argv) (fresh rs) (uidns_outcome argv)"
  unfolding mkuidns_main_def mkuidns_parent_def write_proc_def
  apply (auto intro!: ends_intros simp: ends_step obs_simps fresh_def uidns_outcome_def uidns_failed_def uidns_setup_def)
  apply blast+
  done

text \<open>A write to the message socket is the message, after the whole set-up.\<close>

context socket_pair
begin

lemma opened: "runs prog kern hist \<Longrightarrow> (p, Open path flags, r) \<in> set hist \<Longrightarrow> rv r \<noteq> wr"
  using runs_kern unused by metis

lemma paired: "runs prog kern hist \<Longrightarrow> (p, Socketpair, r) \<in> set hist \<Longrightarrow> out_int 1 r = wr"
  by (auto dest!: runs_kern ends simp: out_int_def)

lemma message_after_setup:
  assumes "runs (uidns_prog rd argv envp) kern hist" "(Parent, Write wr t, r) \<in> set hist"
  shows "is_set_up argv wr hist"
proof -
  obtain a b where hist: "hist = a @ (Parent, Write wr t, r) # b"
    using assms(2) by (auto dest: split_list)
  note at = runs_at [OF assms(1) [unfolded hist]]
  let ?s = "snd (mkuidns_main argv (fresh (replies Parent a)))"
  have calls: "of_party Parent a = calls ?s"
    by (rule runs_calls [OF at(3) _ demand_mkuidns]) simp
  from at(1) have "fst (mkuidns_main argv (fresh (replies Parent a))) = Blocked (Write wr t)"
    by (simp add: next_call_Some)
  with endsD [OF main_outcome, of argv "replies Parent a"] obtain pid f1 uid f2 f3 gid where
    "map fst (of_party Parent a) @ [Write wr t] = uidns_setup argv wr pid f1 uid f2 f3 gid"
    unfolding uidns_outcome_def by (metis calls of_party_mem opened [OF at(3)] paired [OF at(3)])
  then have "is_set_up argv wr (a @ [(Parent, Write wr t, r)])"
    unfolding is_set_up_def by fastforce
  from is_set_up_append [OF this, of b] show ?thesis
    by (simp add: hist)
qed

lemma child_after_setup:
  assumes "runs (uidns_prog rd argv envp) kern (hist @ [(Child, c, r)])"
  shows "is_set_up argv wr hist"
proof -
  obtain a c0 r0 b where a: "hist @ [(Child, c, r)] = a @ (Child, c0, r0) # b"
    "uidns_prog rd argv envp Child [] = Some c0" "kern a Child c0 r0" "\<And>c r. (Child, c, r) \<notin> set a"
    using first_call [OF assms, of Child c r] by (metis in_set_conv_decomp)
  have "c0 = Read rd 2"
    using a(2) by (simp add: next_call_Some childfunc_def fresh_def run_simps obs_simps)
  with a(3) obtain q t r' where w: "(q, Write wr t, r') \<in> set a"
    using read_waits by blast
  with a(4) have "q = Parent"
    by (cases q) auto
  moreover have "runs (uidns_prog rd argv envp) kern a"
    using assms unfolding a(1) by (rule runs_prefix)
  ultimately have "is_set_up argv wr a"
    using message_after_setup w by blast
  moreover obtain d where "hist = a @ d"
    using a(1) by (cases b rule: rev_cases) auto
  ultimately show ?thesis
    by (simp add: is_set_up_append)
qed

end

text \<open>C4. \<^verbatim>\<open>mkuidns.c\<close>, parent and child running concurrently, in every interleaving and on every kernel on which a
  read of one end of the socket pair returns only after a write to the other: whenever the child has completed any call,
  the parent has, in this order, created it, written the user map, denied \<^verbatim>\<open>setgroups\<close>, written the group map and
  sent the message. In particular nothing is mounted and no command is run before the maps are written.\<close>

theorem uidns_child_waits:
  assumes "socket_pair kern rd wr" "runs (uidns_prog rd argv envp) kern (before @ (Child, c, r) # after)"
  shows "\<exists>pid f1 uid f2 f3 gid rest. map fst (of_party Parent before) = uidns_setup argv wr pid f1 uid f2 f3 gid @ rest"
proof -
  have "runs (uidns_prog rd argv envp) kern (before @ [(Child, c, r)])"
    using assms(2) runs_prefix [of _ _ "before @ [(Child, c, r)]" after] by simp
  from socket_pair.child_after_setup [OF assms(1) this] show ?thesis
    by (simp add: is_set_up_def)
qed

text \<open>When the parent cannot open a map file it exits with 2 after a \<^verbatim>\<open>kill\<close> with \<^verbatim>\<open>SIGTERM\<close>. The child is the first process
  of a new process namespace, for which signals of another namespace without a handler are dropped: it stays in its read.\<close>

theorem uidns_orphan:
  assumes "socket_pair kern rd wr" "runs (uidns_prog rd argv envp) kern hist"
    and "fst (mkuidns_main argv (fresh (replies Parent hist))) = Exited 2"
  shows "uidns_prog rd argv envp Child (replies Child hist) = Some (Read rd 2) \<and> of_party Child hist = []"
proof -
  have "of_party Parent hist = calls (snd (mkuidns_main argv (fresh (replies Parent hist))))"
    by (rule runs_calls [OF assms(2) _ demand_mkuidns]) simp
  with endsD [OF main_outcome, of argv "replies Parent hist"] assms(3)
  have short: "length (of_party Parent hist) < 15"
    by (simp add: uidns_outcome_def)
  have none: "(Child, c, r) \<notin> set hist" for c r
  proof
    assume "(Child, c, r) \<in> set hist"
    then obtain a b where hist: "hist = a @ (Child, c, r) # b"
      by (auto dest: split_list)
    with assms(2) have "runs (uidns_prog rd argv envp) kern (a @ [(Child, c, r)])"
      using runs_prefix [of _ _ "a @ [(Child, c, r)]" b] by simp
    from socket_pair.child_after_setup [OF assms(1) this] have "15 \<le> length (map fst (of_party Parent a))"
      by (auto simp: is_set_up_def uidns_setup_def)
    with short show False
      by (simp add: hist)
  qed
  have "of_party Child hist = []"
    using none by (auto simp: of_party_def filter_empty_conv)
  then show ?thesis
    by (simp add: replies_def next_call_Some childfunc_def fresh_def run_simps obs_simps)
qed

subsection \<open>Both come to an end\<close>

lemma within_print_args [within_intros]: "within 0 (print_args k as)"
proof (induction k arbitrary: as)
  case (Suc k)
  with within_bindS [OF within_basic(3)] show ?case
    by (fastforce split: list.split intro: within_basic)
qed (simp add: within_basic)

lemma within_bind_mount [within_intros]: "within n (block ms) \<Longrightarrow> within (2 + n) (bind_mount source target ms)"
  unfolding bind_mount_def sprintf_buf_def check_def
  by (rule within_mono, (rule within_intros | assumption)+) simp

lemma within_command [within_intros]: "within 3 (run_command cmdargs envp)"
  unfolding run_command_def exec_command_def check_def
  by (cases cmdargs, simp_all del: block.simps) (rule within_mono, (rule within_intros)+, simp)+

lemma within_childfunc: "within 12 (childfunc sock args envp)"
  unfolding childfunc_def check_def
  by (cases args, simp_all del: block.simps) (rule within_mono, (rule within_intros)+, simp)+

lemma within_mkuidns: "within 19 (mkuidns_main argv)"
  unfolding mkuidns_main_def mkuidns_parent_def write_proc_def
  by (rule within_mono, (rule within_intros)+) simp

lemma length_parties: "length hist = length (of_party Parent hist) + length (of_party Child hist)"
proof -
  have "filter (\<lambda>e. fst e = Child) hist = filter (\<lambda>e. fst e \<noteq> Parent) hist"
    by (rule filter_cong) (auto intro: uidns_party.exhaust)
  then show ?thesis
    using sum_length_filter_compl [of "\<lambda>e. fst e = Parent" hist] by (simp add: of_party_def)
qed

text \<open>The child never waits for another process.\<close>

lemma asks_print_args [asks_intros]: "asks C (print_args k as)"
  by (induction k arbitrary: as) (auto split: list.split intro!: asks_intros)

lemma child_asks: "asks (\<lambda>c. \<forall>pid opts. c \<noteq> Waitpid pid opts) (childfunc sock args envp)"
  unfolding childfunc_def bind_mount_def sprintf_buf_def check_def run_command_def exec_command_def
  by (auto split: list.split intro!: asks_intros)

text \<open>
  What the program needs to get to its end: no call fails, every call returns, except that the read waits for a
  write to the other end, and \<^verbatim>\<open>waitpid\<close> for the end of the child.
\<close>

locale live_socket_pair = socket_pair +
  fixes over :: "(uidns_party \<times> call \<times> reply) list \<Rightarrow> bool"
  assumes succeeds: "kern hist p c r \<Longrightarrow> \<not> uidns_failed c r"
    and returns: "(\<And>n. c \<noteq> Read rd n) \<Longrightarrow> (\<And>pid opts. c \<noteq> Waitpid pid opts) \<Longrightarrow> \<exists>r. kern hist p c r"
    and delivers: "(q, Write wr t, r') \<in> set hist \<Longrightarrow> \<exists>r. kern hist p (Read rd n) r"
    and waits: "over hist \<Longrightarrow> \<exists>r. kern hist p (Waitpid pid opts) r"
begin

lemma never_failed: "runs prog kern hist \<Longrightarrow> (p, c, r) \<in> set hist \<Longrightarrow> \<not> uidns_failed c r"
  using runs_kern succeeds by metis

lemma stuck_end:
  assumes over: "\<And>hist. over hist \<longleftrightarrow> uidns_prog rd argv envp Child (replies Child hist) = None"
    and run: "runs (uidns_prog rd argv envp) kern hist"
    and stuck: "\<And>p c r. \<not> runs (uidns_prog rd argv envp) kern (hist @ [(p, c, r)])"
  shows "fst (mkuidns_main argv (fresh (replies Parent hist))) = Exited 0 \<and> over hist"
proof -
  let ?m = "mkuidns_main argv (fresh (replies Parent hist))"
  let ?c = "childfunc rd (drop 1 argv) envp (fresh (replies Child hist))"
  have blocked: "\<not> kern hist p c r" if "uidns_prog rd argv envp p (replies p hist) = Some c" for p c r
    using stuck step_run [OF run that] by blast
  have calls: "of_party Parent hist = calls (snd ?m)"
    by (rule runs_calls [OF run _ demand_mkuidns]) simp
  note out = endsD [OF main_outcome, of argv "replies Parent hist", unfolded uidns_outcome_def, folded calls]
  have told: "over hist" if sp: "(Socketpair, sp) \<in> set (of_party Parent hist)" and
    w: "(Write (out_int 1 sp) ''go'', r) \<in> set (of_party Parent hist)" for sp r
  proof (rule ccontr)
    assume "\<not> over hist"
    then obtain c where c: "next_call (childfunc rd (drop 1 argv) envp) (replies Child hist) = Some c"
      using over by auto
    then have "c \<noteq> Waitpid pid opts" for pid opts
      using asksD [OF child_asks] by (auto simp: next_call_Some)
    moreover have "(Parent, Write wr ''go'', r) \<in> set hist"
      using w paired [OF run, of Parent sp] sp by simp
    ultimately show False
      using blocked [of Child c] c returns [of c hist Child] delivers [of Parent "''go''" r hist Child] by force
  qed
  have "fst ?m \<noteq> Blocked c" for c
  proof
    assume c: "fst ?m = Blocked c"
    with blocked [of Parent c] have no: "\<not> kern hist Parent c r" for r
      by (simp add: next_call_Some)
    with returns [of c hist Parent] out c obtain pid opts where "c = Waitpid pid opts"
      by metis
    with out told c no waits show False
      by metis
  qed
  with out never_failed [OF run, of Parent] have "fst ?m = Exited 0"
    by fastforce
  with out told show ?thesis
    by metis
qed

end

text \<open>C13. \<^verbatim>\<open>mkuidns.c\<close> comes to an end: on every kernel that completes the calls without errors, parent and child together make
  at most 31 calls in every interleaving, they never wait for each other for ever, and when no call is left to
  complete, the parent has exited with 0 and the child has ended or become the command.\<close>

theorem uidns_completes:
  assumes "live_socket_pair kern rd wr (\<lambda>hist. uidns_prog rd argv envp Child (replies Child hist) = None)" "runs (uidns_prog rd argv envp) kern hist"
  shows "length hist \<le> 31 \<and> ((\<forall>p c r. \<not> runs (uidns_prog rd argv envp) kern (hist @ [(p, c, r)])) \<longrightarrow>
    fst (mkuidns_main argv (fresh (replies Parent hist))) = Exited 0 \<and>
    (\<forall>c. fst (childfunc rd (drop 1 argv) envp (fresh (replies Child hist))) \<noteq> Blocked c))"
proof (intro conjI impI)
  have "length (of_party Parent hist) \<le> 19" "length (of_party Child hist) \<le> 12"
    using runs_within [OF assms(2) _ within_mkuidns, of Parent argv]
      runs_within [OF assms(2) _ within_childfunc, of Child rd "drop 1 argv" envp] by simp_all
  then show "length hist \<le> 31"
    using length_parties [of hist] by simp
next
  assume "\<forall>p c r. \<not> runs (uidns_prog rd argv envp) kern (hist @ [(p, c, r)])"
  with live_socket_pair.stuck_end [OF assms(1) _ assms(2)]
  have "fst (mkuidns_main argv (fresh (replies Parent hist))) = Exited 0" "uidns_prog rd argv envp Child (replies Child hist) = None"
    by simp_all
  then show "fst (mkuidns_main argv (fresh (replies Parent hist))) = Exited 0"
      "\<forall>c. fst (childfunc rd (drop 1 argv) envp (fresh (replies Child hist))) \<noteq> Blocked c"
    by (auto simp: next_call_def split: result.splits)
qed

subsection \<open>A kernel\<close>

text \<open>A kernel on which everything succeeds; the socket pair has the descriptors 3 and 4.\<close>

fun writes_to :: "int \<Rightarrow> call \<Rightarrow> bool" where
  "writes_to fd (Call f [I n, S t]) \<longleftrightarrow> f = ''write'' \<and> n = fd"
| "writes_to fd c \<longleftrightarrow> False"

fun reads_from :: "int \<Rightarrow> call \<Rightarrow> bool" where
  "reads_from fd (Call f [I n, I k]) \<longleftrightarrow> f = ''read'' \<and> n = fd"
| "reads_from fd c \<longleftrightarrow> False"

fun waits_for :: "call \<Rightarrow> bool" where
  "waits_for (Call f [I pid, I opts]) \<longleftrightarrow> f = ''waitpid''"
| "waits_for c \<longleftrightarrow> False"

fun call_name :: "call \<Rightarrow> string" where
  "call_name (Call f args) = f"

definition child_over :: "string list \<Rightarrow> string list \<Rightarrow> (uidns_party \<times> call \<times> reply) list \<Rightarrow> bool" where
  "child_over argv envp hist \<longleftrightarrow> uidns_prog 3 argv envp Child (replies Child hist) = None"

definition uidns_answer :: "string list \<Rightarrow> string list \<Rightarrow> (uidns_party \<times> call \<times> reply) list \<Rightarrow> uidns_party \<Rightarrow> call \<Rightarrow> reply option" where
  "uidns_answer argv envp hist p c =
     (if reads_from 3 c then (if list_ex (\<lambda>e. writes_to 4 (fst (snd e))) hist then Some (rep 2) else None)
      else if waits_for c then (if child_over argv envp hist then Some (exited_with 42 0) else None)
      else if call_name c = ''socketpair'' then Some ((rep 0)\<lparr>outs := [3, 4]\<rparr>)
      else if call_name c = ''open'' then Some (rep 5)
      else if call_name c = ''clone'' then Some (rep 42)
      else if call_name c = ''malloc'' then Some (rep 4096)
      else Some (rep 0))"

lemma call_shapes:
  "writes_to fd c \<longleftrightarrow> (\<exists>t. c = Write fd t)" "reads_from fd c \<longleftrightarrow> (\<exists>n. c = Read fd n)"
  "waits_for c \<longleftrightarrow> (\<exists>pid opts. c = Waitpid pid opts)"
proof -
  show "writes_to fd c \<longleftrightarrow> (\<exists>t. c = Write fd t)"
    by (cases "(fd, c)" rule: writes_to.cases) auto
  show "reads_from fd c \<longleftrightarrow> (\<exists>n. c = Read fd n)"
    by (cases "(fd, c)" rule: reads_from.cases) auto
  show "waits_for c \<longleftrightarrow> (\<exists>pid opts. c = Waitpid pid opts)"
    by (cases c rule: waits_for.cases) auto
qed

interpretation uidns: live_socket_pair "\<lambda>hist p c r. uidns_answer argv envp hist p c = Some r" 3 4 "child_over argv envp" for argv envp
proof
  show "\<exists>q t r'. (q, Write 4 t, r') \<in> set hist" if "uidns_answer argv envp hist p (Read 3 n) = Some r" for hist p n r
    using that by (auto simp: uidns_answer_def list_ex_iff call_shapes split: if_splits) blast
  show "\<exists>r. uidns_answer argv envp hist p (Read 3 n) = Some r" if "(q, Write 4 t, r') \<in> set hist" for q t r' hist p n
    using that by (force simp: uidns_answer_def list_ex_iff call_shapes)
  show "\<exists>r. uidns_answer argv envp hist p c = Some r" if "\<And>n. c \<noteq> Read 3 n" "\<And>pid opts. c \<noteq> Waitpid pid opts" for c hist p
    using that by (simp add: uidns_answer_def call_shapes)
qed (auto simp: uidns_answer_def uidns_failed_def split: if_splits)

abbreviation sample_args :: "string list" where "sample_args \<equiv> [''mkuidns'', ''/newroot'', ''/bin/sh'']"

lemma sample_run:
  "\<exists>hist r. drive (uidns_prog 3 sample_args []) (uidns_answer sample_args []) [] (replicate 15 Parent @ [Child]) =
    Some (hist @ [(Child, Read 3 2, r)])"
  by (simp add: numeral_eq_Suc next_call_def fresh_def mkuidns_main_def mkuidns_parent_def write_proc_def childfunc_def
      run_simps obs_simps bindS_skip uidns_answer_def out_int_def)

theorem uidns_completes_witness:
  "\<exists>hist. drive (uidns_prog 3 sample_args []) (uidns_answer sample_args []) [] (replicate 15 Parent @ [Child]) = Some hist \<and>
    length hist \<le> 31"
proof -
  obtain hist where d: "drive (uidns_prog 3 sample_args []) (uidns_answer sample_args []) [] (replicate 15 Parent @ [Child]) = Some hist"
    using sample_run by blast
  from uidns_completes [OF uidns.live_socket_pair_axioms [of sample_args "[]", unfolded child_over_def] drive_runs [OF begin_run d]] d
  show ?thesis
    by blast
qed

theorem uidns_child_waits_witness:
  "\<exists>hist r pid f1 uid f2 f3 gid rest.
    drive (uidns_prog 3 sample_args []) (uidns_answer sample_args []) [] (replicate 15 Parent @ [Child]) =
      Some (hist @ [(Child, Read 3 2, r)]) \<and>
    map fst (of_party Parent hist) = uidns_setup sample_args 4 pid f1 uid f2 f3 gid @ rest"
proof -
  obtain hist r where d: "drive (uidns_prog 3 sample_args []) (uidns_answer sample_args []) [] (replicate 15 Parent @ [Child]) =
      Some (hist @ [(Child, Read 3 2, r)])"
    using sample_run by blast
  from uidns_child_waits [OF uidns.socket_pair_axioms drive_runs [OF begin_run d]] d show ?thesis
    by blast
qed

end
