(* ===== verification/Lock_System.thy ===== *)
theory Lock_System
  imports Robust_Lock Interleaving
begin

text \<open>
  \<^verbatim>\<open>threadlockfail.c\<close> as a whole: \<^verbatim>\<open>main\<close> and its two threads on shared memory.
\<close>

unbundle bit_operations_syntax

subsection \<open>The system and its memory\<close>

datatype lock_party = Main | T1 | T2

fun lock_prog :: "int \<Rightarrow> int \<Rightarrow> int \<Rightarrow> lock_party \<Rightarrow> reply list \<Rightarrow> call option" where
  "lock_prog w head lock Main = next_call threadlockfail_main"
| "lock_prog w head lock T1 = next_call (thread1 w head lock)"
| "lock_prog w head lock T2 = next_call (thread2 w head lock)"

text \<open>What a completed call leaves in the word at \<open>a\<close> that held \<open>v\<close>.\<close>

fun word_after :: "int \<Rightarrow> call \<Rightarrow> reply \<Rightarrow> int \<Rightarrow> int" where
  "word_after a (Call f [I b, I e, I d]) r v = (if f = ''compare_exchange'' \<and> b = a \<and> rv r \<noteq> 0 then d else v)"
| "word_after a (Call f [I b, I d]) r v = (if f = ''store_int'' \<and> b = a then d else v)"
| "word_after a c r v = v"

definition word_at :: "int \<Rightarrow> (lock_party \<times> call \<times> reply) list \<Rightarrow> int" where
  "word_at a hist = fold (\<lambda>(p, c, r). word_after a c r) hist 0"

lemma word_at_simps [simp]:
  "word_at a [] = 0" "word_at a (hist @ [(p, c, r)]) = word_after a c r (word_at a hist)"
  by (simp_all add: word_at_def)

text \<open>
  What the threads rely on: a load returns the word, an exchange succeeds only on the expected value, \<^verbatim>\<open>pthread_create\<close>
  gives the handles \<open>h1\<close> and \<open>h2\<close>, \<^verbatim>\<open>pthread_self\<close> returns the thread's own handle, a join returns only when the thread is
  over, and the second thread does not run before it is created. Nothing but these calls changes the word: the
  kernel does not when the first thread ends, see \<open>robust_entry_misses_lock\<close>.
\<close>

locale lock_memory =
  fixes kern :: "(lock_party \<times> call \<times> reply) list \<Rightarrow> lock_party \<Rightarrow> call \<Rightarrow> reply \<Rightarrow> bool"
    and w head lock h1 h2 :: int
  assumes places: "w \<noteq> 0" "head \<noteq> lock"
    and load: "kern hist p (Load_int lock) r \<Longrightarrow> out_int 0 r = word_at lock hist"
    and exchange: "kern hist p (Cas lock e d) r \<Longrightarrow> rv r \<noteq> 0 \<Longrightarrow> word_at lock hist = e"
    and handles: "kern hist p (Pthread_create ''thread1'' 0) r \<Longrightarrow> out_int 0 r = h1"
      "kern hist p (Pthread_create ''thread2'' 0) r \<Longrightarrow> out_int 0 r = h2"
    and self: "kern hist T1 Pthread_self r \<Longrightarrow> rv r = h1"
    and joined: "kern hist p (Pthread_join h1) r \<Longrightarrow> lock_prog w head lock T1 (replies T1 hist) = None"
      "kern hist p (Pthread_join h2) r \<Longrightarrow> lock_prog w head lock T2 (replies T2 hist) = None"
    and created: "kern hist T2 c r \<Longrightarrow> \<exists>r'. (Main, Pthread_create ''thread2'' 0, r') \<in> set hist"

lemma demand_lock_acquire [demand_intros]: "on_demand (lock_acquire w head lock)"
  by (auto simp: lock_acquire_def lock_body_def futex_wait_def intro!: demand_intros)

lemma demand_threads:
  "on_demand (thread1 w head lock)" "on_demand (thread2 w head lock)" "on_demand threadlockfail_main"
  by (auto simp: thread1_def set_robust_def thread2_def thread2_end_def lock_release_def futex_wake_def
      threadlockfail_main_def intro!: demand_intros)

text \<open>The first thread is over only after it has taken the lock, and stores nothing else in the word.\<close>

definition has_lock :: "int \<Rightarrow> int \<Rightarrow> process \<Rightarrow> bool" where
  "has_lock lock v s \<longleftrightarrow> (\<exists>r. (Cas lock 0 v, r) \<in> set (calls s) \<and> rv r \<noteq> 0)"

definition since :: "process \<Rightarrow> process \<Rightarrow> bool" where
  "since s s' \<longleftrightarrow> set (calls s) \<subseteq> set (calls s')"

lemma since_simps [simp]: "since s s" "since s s1 \<Longrightarrow> since s (logged c r s1)"
  by (auto simp: since_def obs_simps)

lemma ends_lock_loop:
  assumes taken: "\<And>s'. since s s' \<Longrightarrow> has_lock lock (int32 tid) s' \<Longrightarrow> ends (g ()) s' Q"
    and cas: "\<And>s'. since s s' \<Longrightarrow> Q (Blocked (Cas lock 0 (int32 tid))) s'"
    and wait: "\<And>s'. since s s' \<Longrightarrow> Q (Blocked (Futex_wait lock 0)) s'"
  shows "ends (bindS (do_while (lock_body lock tid)) g) s Q"
proof (rule ends_do_while [of "since s"])
  fix s1
  assume s1: "since s s1"
  have "ends (g ()) (logged (Cas lock 0 (int32 tid)) r s1) Q" if "rv r \<noteq> 0" for r
    using that s1 by (intro taken) (auto simp: has_lock_def obs_simps)
  with s1 cas wait show "ends (lock_body lock tid) s1 (\<lambda>e s'. case e of
      Ret b \<Rightarrow> length (answers s') < length (answers s1) \<and> (if b then since s s' else ends (g ()) s' Q)
    | Exited n \<Rightarrow> Q (Exited n) s' | Signalled n \<Rightarrow> Q (Signalled n) s' | Replaced p a e \<Rightarrow> Q (Replaced p a e) s'
    | Blocked c \<Rightarrow> Q (Blocked c) s' | Undefined w \<Rightarrow> Q (Undefined w) s' | Spins \<Rightarrow> Q Spins s')"
    unfolding lock_body_def futex_wait_def by (auto intro!: ends_intros simp: ends_step obs_simps)
qed simp

definition t1_outcome :: "int \<Rightarrow> int \<Rightarrow> int \<Rightarrow> unit result \<Rightarrow> process \<Rightarrow> bool" where
  "t1_outcome w head lock e s \<longleftrightarrow>
     (\<forall>a v. e = Blocked (Store_int a v) \<longrightarrow> a = lock + w \<or> a = head) \<and>
     (\<forall>a x v. e = Blocked (Cas a x v) \<longrightarrow> a = lock \<and> x = 0 \<and> (\<exists>r. (Pthread_self, r) \<in> set (calls s) \<and> v = int32 (rv r))) \<and>
     ((\<forall>c. e \<noteq> Blocked c) \<longrightarrow> (\<exists>r. (Pthread_self, r) \<in> set (calls s) \<and> has_lock lock (int32 (rv r)) s))"

lemma t1_ends: "ends (thread1 w head lock) s (t1_outcome w head lock)"
  unfolding thread1_def set_robust_def lock_acquire_def
  by (auto intro!: ends_intros ends_lock_loop simp: ends_step obs_simps t1_outcome_def has_lock_def since_def) blast+

text \<open>The second thread stores in the word only what it found to be dead, or has taken, and is over only after it has
  taken the lock.\<close>

definition t2_outcome :: "int \<Rightarrow> int \<Rightarrow> int \<Rightarrow> unit result \<Rightarrow> process \<Rightarrow> bool" where
  "t2_outcome w head lock e s \<longleftrightarrow>
     (\<forall>a v. e = Blocked (Store_int a v) \<longrightarrow> a = lock + w \<or> a = head \<or> (\<exists>v. has_lock lock v s) \<or>
       (\<exists>r. (Load_int lock, r) \<in> set (calls s) \<and> bit (out_int 0 r) FUTEX_OWNER_DIED_BIT)) \<and>
     (\<forall>a x v. e = Blocked (Cas a x v) \<longrightarrow> a = lock \<and> x = 0) \<and>
     (\<forall>a x. e = Blocked (Futex_wait a x) \<longrightarrow> a = lock \<and> x = 0) \<and>
     ((\<forall>c. e \<noteq> Blocked c) \<longrightarrow> (\<exists>v. has_lock lock v s))"

lemma t2_ends: "ends (thread2 w head lock) s (t2_outcome w head lock)"
  unfolding thread2_def lock_acquire_def thread2_end_def lock_release_def futex_wake_def
  by (auto intro!: ends_intros ends_lock_loop simp: ends_step obs_simps t2_outcome_def has_lock_def) blast+

text \<open>\<^verbatim>\<open>main\<close> joins the first thread before it creates the second, which it joins before it ends.\<close>

definition main_outcome :: "unit result \<Rightarrow> process \<Rightarrow> bool" where
  "main_outcome e s \<longleftrightarrow>
     (e = Blocked (Pthread_create ''thread2'' 0) \<longrightarrow> (\<exists>t r. (Pthread_create ''thread1'' 0, t) \<in> set (calls s) \<and>
       (Pthread_join (out_int 0 t), r) \<in> set (calls s))) \<and>
     ((\<forall>c. e \<noteq> Blocked c) \<longrightarrow> (\<exists>t r. (Pthread_create ''thread2'' 0, t) \<in> set (calls s) \<and>
       (Pthread_join (out_int 0 t), r) \<in> set (calls s))) \<and>
     (\<forall>a x v. e \<noteq> Blocked (Cas a x v)) \<and> (\<forall>a v. e \<noteq> Blocked (Store_int a v))"

lemma main_ends: "ends threadlockfail_main s main_outcome"
  unfolding threadlockfail_main_def
  by (auto intro!: ends_intros simp: ends_step obs_simps main_outcome_def) blast+

subsection \<open>The lock stays taken\<close>

lemma word_after_other:
  "(\<And>e d. c \<noteq> Cas a e d) \<Longrightarrow> (\<And>d. c \<noteq> Store_int a d) \<Longrightarrow> word_after a c r v = v"
  by (induction a c r v rule: word_after.induct) auto

definition took :: "lock_party \<Rightarrow> int \<Rightarrow> (lock_party \<times> call \<times> reply) list \<Rightarrow> bool" where
  "took p lock hist \<longleftrightarrow> (\<exists>d r. (p, Cas lock 0 d, r) \<in> set hist \<and> rv r \<noteq> 0)"

lemma took_append: "took p lock hist \<Longrightarrow> took p lock (hist @ hist')"
  by (auto simp: took_def)

context lock_memory
begin

abbreviation "lock_runs \<equiv> runs (lock_prog w head lock) kern"

lemma parts:
  assumes "lock_runs hist"
  shows "of_party Main hist = calls (snd (threadlockfail_main (fresh (replies Main hist))))"
    "of_party T1 hist = calls (snd (thread1 w head lock (fresh (replies T1 hist))))"
    "of_party T2 hist = calls (snd (thread2 w head lock (fresh (replies T2 hist))))"
  using runs_calls [OF assms _ demand_threads(3), of Main] runs_calls [OF assms _ demand_threads(1), of T1]
    runs_calls [OF assms _ demand_threads(2), of T2] by simp_all

lemma created_handles:
  assumes "lock_runs hist"
  shows "(p, Pthread_create ''thread1'' 0, r) \<in> set hist \<Longrightarrow> out_int 0 r = h1"
    "(p, Pthread_create ''thread2'' 0, r) \<in> set hist \<Longrightarrow> out_int 0 r = h2"
    "(T1, Pthread_self, r) \<in> set hist \<Longrightarrow> rv r = h1"
  using assms by (auto dest!: split_list runs_at(2) handles self)

lemma over_took:
  assumes "lock_runs hist"
  shows "lock_prog w head lock T1 (replies T1 hist) = None \<Longrightarrow> took T1 lock hist"
    "lock_prog w head lock T2 (replies T2 hist) = None \<Longrightarrow> took T2 lock hist"
  using endsD [OF t1_ends, of w head lock "fresh (replies T1 hist)"] endsD [OF t2_ends, of w head lock "fresh (replies T2 hist)"]
  unfolding t1_outcome_def t2_outcome_def has_lock_def parts [OF assms, symmetric] took_def
  by (auto simp: next_call_def split: result.splits)

lemma joined_took:
  assumes "lock_runs hist"
  shows "(p, Pthread_join h1, r) \<in> set hist \<Longrightarrow> took T1 lock hist" "(p, Pthread_join h2, r) \<in> set hist \<Longrightarrow> took T2 lock hist"
proof -
  have "took q lock hist" if "(p, Pthread_join h, r) \<in> set hist" "(q, h) = (T1, h1) \<or> (q, h) = (T2, h2)" for q h
  proof -
    from that(1) obtain a b where hist: "hist = a @ (p, Pthread_join h, r) # b"
      by (auto dest: split_list)
    note at = runs_at [OF assms [unfolded hist]]
    from that(2) at(2) have "took q lock a"
      using joined over_took [OF at(3)] by auto
    then show ?thesis
      by (simp add: hist took_append)
  qed
  then show "(p, Pthread_join h1, r) \<in> set hist \<Longrightarrow> took T1 lock hist" "(p, Pthread_join h2, r) \<in> set hist \<Longrightarrow> took T2 lock hist"
    by blast+
qed

lemma second_runs:
  assumes "lock_runs hist" "kern hist T2 c r"
  shows "took T1 lock hist"
proof -
  obtain r' where "(Main, Pthread_create ''thread2'' 0, r') \<in> set hist"
    using created [OF assms(2)] by blast
  then obtain a b where hist: "hist = a @ (Main, Pthread_create ''thread2'' 0, r') # b"
    by (auto dest: split_list)
  note at = runs_at [OF assms(1) [unfolded hist]]
  obtain t r where "(Main, Pthread_create ''thread1'' 0, t) \<in> set a" "(Main, Pthread_join (out_int 0 t), r) \<in> set a"
    using endsD [OF main_ends, of "fresh (replies Main a)"] at(1)
    unfolding main_outcome_def parts [OF at(3), symmetric] by (auto simp: next_call_Some)
  then show ?thesis
    using created_handles(1) [OF at(3)] joined_took(1) [OF at(3)] by (auto simp: hist took_append)
qed

text \<open>The word is what the first thread left there; the second finds it taken and not marked.\<close>

lemma stays_taken:
  assumes "lock_runs hist" "\<not> bit h1 30" "int32 h1 \<noteq> 0"
  shows "word_at lock hist = (if took T1 lock hist then int32 h1 else 0) \<and> \<not> took T2 lock hist \<and>
    (\<forall>r. (T2, Load_int lock, r) \<in> set hist \<longrightarrow> out_int 0 r = int32 h1)"
  using assms(1)
proof (induction rule: runs.induct)
  case begin_run
  then show ?case by (simp add: took_def)
next
  case (step_run hist p c r)
  note parts = parts [OF step_run(1)]
  show ?case
  proof (cases p)
    case Main
    with endsD [OF main_ends, of "fresh (replies Main hist)"] step_run(2)
    have "word_after lock c r v = v" for v
      by (intro word_after_other) (auto simp: main_outcome_def next_call_Some)
    with step_run.IH Main show ?thesis
      by (auto simp: took_def)
  next
    case T1
    note out = endsD [OF t1_ends, of w head lock "fresh (replies T1 hist)", unfolded t1_outcome_def parts [symmetric]]
    have "word_after lock c r (word_at lock hist) = (if took T1 lock (hist @ [(T1, c, r)]) then int32 h1 else 0)"
    proof (cases "\<exists>e d. c = Cas lock e d")
      case True
      with out step_run(2) T1 created_handles(3) [OF step_run(1)] have "c = Cas lock 0 (int32 h1)"
        by (auto simp: next_call_Some)
      with step_run.IH show ?thesis
        by (auto simp: took_def)
    next
      case False
      moreover have "c \<noteq> Store_int lock d" for d
        using out step_run(2) T1 places by (auto simp: next_call_Some)
      ultimately have "word_after lock c r v = v" for v
        by (intro word_after_other) auto
      with step_run.IH False show ?thesis
        by (auto simp: took_def)
    qed
    with step_run.IH T1 show ?thesis
      by (auto simp: took_def)
  next
    case T2
    with second_runs [OF step_run(1), of c r] step_run have held: "took T1 lock hist" "word_at lock hist = int32 h1"
      by simp_all
    note out = endsD [OF t2_ends, of w head lock "fresh (replies T2 hist)", unfolded t2_outcome_def has_lock_def parts [symmetric]]
    have no_store: "c \<noteq> Store_int lock d" for d
      using out step_run(2) T2 places step_run.IH assms(2) bit_int32 [of 30 h1] by (auto simp: next_call_Some took_def)
    have no_cas: "rv r = 0" if "c = Cas lock e d" for e d
    proof -
      from out step_run(2) T2 that have "e = 0"
        by (auto simp: next_call_Some)
      with exchange [of hist T2 e d r] step_run(3) T2 that held(2) assms(3) show ?thesis
        by auto
    qed
    have "word_after lock c r v = v" for v
      using no_cas no_store word_after_other [of c lock r v] by (cases "\<exists>e d. c = Cas lock e d") auto
    moreover have "out_int 0 r = int32 h1" if "c = Load_int lock"
      using load [of hist T2 r] step_run(3) T2 that held(2) by simp
    ultimately show ?thesis
      using step_run.IH T2 no_cas held by (auto simp: took_def)
  qed
qed

end

text \<open>C9. \<^verbatim>\<open>threadlockfail.c\<close>, \<^verbatim>\<open>main\<close> and both threads in every interleaving, on every memory in which loads, exchanges and joins
  do what they promise: unless bit 30 of the first thread's handle happens to be set, the second thread never recovers the
  lock. All its exchanges are refused, it never ends, so that \<^verbatim>\<open>main\<close> never ends either; and whenever it waits for the
  word to change from 0, the word is not 0, so that the wait returns at once and the thread spins.\<close>

theorem lock_never_recovered:
  assumes "lock_memory kern w head lock h1 h2" "\<not> bit h1 30" "int32 h1 \<noteq> 0" "runs (lock_prog w head lock) kern hist"
  shows "(\<forall>d r. (T2, Cas lock 0 d, r) \<in> set hist \<longrightarrow> rv r = 0) \<and>
    (\<exists>c. fst (thread2 w head lock (fresh (replies T2 hist))) = Blocked c) \<and>
    (\<exists>c. fst (threadlockfail_main (fresh (replies Main hist))) = Blocked c) \<and>
    (fst (thread2 w head lock (fresh (replies T2 hist))) = Blocked (Futex_wait lock 0) \<longrightarrow> word_at lock hist \<noteq> 0)"
proof -
  note stays = lock_memory.stays_taken [OF assms(1,4,2,3)]
  have "lock_prog w head lock T2 (replies T2 hist) \<noteq> None"
    using lock_memory.over_took(2) [OF assms(1,4)] stays by blast
  moreover have "lock_prog w head lock Main (replies Main hist) \<noteq> None"
  proof
    assume "lock_prog w head lock Main (replies Main hist) = None"
    then have "fst (threadlockfail_main (fresh (replies Main hist))) \<noteq> Blocked c" for c
      by (auto simp: next_call_def split: result.splits)
    with endsD [OF main_ends, of "fresh (replies Main hist)"] lock_memory.parts(1) [OF assms(1,4)]
    obtain t r where "(Main, Pthread_create ''thread2'' 0, t) \<in> set hist" "(Main, Pthread_join (out_int 0 t), r) \<in> set hist"
      unfolding main_outcome_def by (metis of_party_mem)
    with lock_memory.created_handles(2) [OF assms(1,4)] lock_memory.joined_took(2) [OF assms(1,4)] stays show False
      by metis
  qed
  moreover have "word_at lock hist \<noteq> 0" if "fst (thread2 w head lock (fresh (replies T2 hist))) = Blocked (Futex_wait lock 0)"
  proof -
    from that have "replies T2 hist \<noteq> []"
      by (auto simp: thread2_def fresh_def run_simps obs_simps)
    then obtain c r where "(T2, c, r) \<in> set hist"
      by (auto simp: replies_def of_party_def filter_empty_conv)
    then obtain a b where hist: "hist = a @ (T2, c, r) # b"
      by (auto dest: split_list)
    note at = runs_at [OF assms(4) [unfolded hist]]
    from lock_memory.second_runs [OF assms(1) at(3,2)] stays assms(3) show ?thesis
      by (simp add: hist took_append)
  qed
  ultimately show ?thesis
    using stays by (auto simp: next_call_def took_def split: result.splits)
qed

subsection \<open>A memory\<close>

text \<open>A kernel with this memory, on which no exchange fails without reason; a \<^verbatim>\<open>futex_wait\<close> on a word that has changed
  returns at once.\<close>

fun exchanges :: "int \<Rightarrow> call \<Rightarrow> int option" where
  "exchanges a (Call f [I b, I e, I d]) = (if f = ''compare_exchange'' \<and> b = a then Some e else None)"
| "exchanges a c = None"

definition lock_answer :: "int \<Rightarrow> int \<Rightarrow> int \<Rightarrow> int \<Rightarrow> int \<Rightarrow> (lock_party \<times> call \<times> reply) list \<Rightarrow> lock_party \<Rightarrow> call \<Rightarrow> reply option" where
  "lock_answer w head lock h1 h2 hist p c =
     (if p = T2 \<and> \<not> list_ex (\<lambda>e. fst e = Main \<and> fst (snd e) = Pthread_create ''thread2'' 0) hist then None
      else if c = Load_int lock then Some ((rep 0)\<lparr>outs := [word_at lock hist]\<rparr>)
      else if exchanges lock c \<noteq> None then Some (rep (if exchanges lock c = Some (word_at lock hist) then 1 else 0))
      else if c = Pthread_create ''thread1'' 0 then Some ((rep 0)\<lparr>outs := [h1]\<rparr>)
      else if c = Pthread_create ''thread2'' 0 then Some ((rep 0)\<lparr>outs := [h2]\<rparr>)
      else if c = Pthread_self then Some (rep (if p = T1 then h1 else h2))
      else if c = Pthread_join h1 then (if lock_prog w head lock T1 (replies T1 hist) = None then Some (rep 0) else None)
      else if c = Pthread_join h2 then (if lock_prog w head lock T2 (replies T2 hist) = None then Some (rep 0) else None)
      else Some (rep 0))"

lemma exchanges_cas [simp]: "exchanges a (Cas a e d) = Some e"
  by simp

interpretation memory: lock_memory "\<lambda>hist p c r. lock_answer 8 128 64 7 9 hist p c = Some r" 8 128 64 7 9
  by unfold_locales (auto simp: lock_answer_def list_ex_iff out_int_def split: if_splits)

theorem lock_never_recovered_witness:
  "\<exists>hist. drive (lock_prog 8 128 64) (lock_answer 8 128 64 7 9) [] (Main # replicate 6 T1 @ [Main, Main] @ replicate 4 T2) = Some hist \<and>
    fst (thread2 8 128 64 (fresh (replies T2 hist))) = Blocked (Futex_wait 64 0) \<and> word_at 64 hist \<noteq> 0 \<and>
    (\<exists>c. fst (threadlockfail_main (fresh (replies Main hist))) = Blocked c)"
proof -
  have "map_option (\<lambda>hist. lock_prog 8 128 64 T2 (replies T2 hist))
      (drive (lock_prog 8 128 64) (lock_answer 8 128 64 7 9) [] (Main # replicate 6 T1 @ [Main, Main] @ replicate 4 T2)) =
      Some (Some (Futex_wait 64 0))"
    by code_simp
  then obtain hist where hist: "lock_prog 8 128 64 T2 (replies T2 hist) = Some (Futex_wait 64 0)"
    "drive (lock_prog 8 128 64) (lock_answer 8 128 64 7 9) [] (Main # replicate 6 T1 @ [Main, Main] @ replicate 4 T2) = Some hist"
    by blast
  have "\<not> bit (7 :: int) 30" "int32 7 \<noteq> 0"
    by (simp_all add: bit_iff_odd int32_def)
  from lock_never_recovered [OF memory.lock_memory_axioms this drive_runs [OF begin_run hist(2)]] hist show ?thesis
    by (simp add: next_call_Some)
qed

end
