(* ===== verification/Pool_System.thy ===== *)
theory Pool_System
  imports Thread_Programs Interleaving
begin

text \<open>
  \<^verbatim>\<open>pthread.c\<close> as a whole: \<^verbatim>\<open>main\<close> and all the threads it creates.
\<close>

datatype pool_party = Creator | Worker int

fun pool_prog :: "string list \<Rightarrow> pool_party \<Rightarrow> reply list \<Rightarrow> call option" where
  "pool_prog argv Creator = next_call (pthread_main argv)"
| "pool_prog argv (Worker i) = next_call (pthread_print_thread_id i)"

text \<open>
  What the program relies on: threads can be created and get different handles, \<^verbatim>\<open>malloc\<close> succeeds, a thread runs only
  after it was created, and a join returns only when the thread is over, with its exit value.
\<close>

locale pool_kernel =
  fixes kern :: "(pool_party \<times> call \<times> reply) list \<Rightarrow> pool_party \<Rightarrow> call \<Rightarrow> reply \<Rightarrow> bool"
    and handle :: "int \<Rightarrow> int"
  assumes creates: "kern hist Creator (Pthread_create func i) r \<Longrightarrow> rv r = 0 \<and> out_int 0 r = handle i"
    and joins: "kern hist Creator (Pthread_join (handle i)) r \<Longrightarrow> rv r = 0 \<and>
      fst (pthread_print_thread_id i (fresh (replies (Worker i) hist))) = Ret (out_int 0 r)"
    and created: "kern hist (Worker i) c r \<Longrightarrow> \<exists>r'. (Creator, Pthread_create ''print_thread_id'' i, r') \<in> set hist"

lemma demand_pad [demand_intros]: "on_demand (pad_set i c pad)" "on_demand (thread_at hs i)"
  by (auto simp: pad_set_def pad_strlen_def pad_store_def thread_at_def intro!: demand_intros)

lemma demand_worker: "on_demand (pthread_print_thread_id i)"
  by (auto simp: pthread_print_thread_id_def intro!: demand_intros)

lemma demand_creator: "on_demand (pthread_main argv)"
  by (auto simp: pthread_main_def Let_def pthread_create_body_def pthread_join_body_def intro!: demand_intros)

text \<open>A thread that returns gives its own number, after it has printed its two lines.\<close>

definition worker_text :: "int \<Rightarrow> int \<Rightarrow> int \<Rightarrow> int \<Rightarrow> int \<Rightarrow> string" where
  "worker_text i pid tid pid' tid' = running_text i pid tid @ '' '' @ cstr (padded i PAD) @ ''\<newline>'' @
     running_text i pid' tid' @ '' ready to exit\<newline>''"

lemma worker_ends: "ends (pthread_print_thread_id i) (fresh rs) (\<lambda>e s'. \<forall>v. e = Ret v \<longrightarrow> v = i \<and>
    (\<exists>pid tid pid' tid'. printed s' = worker_text i pid tid pid' tid'))"
proof (cases rule: pad_set_cases [of i])
  case 1
  then show ?thesis
    unfolding pthread_print_thread_id_def
    by (auto intro!: ends_intros simp: ends_step obs_simps fresh_def worker_text_def) blast+
next
  case 2
  then show ?thesis
    unfolding pthread_print_thread_id_def
    by (auto intro!: ends_calls simp: ends_undefined)
qed

subsection \<open>Where \<^verbatim>\<open>main\<close> is\<close>

definition zero_reply :: "reply \<Rightarrow> bool" where
  "zero_reply r \<longleftrightarrow> rv r = 0"

definition pool_size :: "string list \<Rightarrow> nat" where
  "pool_size argv = nat (pthread_num_threads argv)"

lemma pool_size_le: "int (pool_size argv) \<le> MAXTHREADS"
  by (auto simp: pool_size_def pthread_num_threads_def)

lemma num_threads_loop: "for_loop 0 (pthread_num_threads argv) body v = for_loop 0 (int (pool_size argv)) body v"
  by (auto simp: for_loop_def pool_size_def)

lemma pthread_main_start:
  "\<exists>s. pthread_main argv (start m rs) = bindS (for_loop 0 (int (pool_size argv)) pthread_create_body []) (\<lambda>threads.
      bindS (for_loop 0 (int (pool_size argv)) (pthread_join_body threads) PAD) (\<lambda>_ s. (Exited 0, flush_out s))) s \<and>
    answers s = rs \<and> printed s = arg0 argv @ '' will create '' @ fmt_d (pthread_num_threads argv) @ '' threads\<newline>''"
  by (intro exI [of _ "flush_out (put_out (arg0 argv @ '' will create '' @ fmt_d (pthread_num_threads argv) @ '' threads\<newline>'') (start m rs))"])
    (simp add: pthread_main_def Let_def num_threads_loop run_simps obs_simps)

lemma main_creates:
  assumes "list_all zero_reply rs" "length rs < pool_size argv"
  shows "next_call (pthread_main argv) rs = Some (Pthread_create ''print_thread_id'' (int (length rs) + 1))"
proof -
  obtain s where s: "pthread_main argv (fresh rs) = bindS (for_loop 0 (int (pool_size argv)) pthread_create_body []) (\<lambda>threads.
      bindS (for_loop 0 (int (pool_size argv)) (pthread_join_body threads) PAD) (\<lambda>_ s. (Exited 0, flush_out s))) s" "answers s = rs"
    using pthread_main_start [of argv Unbuffered rs] by (auto simp: fresh_def)
  show ?thesis
    using assms pool_size_le [of argv]
    by (simp add: next_call_Some s(1) pthread_cl.create_waits [OF s(2)] zero_reply_def [abs_def])
qed

lemma main_after_creates:
  assumes "list_all zero_reply cs" "length cs = pool_size argv"
  shows "\<exists>s. pthread_main argv (fresh (cs @ js)) = bindS (for_loop 0 (int (length cs)) (pthread_join_body (map (out_int 0) cs)) PAD)
      (\<lambda>_ s. (Exited 0, flush_out s)) s \<and> answers s = js \<and>
    printed s = arg0 argv @ '' will create '' @ fmt_d (pthread_num_threads argv) @ '' threads\<newline>''"
proof -
  obtain s where s: "pthread_main argv (fresh (cs @ js)) = bindS (for_loop 0 (int (pool_size argv)) pthread_create_body []) (\<lambda>threads.
      bindS (for_loop 0 (int (pool_size argv)) (pthread_join_body threads) PAD) (\<lambda>_ s. (Exited 0, flush_out s))) s" "answers s = cs @ js"
      "printed s = arg0 argv @ '' will create '' @ fmt_d (pthread_num_threads argv) @ '' threads\<newline>''"
    using pthread_main_start [of argv Unbuffered "cs @ js"] by (auto simp: fresh_def)
  then show ?thesis
    using assms pool_size_le [of argv]
    by (intro exI [of _ "created ''print_thread_id'' (\<lambda>i. i + 1) 0 cs s"])
      (simp add: pthread_cl.creates [OF s(2)] zero_reply_def [abs_def] obs_simps)
qed

lemma main_joins:
  assumes "list_all zero_reply cs" "length cs = pool_size argv" "list_all zero_reply js" "length js < length cs"
  shows "next_call (pthread_main argv) (cs @ js) = Some (Pthread_join (out_int 0 (cs ! length js)))"
proof -
  obtain s where s: "pthread_main argv (fresh (cs @ js)) = bindS (for_loop 0 (int (length cs)) (pthread_join_body (map (out_int 0) cs)) PAD)
      (\<lambda>_ s. (Exited 0, flush_out s)) s" "answers s = js"
    using main_after_creates [OF assms(1,2), of js] by auto
  have "\<exists>s'. pthread_main argv (fresh (cs @ js)) = (Blocked (Pthread_join (map (out_int 0) cs ! length js)), s')"
    unfolding s(1) using assms(3,4) s(2)
    by (intro pthread_jl.join_blocks) (auto simp: pad_ok_def zero_reply_def [abs_def])
  with assms(4) show ?thesis
    by (auto simp: next_call_Some)
qed

lemma main_done:
  assumes "list_all zero_reply cs" "length cs = pool_size argv" "list_all zero_reply js" "length js = length cs"
  shows "\<exists>s'. pthread_main argv (fresh (cs @ js)) = (Exited 0, s') \<and>
    written s' = arg0 argv @ '' will create '' @ fmt_d (pthread_num_threads argv) @ '' threads\<newline>'' @
      join_text unpadded_line 0 (zip (map (out_int 0) cs) js)"
proof -
  obtain s where s: "pthread_main argv (fresh (cs @ js)) = bindS (for_loop 0 (int (length cs)) (pthread_join_body (map (out_int 0) cs)) PAD)
      (\<lambda>_ s. (Exited 0, flush_out s)) s" "answers s = js @ []"
    "printed s = arg0 argv @ '' will create '' @ fmt_d (pthread_num_threads argv) @ '' threads\<newline>''"
    using main_after_creates [OF assms(1,2), of js] by auto
  from pthread_jl.joins [OF _ s(2), of PAD "map (out_int 0) cs" "int (length cs)"] assms obtain p s1 where
    "for_loop 0 (int (length cs)) (pthread_join_body (map (out_int 0) cs)) PAD s = (Ret p, s1)"
    "printed s1 = printed s @ join_text unpadded_line 0 (zip (map (out_int 0) cs) js)"
    by (auto simp: pad_ok_def zero_reply_def [abs_def])
  with s show ?thesis
    by (simp add: bindS_result(1) obs_simps)
qed

subsection \<open>The system\<close>

text \<open>The reply that \<^verbatim>\<open>main\<close> gets to its call number \<open>j\<close>, of the \<open>2 * n\<close> it makes.\<close>

definition expected :: "(int \<Rightarrow> int) \<Rightarrow> nat \<Rightarrow> nat \<Rightarrow> int" where
  "expected handle n j = (if j < n then handle (int j + 1) else int (j - n) + 1)"

definition replies_ok :: "(int \<Rightarrow> int) \<Rightarrow> nat \<Rightarrow> reply list \<Rightarrow> bool" where
  "replies_ok handle n rs \<longleftrightarrow> length rs \<le> 2 * n \<and>
     (\<forall>j < length rs. zero_reply (rs ! j) \<and> out_int 0 (rs ! j) = expected handle n j)"

lemma replies_ok_fine: "replies_ok handle n rs \<Longrightarrow> list_all zero_reply (take k rs) \<and> list_all zero_reply (drop k rs)"
  by (auto simp: replies_ok_def list_all_length)

text \<open>The call in which \<^verbatim>\<open>main\<close> waits after such replies.\<close>

definition creator_call :: "(int \<Rightarrow> int) \<Rightarrow> nat \<Rightarrow> nat \<Rightarrow> call option" where
  "creator_call handle n k =
     (if k < n then Some (Pthread_create ''print_thread_id'' (int k + 1))
      else if k < 2 * n then Some (Pthread_join (handle (int (k - n) + 1)))
      else None)"

lemma creator_at:
  assumes "replies_ok handle (pool_size argv) rs"
  shows "next_call (pthread_main argv) rs = creator_call handle (pool_size argv) (length rs)"
proof -
  let ?n = "pool_size argv" and ?cs = "take (pool_size argv) rs" and ?js = "drop (pool_size argv) rs"
  note ok = replies_ok_fine [OF assms, of ?n]
  consider "length rs < ?n" | "?n \<le> length rs" "length rs < 2 * ?n" | "length rs = 2 * ?n"
    using assms unfolding replies_ok_def by linarith
  then show ?thesis
  proof cases
    case 1
    then show ?thesis
      using ok main_creates [of rs argv] by (simp add: creator_call_def)
  next
    case 2
    then have "next_call (pthread_main argv) (?cs @ ?js) = Some (Pthread_join (out_int 0 (?cs ! length ?js)))"
      using ok by (intro main_joins) auto
    moreover have "length rs - ?n < ?n"
      using 2 by linarith
    ultimately show ?thesis
      using 2 assms by (simp add: creator_call_def replies_ok_def expected_def)
  next
    case 3
    then have "\<exists>s'. pthread_main argv (fresh (?cs @ ?js)) = (Exited 0, s')"
      using main_done [of ?cs argv ?js] ok by auto
    with 3 show ?thesis
      by (auto simp: creator_call_def next_call_def)
  qed
qed

context pool_kernel
begin

lemma creator_replies:
  assumes "runs (pool_prog argv) kern hist"
  shows "replies_ok handle (pool_size argv) (replies Creator hist)"
  using assms
proof (induction rule: runs.induct)
  case begin_run
  then show ?case by (simp add: replies_ok_def)
next
  case (step_run hist p c r)
  let ?rs = "replies Creator hist"
  show ?case
  proof (cases "p = Creator")
    case True
    with step_run(2) creator_at [OF step_run.IH] have c: "creator_call handle (pool_size argv) (length ?rs) = Some c"
      by simp
    have "zero_reply r \<and> out_int 0 r = expected handle (pool_size argv) (length ?rs)"
    proof (cases "length ?rs < pool_size argv")
      case True
      with c creates step_run(3) \<open>p = Creator\<close> show ?thesis
        by (auto simp: creator_call_def expected_def zero_reply_def)
    next
      case False
      let ?i = "int (length ?rs - pool_size argv) + 1"
      from False c have "c = Pthread_join (handle ?i)"
        by (auto simp: creator_call_def split: if_splits)
      with joins [of hist ?i r] step_run(3) \<open>p = Creator\<close> endsD [OF worker_ends, of ?i "replies (Worker ?i) hist"] False show ?thesis
        by (auto simp: zero_reply_def expected_def)
    qed
    with step_run.IH True c show ?thesis
      by (auto simp: replies_ok_def nth_append less_Suc_eq creator_call_def split: if_splits)
  qed (use step_run.IH in simp)
qed

text \<open>A thread that was joined is over.\<close>

lemma joined_over:
  assumes "runs (pool_prog argv) kern hist" "(Creator, Pthread_join (handle i), r) \<in> set hist"
  shows "\<exists>v. fst (pthread_print_thread_id i (fresh (replies (Worker i) hist))) = Ret v"
proof -
  obtain a b where hist: "hist = a @ (Creator, Pthread_join (handle i), r) # b"
    using assms(2) by (auto dest: split_list)
  note at = runs_at [OF assms(1) [unfolded hist]]
  from joins [OF at(2)] have over: "fst (pthread_print_thread_id i (fresh (replies (Worker i) a))) = Ret (out_int 0 r)"
    by simp
  then have "pool_prog argv (Worker i) (replies (Worker i) a) = None"
    by (simp add: next_call_def)
  with over_stays [OF assms(1) [unfolded hist], of "Worker i"] over show ?thesis
    by (auto simp: hist)
qed

lemma creator_nth:
  assumes "runs (pool_prog argv) kern hist" "k < length (replies Creator hist)"
  shows "creator_call handle (pool_size argv) k = Some (fst (of_party Creator hist ! k))"
proof -
  have "replies_ok handle (pool_size argv) (take k (replies Creator hist))"
    using creator_replies [OF assms(1)] by (auto simp: replies_ok_def)
  from creator_at [OF this] nth_call [OF assms] assms(2) show ?thesis
    by simp
qed

lemma creator_made:
  assumes "runs (pool_prog argv) kern hist" "k < length (replies Creator hist)" "creator_call handle (pool_size argv) k = Some c"
  shows "\<exists>r. (Creator, c, r) \<in> set hist"
proof -
  have "of_party Creator hist ! k \<in> set (of_party Creator hist)"
    using assms(2) by (intro nth_mem) (simp add: replies_def)
  with creator_nth [OF assms(1,2)] assms(3) show ?thesis
    by (metis of_party_mem option.inject prod.collapse)
qed

lemma finished:
  assumes "runs (pool_prog argv) kern hist" "pool_prog argv Creator (replies Creator hist) = None"
  shows "length (replies Creator hist) = 2 * pool_size argv"
  using creator_at [OF creator_replies [OF assms(1)]] creator_replies [OF assms(1)] assms(2)
  by (auto simp: creator_call_def replies_ok_def split: if_splits)

lemma all_joined:
  assumes "runs (pool_prog argv) kern hist" "length (replies Creator hist) = 2 * pool_size argv" "1 \<le> i" "i \<le> int (pool_size argv)"
  shows "\<exists>r. (Creator, Pthread_join (handle i), r) \<in> set hist"
proof -
  let ?k = "pool_size argv + nat (i - 1)"
  have "?k < length (replies Creator hist)" "creator_call handle (pool_size argv) ?k = Some (Pthread_join (handle i))"
    using assms(2-4) by (auto simp: creator_call_def)
  from creator_made [OF assms(1) this] show ?thesis .
qed

lemma workers:
  assumes "runs (pool_prog argv) kern hist" "(Worker i, c, r) \<in> set hist"
  shows "1 \<le> i \<and> i \<le> int (pool_size argv)"
proof -
  obtain a b where hist: "hist = a @ (Worker i, c, r) # b"
    using assms(2) by (auto dest: split_list)
  note at = runs_at [OF assms(1) [unfolded hist]]
  from created [OF at(2)] obtain r' where "(Pthread_create ''print_thread_id'' i, r') \<in> set (of_party Creator a)"
    by auto
  then obtain k where "k < length (replies Creator a)" "fst (of_party Creator a ! k) = Pthread_create ''print_thread_id'' i"
    by (auto simp: in_set_conv_nth replies_def)
  with creator_nth [OF at(3), of k] show ?thesis
    by (auto simp: creator_call_def split: if_splits)
qed

end

lemma join_text_map:
  "length hs = length rs \<Longrightarrow> join_text line i (zip hs rs) = concat (map (\<lambda>j. line (i + int j) (hs ! j) (rs ! j)) [0..<length rs])"
proof (induction line i "zip hs rs" arbitrary: hs rs rule: join_text.induct)
  case (2 line i h r hrs)
  then obtain hs' rs' where l: "hs = h # hs'" "rs = r # rs'" "hrs = zip hs' rs'" "length hs' = length rs'"
    by (cases hs; cases rs) auto
  have "[0..<length rs] = 0 # map Suc [0..<length rs']"
    by (simp add: l(2) upt_conv_Cons map_Suc_upt del: upt_Suc)
  with 2(1) [OF l(3,4)] l show ?case
    by (simp add: comp_def ac_simps)
qed (auto simp: zip_eq_Nil_iff)

text \<open>C5. \<^verbatim>\<open>pthread.c\<close>, \<^verbatim>\<open>main\<close> and all its threads, in every interleaving: when \<^verbatim>\<open>main\<close> has ended it has exited with 0 and has
  written the announcement and then, in the order of creation, one line for each of the \<open>n\<close> threads with that thread's own
  number as its exit value; and every thread has ended with its number and has printed its two lines.\<close>

theorem pthread_system_output:
  assumes "pool_kernel kern handle" "runs (pool_prog argv) kern hist" "pool_prog argv Creator (replies Creator hist) = None"
  shows "(\<exists>s'. pthread_main argv (fresh (replies Creator hist)) = (Exited 0, s') \<and>
      written s' = arg0 argv @ '' will create '' @ fmt_d (pthread_num_threads argv) @ '' threads\<newline>'' @
        concat (map (\<lambda>j. ''Joined with thread '' @ fmt_d (int j) @ '' which exited 0x'' @ fmt_x (int j + 1) @ '' \<newline>'')
          [0..<pool_size argv])) \<and>
    (\<forall>i \<in> {1..int (pool_size argv)}. \<exists>s' pid tid pid' tid'.
      pthread_print_thread_id i (fresh (replies (Worker i) hist)) = (Ret i, s') \<and> printed s' = worker_text i pid tid pid' tid')"
proof (intro conjI ballI)
  let ?n = "pool_size argv" and ?rs = "replies Creator hist"
  have n: "length ?rs = 2 * ?n"
    by (rule pool_kernel.finished [OF assms])
  have ok: "replies_ok handle ?n ?rs"
    by (rule pool_kernel.creator_replies [OF assms(1,2)])
  let ?cs = "take ?n ?rs" and ?js = "drop ?n ?rs"
  have "join_text unpadded_line 0 (zip (map (out_int 0) ?cs) ?js) =
      concat (map (\<lambda>j. unpadded_line (int j) (map (out_int 0) ?cs ! j) (?js ! j)) [0..<?n])"
    using join_text_map [of "map (out_int 0) ?cs" ?js unpadded_line 0] n by simp
  also have "\<dots> = concat (map (\<lambda>j. ''Joined with thread '' @ fmt_d (int j) @ '' which exited 0x'' @ fmt_x (int j + 1) @ '' \<newline>'') [0..<?n])"
    using ok n by (intro arg_cong [where f = concat] map_cong) (auto simp: unpadded_line_def replies_ok_def expected_def)
  finally show "\<exists>s'. pthread_main argv (fresh ?rs) = (Exited 0, s') \<and>
      written s' = arg0 argv @ '' will create '' @ fmt_d (pthread_num_threads argv) @ '' threads\<newline>'' @
        concat (map (\<lambda>j. ''Joined with thread '' @ fmt_d (int j) @ '' which exited 0x'' @ fmt_x (int j + 1) @ '' \<newline>'') [0..<?n])"
    using main_done [of ?cs argv ?js] replies_ok_fine [OF ok, of ?n] n by simp
  fix i
  assume "i \<in> {1..int ?n}"
  then obtain v where "fst (pthread_print_thread_id i (fresh (replies (Worker i) hist))) = Ret v"
    using pool_kernel.all_joined [OF assms(1,2) n, of i] pool_kernel.joined_over [OF assms(1,2), of i] by auto
  with endsD [OF worker_ends, of i "replies (Worker i) hist"]
  show "\<exists>s' pid tid pid' tid'. pthread_print_thread_id i (fresh (replies (Worker i) hist)) = (Ret i, s') \<and>
      printed s' = worker_text i pid tid pid' tid'"
    by (metis prod.collapse)
qed

subsection \<open>All come to an end\<close>

text \<open>
  What the program needs to get to its end: \<^verbatim>\<open>malloc\<close> succeeds, every call of a thread that exists returns, and a join
  returns when the thread is over.
\<close>

locale live_pool = pool_kernel +
  assumes memory: "kern hist p (Malloc k) r \<Longrightarrow> rv r \<noteq> 0"
    and returns: "(\<And>h. c \<noteq> Pthread_join h) \<Longrightarrow>
      (\<And>i. p = Worker i \<Longrightarrow> \<exists>r'. (Creator, Pthread_create ''print_thread_id'' i, r') \<in> set hist) \<Longrightarrow> \<exists>r. kern hist p c r"
    and join_returns: "fst (pthread_print_thread_id i (fresh (replies (Worker i) hist))) = Ret v \<Longrightarrow>
      \<exists>r. kern hist Creator (Pthread_join (handle i)) r"

text \<open>A thread never joins another, makes at most six calls, and ends with a value unless it got no memory.\<close>

lemma worker_outcome: "0 \<le> i \<Longrightarrow> i < 2 ^ 64 \<Longrightarrow> ends (pthread_print_thread_id i) (fresh rs) (\<lambda>e s'. (\<exists>c. e = Blocked c \<and> (\<forall>h. c \<noteq> Pthread_join h)) \<or>
    e = Ret i \<or> (\<exists>r. (Malloc 4, r) \<in> set (calls s') \<and> rv r = 0))"
  unfolding pthread_print_thread_id_def by (auto intro!: ends_intros simp: pad_thread_set ends_step obs_simps fresh_def)

lemma within_pad [within_intros]: "within 0 (pad_set i c pad)"
  by (auto simp: within_def pad_set_def pad_strlen_def pad_store_def bindS_def ret_def undefined_behaviour_def)

lemma within_worker: "within 6 (pthread_print_thread_id i)"
  unfolding pthread_print_thread_id_def by (rule within_mono, (rule within_intros)+) simp

context live_pool
begin

lemma worker_over:
  assumes run: "runs (pool_prog argv) kern hist" and stuck: "\<And>p c r. \<not> runs (pool_prog argv) kern (hist @ [(p, c, r)])"
    and made: "(Creator, Pthread_create ''print_thread_id'' i, r') \<in> set hist" and i: "1 \<le> i" "i \<le> int (pool_size argv)"
  shows "fst (pthread_print_thread_id i (fresh (replies (Worker i) hist))) = Ret i"
proof -
  let ?w = "pthread_print_thread_id i (fresh (replies (Worker i) hist))"
  have "of_party (Worker i) hist = calls (snd ?w)"
    by (rule runs_calls [OF run _ demand_worker]) simp
  then have "(Worker i, Malloc 4, r) \<in> set hist" if "(Malloc 4, r) \<in> set (calls (snd ?w))" for r
    using that by (metis of_party_mem)
  then have "\<not> (\<exists>r. (Malloc 4, r) \<in> set (calls (snd ?w)) \<and> rv r = 0)"
    using runs_kern [OF run] memory by metis
  moreover have False if "fst ?w = Blocked c" "\<And>h. c \<noteq> Pthread_join h" for c
    using returns [OF that(2), of "Worker i" hist] made step_run [OF run, of "Worker i" c] that(1) stuck
    by (auto simp: next_call_Some)
  ultimately show ?thesis
    using endsD [OF worker_outcome, of i "replies (Worker i) hist"] i pool_size_le [of argv] by auto
qed

lemma creator_over:
  assumes run: "runs (pool_prog argv) kern hist" and stuck: "\<And>p c r. \<not> runs (pool_prog argv) kern (hist @ [(p, c, r)])"
  shows "pool_prog argv Creator (replies Creator hist) = None"
proof (rule ccontr)
  let ?n = "pool_size argv" and ?k = "length (replies Creator hist)"
  have at: "pool_prog argv Creator (replies Creator hist) = creator_call handle ?n ?k"
    using creator_at [OF creator_replies [OF run]] by simp
  have blocked: "\<not> kern hist Creator c r" if "creator_call handle ?n ?k = Some c" for c r
    using step_run [OF run, of Creator c r] at that stuck by auto
  assume "pool_prog argv Creator (replies Creator hist) \<noteq> None"
  with at have k: "?k < 2 * ?n"
    by (auto simp: creator_call_def split: if_splits)
  show False
  proof (cases "?k < ?n")
    case True
    let ?c = "Pthread_create ''print_thread_id'' (int ?k + 1)"
    have "\<exists>r. kern hist Creator ?c r"
      by (rule returns) simp_all
    with blocked [of ?c] True show False
      by (auto simp: creator_call_def)
  next
    case False
    let ?i = "int (?k - ?n) + 1"
    have "?k - ?n < ?k" "creator_call handle ?n (?k - ?n) = Some (Pthread_create ''print_thread_id'' ?i)"
      using False k by (auto simp: creator_call_def)
    from creator_made [OF run this] obtain r' where made: "(Creator, Pthread_create ''print_thread_id'' ?i, r') \<in> set hist"
      by blast
    have "1 \<le> ?i" "?i \<le> int ?n"
      using False k by simp_all
    from join_returns [OF worker_over [OF run stuck made this]] blocked [of "Pthread_join (handle ?i)"] False k show False
      by (auto simp: creator_call_def)
  qed
qed

end

text \<open>C12. \<^verbatim>\<open>pthread.c\<close> comes to an end: on every kernel that completes the calls of existing threads, \<^verbatim>\<open>main\<close> and its \<open>n\<close> threads make
  at most \<open>8 * n\<close> calls in every interleaving, never wait for each other for ever, and when no call is left to complete
  \<^verbatim>\<open>main\<close> and all threads have ended.\<close>

theorem pthread_system_completes:
  assumes "live_pool kern handle" "runs (pool_prog argv) kern hist"
  shows "length hist \<le> 8 * pool_size argv \<and> ((\<forall>p c r. \<not> runs (pool_prog argv) kern (hist @ [(p, c, r)])) \<longrightarrow>
    fst (pthread_main argv (fresh (replies Creator hist))) = Exited 0 \<and>
    (\<forall>i \<in> {1..int (pool_size argv)}. fst (pthread_print_thread_id i (fresh (replies (Worker i) hist))) = Ret i))"
proof (intro conjI impI)
  let ?n = "pool_size argv" and ?W = "Worker ` {1..int (pool_size argv)}"
  note pool = live_pool.axioms(1) [OF assms(1)]
  have "length hist = (\<Sum>p \<in> insert Creator ?W. length (of_party p hist))"
    using pool_kernel.workers [OF pool assms(2)] by (intro length_by_party) (auto intro: pool_party.exhaust)
  also have "\<dots> = length (of_party Creator hist) + (\<Sum>i = 1..int ?n. length (of_party (Worker i) hist))"
    by (subst sum.insert) (auto simp: sum.reindex inj_on_def)
  also have "length (of_party Creator hist) \<le> 2 * ?n"
    using pool_kernel.creator_replies [OF pool assms(2)] by (simp add: replies_ok_def replies_def)
  also have "(\<Sum>i = 1..int ?n. length (of_party (Worker i) hist)) \<le> (\<Sum>i = 1..int ?n. 6)"
    using runs_within [OF assms(2) _ within_worker] by (intro sum_mono) simp
  finally show "length hist \<le> 8 * ?n"
    by simp
next
  assume stuck: "\<forall>p c r. \<not> runs (pool_prog argv) kern (hist @ [(p, c, r)])"
  note pool = live_pool.axioms(1) [OF assms(1)]
  have over: "pool_prog argv Creator (replies Creator hist) = None"
    using live_pool.creator_over [OF assms] stuck by blast
  note n = pool_kernel.finished [OF pool assms(2) over]
  note ok = pool_kernel.creator_replies [OF pool assms(2)]
  from main_done [of "take (pool_size argv) (replies Creator hist)" argv "drop (pool_size argv) (replies Creator hist)"]
  show "fst (pthread_main argv (fresh (replies Creator hist))) = Exited 0"
    using n replies_ok_fine [OF ok, of "pool_size argv"] by auto
  show "\<forall>i \<in> {1..int (pool_size argv)}. fst (pthread_print_thread_id i (fresh (replies (Worker i) hist))) = Ret i"
    using pool_kernel.all_joined [OF pool assms(2) n] pool_kernel.joined_over [OF pool assms(2)] endsD [OF worker_ends]
    by (metis atLeastAtMost_iff)
qed

subsection \<open>A kernel\<close>

text \<open>A kernel that gives thread \<open>i\<close> the handle \<open>100 + i\<close>.\<close>

fun creates_thread :: "call \<Rightarrow> int option" where
  "creates_thread (Call f [S g, I i]) = (if f = ''pthread_create'' then Some i else None)"
| "creates_thread c = None"

fun joins_thread :: "call \<Rightarrow> int option" where
  "joins_thread (Call f [I h]) = (if f = ''pthread_join'' then Some (h - 100) else None)"
| "joins_thread c = None"

fun pool_answer :: "(pool_party \<times> call \<times> reply) list \<Rightarrow> pool_party \<Rightarrow> call \<Rightarrow> reply option" where
  "pool_answer hist Creator c = (case creates_thread c of
      Some i \<Rightarrow> Some ((rep 0)\<lparr>outs := [100 + i]\<rparr>)
    | None \<Rightarrow> (case joins_thread c of
        Some i \<Rightarrow> (case fst (pthread_print_thread_id i (fresh (replies (Worker i) hist))) of
            Ret v \<Rightarrow> Some ((rep 0)\<lparr>outs := [v]\<rparr>) | _ \<Rightarrow> None)
      | None \<Rightarrow> Some (rep 1)))"
| "pool_answer hist (Worker i) c =
     (if list_ex (\<lambda>e. fst e = Creator \<and> fst (snd e) = Pthread_create ''print_thread_id'' i) hist then Some (rep 1) else None)"

lemma joins_thread_Some: "joins_thread c = Some i \<longleftrightarrow> c = Pthread_join (100 + i)"
  by (cases c rule: joins_thread.cases) auto

interpretation threads: live_pool "\<lambda>hist p c r. pool_answer hist p c = Some r" "\<lambda>i. 100 + i"
proof
  show "\<exists>r. pool_answer hist p c = Some r" if "\<And>h. c \<noteq> Pthread_join h"
      "\<And>i. p = Worker i \<Longrightarrow> \<exists>r'. (Creator, Pthread_create ''print_thread_id'' i, r') \<in> set hist" for hist p c
  proof (cases p)
    case Creator
    with that(1) show ?thesis
      using joins_thread_Some [of c] by (auto split: option.split)
  next
    case (Worker i)
    with that(2) [of i] show ?thesis
      by (force simp: list_ex_iff)
  qed
  show "rv r \<noteq> 0" if "pool_answer hist p (Malloc k) = Some r" for hist p k r
    using that by (cases p) (auto split: if_splits)
qed (auto simp: out_int_def list_ex_iff split: result.splits if_splits)

definition two_threads :: "(pool_party \<times> call \<times> reply) list option" where
  "two_threads = drive (pool_prog [''pthread'', ''2'']) pool_answer []
     ([Creator, Creator] @ concat (replicate 6 [Worker 2, Worker 1]) @ [Creator, Creator])"

lemma two_threads_over: "map_option (\<lambda>hist. pool_prog [''pthread'', ''2''] Creator (replies Creator hist)) two_threads = Some None"
  by code_simp

theorem pthread_system_output_witness:
  "\<exists>hist s'. two_threads = Some hist \<and> pthread_main [''pthread'', ''2''] (fresh (replies Creator hist)) = (Exited 0, s') \<and>
    pool_size [''pthread'', ''2''] = 2"
proof -
  obtain hist where hist: "two_threads = Some hist" "pool_prog [''pthread'', ''2''] Creator (replies Creator hist) = None"
    using two_threads_over by blast
  from pthread_system_output [OF threads.pool_kernel_axioms drive_runs [OF begin_run hist(1) [unfolded two_threads_def]] hist(2)]
  have "\<exists>s'. pthread_main [''pthread'', ''2''] (fresh (replies Creator hist)) = (Exited 0, s')"
    by blast
  moreover have "pool_size [''pthread'', ''2''] = 2"
    by code_simp
  ultimately show ?thesis
    using hist(1) by blast
qed

theorem pthread_system_completes_witness: "\<exists>hist. two_threads = Some hist \<and> length hist \<le> 8 * pool_size [''pthread'', ''2'']"
proof -
  obtain hist where hist: "two_threads = Some hist"
    using two_threads_over by blast
  from pthread_system_completes [OF threads.live_pool_axioms drive_runs [OF begin_run hist [unfolded two_threads_def]]] hist
  show ?thesis
    by blast
qed

end
