(* ===== verification/Shm_System.thy ===== *)
theory Shm_System
  imports Shared_Memory Interleaving
begin

text \<open>
  \<^verbatim>\<open>shmtest.c\<close> as a whole: the writer and the reader, concurrently, on the segment they share.
\<close>

datatype shm_party = Writer | Reader

fun shm_prog :: "shm_party \<Rightarrow> reply list \<Rightarrow> call option" where
  "shm_prog Writer = next_call writer"
| "shm_prog Reader = next_call reader"

text \<open>What a call of the writer leaves in the integer at \<open>a\<close> that held \<open>v\<close>, and the integer after a log.\<close>

fun stored_at :: "int \<Rightarrow> call \<Rightarrow> int \<Rightarrow> int" where
  "stored_at a (Call f [I b, I d]) v = (if f = ''store_int'' \<and> b = a then d else v)"
| "stored_at a c v = v"

lemma stored_at_other: "(\<And>d. c \<noteq> Store_int a d) \<Longrightarrow> stored_at a c v = v"
  by (induction a c v rule: stored_at.induct) auto

definition int_at :: "int \<Rightarrow> (shm_party \<times> call \<times> reply) list \<Rightarrow> int" where
  "int_at a hist = fold (\<lambda>(p, c, r). if p = Writer then stored_at a c else id) hist 0"

lemma int_at_simps [simp]:
  "int_at a [] = 0"
  "int_at a (hist @ [(p, c, r)]) = (if p = Writer then stored_at a c (int_at a hist) else int_at a hist)"
  by (simp_all add: int_at_def)

text \<open>The reader, whose first call asks for the segment, gets that of the writer if this comes before the writer removes it,
  otherwise a new one.\<close>

fun removes :: "call \<Rightarrow> bool" where
  "removes (Call f args) = (f = ''shmctl'')"

definition shared :: "(shm_party \<times> call \<times> reply) list \<Rightarrow> bool" where
  "shared hist \<longleftrightarrow> list_ex (\<lambda>(p, c, r). p = Reader)
     (takeWhile (\<lambda>(p, c, r). \<not> (p = Writer \<and> removes c)) hist)"

lemma shared_append: "shared a \<Longrightarrow> shared (a @ b)"
  unfolding shared_def by (subst takeWhile_append) (auto simp: list_ex_iff dest: set_takeWhileD)

lemma shared_prefix:
  assumes "shared (a @ b)" "replies Reader a \<noteq> []"
  shows "shared a"
proof (cases "\<forall>x \<in> set a. case x of (p, c, r) \<Rightarrow> \<not> (p = Writer \<and> removes c)")
  case True
  moreover have "list_ex (\<lambda>(p, c, r). p = Reader) a"
    using assms(2) by (auto simp: list_ex_iff replies_def of_party_def filter_empty_conv)
  ultimately show ?thesis
    unfolding shared_def by (subst takeWhile_eq_all_conv [THEN iffD2]) auto
next
  case False
  then obtain x where "x \<in> set a" "\<not> (case x of (p, c, r) \<Rightarrow> \<not> (p = Writer \<and> removes c))"
    by blast
  with assms(1) show ?thesis
    unfolding shared_def by (subst (asm) takeWhile_append1) auto
qed

text \<open>
  What the program relies on: the segment of the first key did not exist before, each process sees it at one address, and
  the reader finds in the flag of its segment what the writer has stored there last, or 0 in a new segment.
\<close>

locale shm_kernel =
  fixes kern :: "(shm_party \<times> call \<times> reply) list \<Rightarrow> shm_party \<Rightarrow> call \<Rightarrow> reply \<Rightarrow> bool"
    and here there :: int
  assumes attached: "kern hist Writer (Shmat i) r \<Longrightarrow> rv r \<noteq> -1 \<Longrightarrow> rv r = here"
      "kern hist Reader (Shmat i) r \<Longrightarrow> rv r \<noteq> -1 \<Longrightarrow> rv r = there"
    and flag: "kern hist Reader (Load_int (complete_at there)) r \<Longrightarrow>
      out_int 0 r = (if shared hist then int_at (complete_at here) hist else 0)"

lemma demand_shm: "on_demand writer" "on_demand reader"
  by (auto simp: writer_def writer_body_def fill_buffer_def writer_end_def reader_def reader_loop_def reader_body_def
      reader_end_def intro!: demand_intros split: prod.split)

subsection \<open>The writer\<close>

text \<open>The writer stores 1 in the flag after both fills, and nothing afterwards.\<close>

definition writer_outcome :: "unit result \<Rightarrow> process \<Rightarrow> bool" where
  "writer_outcome e s \<longleftrightarrow> (\<forall>a v. e = Blocked (Store_int a v) \<longrightarrow> (\<exists>i r. (Shmat i, r) \<in> set (calls s) \<and> rv r \<noteq> -1 \<and>
     (a = complete_at (rv r) \<longrightarrow> (\<forall>r'. (Store_int (complete_at (rv r)) 1, r') \<notin> set (calls s)))))"

lemma writer_ends: "ends writer (fresh rs) writer_outcome"
  unfolding writer_def writer_end_def writer_body_def fill_buffer_def
  by (auto intro!: ends_intros simp: ends_step obs_simps writer_outcome_def for_loop_step for_loop_empty fresh_def
      yields_def complete_at_def cnt_at_def)

subsection \<open>The reader\<close>

text \<open>The number of calls since the last look at which the flag was not 1.\<close>

definition since_look :: "int \<Rightarrow> (call \<times> reply) list \<Rightarrow> nat" where
  "since_look a cs = foldl (\<lambda>n (c, r). if c = Load_int a \<and> out_int 0 r \<noteq> 1 then 0 else Suc n) 0 cs"

lemma since_look_suffix:
  "(\<And>r. (Load_int a, r) \<in> set ds \<Longrightarrow> out_int 0 r = 1) \<Longrightarrow> length ds \<le> since_look a (cs @ ds)"
  by (induction ds rule: rev_induct) (auto simp: since_look_def)

text \<open>At most six calls follow such a look; the reader exits with 0 only when it has seen the flag.\<close>

definition seen :: "int \<Rightarrow> reply \<Rightarrow> unit result \<Rightarrow> process \<Rightarrow> bool" where
  "seen i r e s \<longleftrightarrow> (Shmat i, r) \<in> set (calls s) \<and> since_look (complete_at (rv r)) (calls s) \<le> 6 \<and>
     (e = Exited 0 \<longrightarrow> (\<exists>r'. (Load_int (complete_at (rv r)), r') \<in> set (calls s) \<and> out_int 0 r' = 1))"

definition looking :: "int \<Rightarrow> reply \<Rightarrow> process \<Rightarrow> bool" where
  "looking i r s \<longleftrightarrow> (Shmat i, r) \<in> set (calls s) \<and> since_look (complete_at (rv r)) (calls s) \<le> 4"

lemma ends_reader_loop:
  assumes "looking i r s"
  shows "ends (bindS (reader_loop (rv r)) (\<lambda>_. reader_end (rv r))) s (seen i r)"
  unfolding reader_loop_def
proof (rule ends_do_while [of "looking i r", OF assms])
  fix s1
  assume "looking i r s1"
  then show "ends (reader_body (rv r)) s1 (\<lambda>e s'. case e of
      Ret b \<Rightarrow> length (answers s') < length (answers s1) \<and> (if b then looking i r s' else ends (reader_end (rv r)) s' (seen i r))
    | Exited n \<Rightarrow> seen i r (Exited n) s' | Signalled n \<Rightarrow> seen i r (Signalled n) s'
    | Replaced p a e \<Rightarrow> seen i r (Replaced p a e) s'
    | Blocked c \<Rightarrow> seen i r (Blocked c) s' | Undefined w \<Rightarrow> seen i r (Undefined w) s' | Spins \<Rightarrow> seen i r Spins s')"
    unfolding reader_body_def reader_end_def
    by (auto intro!: ends_intros simp: ends_step obs_simps yields_def looking_def seen_def since_look_def
        buf_at_def cnt_at_def complete_at_def) blast
qed

definition reader_outcome :: "unit result \<Rightarrow> process \<Rightarrow> bool" where
  "reader_outcome e s \<longleftrightarrow> (\<exists>i r. rv r \<noteq> -1 \<and> seen i r e s) \<or> length (calls s) \<le> 2 \<and> e \<noteq> Exited 0"

lemma ends_reader_loop':
  "looking i r s \<Longrightarrow> rv r \<noteq> -1 \<Longrightarrow> ends (bindS (reader_loop (rv r)) (\<lambda>_. reader_end (rv r))) s reader_outcome"
  by (rule ends_mono [OF ends_reader_loop]) (auto simp: reader_outcome_def)

lemma reader_ends: "ends reader (fresh rs) reader_outcome"
  unfolding reader_def
  by (auto intro!: ends_intros intro: ends_reader_loop' simp: ends_step obs_simps bindS_skip fresh_def)
    (auto simp: reader_outcome_def obs_simps intro!: ends_reader_loop' simp: looking_def since_look_def)

subsection \<open>Both together\<close>

context shm_kernel
begin

lemma parts:
  assumes "runs shm_prog kern hist"
  shows "of_party Writer hist = calls (snd (writer (fresh (replies Writer hist))))"
    "of_party Reader hist = calls (snd (reader (fresh (replies Reader hist))))"
  using runs_calls [OF assms _ demand_shm(1), of Writer] runs_calls [OF assms _ demand_shm(2), of Reader] by simp_all

lemma addresses:
  assumes "runs shm_prog kern hist" "rv r \<noteq> -1"
  shows "(Writer, Shmat i, r) \<in> set hist \<Longrightarrow> rv r = here" "(Reader, Shmat i, r) \<in> set hist \<Longrightarrow> rv r = there"
  using runs_kern [OF assms(1)] attached assms(2) by blast+

lemma flag_set:
  assumes "runs shm_prog kern hist"
  shows "int_at (complete_at here) hist = 1 \<longleftrightarrow> (\<exists>r. (Writer, Store_int (complete_at here) 1, r) \<in> set hist)"
  using assms
proof (induction rule: runs.induct)
  case (step_run hist p c r)
  show ?case
  proof (cases "p = Writer \<and> (\<exists>d. c = Store_int (complete_at here) d)")
    case True
    then obtain d where d: "p = Writer" "c = Store_int (complete_at here) d"
      by blast
    with step_run(2) endsD [OF writer_ends, of "replies Writer hist"] addresses(1) [OF step_run(1)]
    have "(Writer, Store_int (complete_at here) 1, r') \<notin> set hist" for r'
      unfolding writer_outcome_def parts(1) [OF step_run(1), symmetric] by (auto simp: next_call_Some)
    with d show ?thesis
      by auto
  next
    case False
    then have "p = Writer \<Longrightarrow> stored_at (complete_at here) c v = v" for v
      by (intro stored_at_other) blast
    with step_run.IH False show ?thesis
      by auto
  qed
qed simp

text \<open>What the reader sees of the flag, at a point of the log.\<close>

lemma reader_first:
  assumes "runs shm_prog kern (a @ (Reader, Load_int (complete_at there), r) # b)"
  shows "replies Reader a \<noteq> []"
proof
  assume "replies Reader a = []"
  with runs_at(1) [OF assms] show False
    by (simp add: next_call_Some reader_def fresh_def run_simps obs_simps)
qed

lemma few_since_look:
  assumes "runs shm_prog kern hist"
  shows "since_look (complete_at there) (of_party Reader hist) \<le> 6"
proof -
  have "since_look a cs \<le> length cs" for a cs
    by (induction cs rule: rev_induct) (auto simp: since_look_def)
  note le = this [of "complete_at there" "of_party Reader hist"]
  from endsD [OF reader_ends, of "replies Reader hist"]
  consider i r where "rv r \<noteq> -1" "(Reader, Shmat i, r) \<in> set hist" "since_look (complete_at (rv r)) (of_party Reader hist) \<le> 6"
    | "length (of_party Reader hist) \<le> 2"
    unfolding reader_outcome_def seen_def parts(2) [OF assms, symmetric] of_party_mem by blast
  then show ?thesis
    by cases (use addresses(2) [OF assms] le in auto)
qed

lemma saw_flag:
  assumes "runs shm_prog kern hist" "(Reader, Load_int (complete_at there), r) \<in> set hist" "out_int 0 r = 1"
  shows "shared hist \<and> (\<exists>r'. (Writer, Store_int (complete_at here) 1, r') \<in> set hist)"
proof -
  obtain a b where hist: "hist = a @ (Reader, Load_int (complete_at there), r) # b"
    using assms(2) by (auto dest: split_list)
  note at = runs_at [OF assms(1) [unfolded hist]]
  from flag [OF at(2)] assms(3) have "shared a" "int_at (complete_at here) a = 1"
    by (auto split: if_splits)
  with flag_set [OF at(3)] show ?thesis
    by (auto simp: hist intro: shared_append)
qed

lemma sees_flag:
  assumes "runs shm_prog kern (x @ (Writer, Store_int (complete_at here) 1, r) # y)"
    and "shared (x @ (Writer, Store_int (complete_at here) 1, r) # y)" "(Reader, Load_int (complete_at there), r') \<in> set y"
  shows "out_int 0 r' = 1"
proof -
  obtain a b where y: "y = a @ (Reader, Load_int (complete_at there), r') # b"
    using assms(3) by (auto dest: split_list)
  let ?p = "x @ (Writer, Store_int (complete_at here) 1, r) # a"
  have run: "runs shm_prog kern (?p @ (Reader, Load_int (complete_at there), r') # b)"
    using assms(1) by (simp add: y)
  note at = runs_at [OF run]
  have "shared ?p"
    using shared_prefix [OF _ reader_first [OF run]] assms(2) by (simp add: y)
  moreover have "int_at (complete_at here) ?p = 1"
    using flag_set [OF at(3)] by auto
  ultimately show ?thesis
    using flag [OF at(2)] by simp
qed

end

text \<open>C10. \<^verbatim>\<open>shmtest.c\<close>, writer and reader in every interleaving, on every kernel that keeps the promise of shared memory:
  the reader exits with 0 only after the writer has set the flag and only if it asked for the segment before the
  writer removed it (otherwise it polls a new segment for ever); and once the flag is set such a reader
  makes at most six more calls.\<close>

theorem shm_system:
  assumes "shm_kernel kern here there" "runs shm_prog kern hist"
  shows "(fst (reader (fresh (replies Reader hist))) = Exited 0 \<longrightarrow>
      shared hist \<and> (\<exists>r. (Writer, Store_int (complete_at here) 1, r) \<in> set hist)) \<and>
    (\<forall>x r y. hist = x @ (Writer, Store_int (complete_at here) 1, r) # y \<and> shared hist \<longrightarrow> length (of_party Reader y) \<le> 6)"
proof (intro conjI allI impI)
  note out = endsD [OF reader_ends, of "replies Reader hist", unfolded reader_outcome_def seen_def
    shm_kernel.parts(2) [OF assms, symmetric]]
  {
    assume "fst (reader (fresh (replies Reader hist))) = Exited 0"
    with out shm_kernel.addresses(2) [OF assms] obtain r where
      "(Reader, Load_int (complete_at there), r) \<in> set hist" "out_int 0 r = 1"
      by auto
    from shm_kernel.saw_flag [OF assms this] show "shared hist" "\<exists>r. (Writer, Store_int (complete_at here) 1, r) \<in> set hist"
      by blast+
  next
    fix x r y
    assume hist: "hist = x @ (Writer, Store_int (complete_at here) 1, r) # y \<and> shared hist"
    then have p: "of_party Reader hist = of_party Reader x @ of_party Reader y"
      by auto
    have "length (of_party Reader y) \<le> since_look (complete_at there) (of_party Reader hist)"
      unfolding p using shm_kernel.sees_flag [OF assms(1), of x r y] assms(2) hist by (intro since_look_suffix) auto
    with shm_kernel.few_since_look [OF assms] show "length (of_party Reader y) \<le> 6"
      by linarith
  }
qed

subsection \<open>A kernel\<close>

fun attaches :: "call \<Rightarrow> bool" where
  "attaches (Call f args) = (f = ''shmat'')"

definition shm_answer :: "(shm_party \<times> call \<times> reply) list \<Rightarrow> shm_party \<Rightarrow> call \<Rightarrow> reply option" where
  "shm_answer hist p c =
     (if c = Shmget SHM_KEY2 SHMSEG_SIZE EXCL_0644 then Some (rep (-1))
      else if c = Shmat 5 then Some (rep (if p = Writer then 4096 else 8192))
      else if c = Load_int (complete_at 8192) then Some ((rep 0)\<lparr>outs := [if shared hist then int_at (complete_at 4096) hist else 0]\<rparr>)
      else if removes c \<or> c = Shmdt (if p = Writer then 4096 else 8192) then Some (rep 0)
      else if attaches c then None
      else Some (rep 5))"

interpretation segment: shm_kernel "\<lambda>hist p c r. shm_answer hist p c = Some r" 4096 8192
  by unfold_locales (auto simp: shm_answer_def out_int_def complete_at_def split: if_splits)

text \<open>A run in which the reader looks once before the first fill and once after the end of the writer.\<close>

definition a_fill :: "int \<Rightarrow> call list" where
  "a_fill ch = [Store 4104 (replicate 1023 (char_of ch)), Store 5127 [NUL], Load 4104,
     Store_int 4096 0, Store_int 4100 0, Load_int 4096, Sleep 1]"

abbreviation fives :: "reply list" where
  "fives \<equiv> [rep 5, rep 5, rep 5, rep 5, rep 5, rep 5, rep 5]"

definition writer_calls :: "call list" where
  "writer_calls = [Shmget SHM_KEY1 SHMSEG_SIZE CREAT_0644, Shmget SHM_KEY2 SHMSEG_SIZE CREAT_0644,
     Shmget SHM_KEY2 SHMSEG_SIZE EXCL_0644, Shmat 5] @ a_fill 65 @ a_fill 66 @ [Store_int 4100 1, Shmdt 4096, Shmctl 5 0]"

definition writer_replies :: "reply list" where
  "writer_replies = [rep 5, rep 5, rep (-1), rep 4096] @ fives @ fives @ [rep 5, rep 0, rep 0]"

definition reader_calls :: "call list" where
  "reader_calls = [Shmget SHM_KEY1 SHMSEG_SIZE CREAT_0644, Shmat 5,
     Load_int 8196, Load 8200, Load_int 8192, Load_int 8192, Sleep 1, Load_int 8196, Shmdt 8192]"

definition reader_replies :: "reply list" where
  "reader_replies = [rep 5, rep 8192, (rep 0)\<lparr>outs := [0]\<rparr>, rep 5, rep 5, rep 5, rep 5, (rep 0)\<lparr>outs := [1]\<rparr>, rep 0]"

lemma a_fill_made:
  assumes "answers s = fives @ rest"
  shows "\<exists>s'. writer_body 4096 i ch s = (Ret (next_ch ch), s') \<and> answers s' = rest \<and>
    calls s' = calls s @ zip (a_fill ch) (fives)"
proof -
  have "bytes (rep 5) = []"
    by (simp add: rep_def)
  with assms show ?thesis
    by (simp add: writer_body_def fill_buffer_def run_simps obs_simps)
      (simp add: a_fill_def complete_at_def cnt_at_def buf_at_def strlen_def cstr_def)
qed

lemma writer_calls_made: "calls (snd (writer (fresh writer_replies))) = zip writer_calls writer_replies"
proof -
  define s0 where "s0 = flush_out (put_out (''Writing Process: shmid = 0x'' @ fmt_x 5 @ '' shmaddr = 0x'' @ fmt_p 4096 @ ''\<newline>'')
    (logged (Shmat 5) (rep 4096) (logged (Shmget SHM_KEY2 SHMSEG_SIZE EXCL_0644) (rep (-1))
    (logged (Shmget SHM_KEY2 SHMSEG_SIZE CREAT_0644) (rep 5) (logged (Shmget SHM_KEY1 SHMSEG_SIZE CREAT_0644) (rep 5) (fresh writer_replies))))))"
  have s0: "answers s0 = fives @ fives @ [rep 5, rep 0, rep 0]"
    by (simp add: s0_def obs_simps fresh_def writer_replies_def)
  from a_fill_made [OF s0, of 0 65] obtain s1 where
    s1: "writer_body 4096 0 65 s0 = (Ret 66, s1)" "answers s1 = fives @ [rep 5, rep 0, rep 0]"
      "calls s1 = calls s0 @ zip (a_fill 65) (fives)"
    by (auto simp: next_ch_def)
  from a_fill_made [OF s1(2), of 1 66] obtain s2 where
    s2: "writer_body 4096 1 66 s1 = (Ret 67, s2)" "answers s2 = [rep 5, rep 0, rep 0]"
      "calls s2 = calls s1 @ zip (a_fill 66) (fives)"
    by (auto simp: next_ch_def)
  have "for_loop 0 DOITERS (writer_body 4096) 65 s0 = (Ret 67, s2)"
    using s1(1) s2(1) by (simp add: for_loop_step for_loop_empty run_simps bindS_result(1))
  then have "bindS (for_loop 0 DOITERS (writer_body 4096) 65) (\<lambda>_. writer_end 5 4096) s0 = writer_end 5 4096 s2"
    by (simp add: bindS_result(1))
  moreover have "writer (fresh writer_replies) = bindS (for_loop 0 DOITERS (writer_body 4096) 65) (\<lambda>_. writer_end 5 4096) s0"
    by (simp add: writer_def writer_replies_def fresh_def run_simps obs_simps s0_def bindS_skip)
  moreover have "calls (snd (writer_end 5 4096 s2)) = calls s2 @ [(Store_int 4100 1, rep 5), (Shmdt 4096, rep 0), (Shmctl 5 0, rep 0)]"
    using s2(2) by (simp add: writer_end_def run_simps obs_simps complete_at_def)
  moreover have "calls s0 = [(Shmget SHM_KEY1 SHMSEG_SIZE CREAT_0644, rep 5), (Shmget SHM_KEY2 SHMSEG_SIZE CREAT_0644, rep 5),
      (Shmget SHM_KEY2 SHMSEG_SIZE EXCL_0644, rep (-1)), (Shmat 5, rep 4096)]"
    by (simp add: s0_def obs_simps fresh_def)
  ultimately show ?thesis
    using s1(3) s2(3) by (simp add: writer_calls_def writer_replies_def a_fill_def)
qed

lemma reader_calls_made:
  "calls (snd (reader (fresh reader_replies))) = zip reader_calls reader_replies \<and> fst (reader (fresh reader_replies)) = Exited 0"
proof -
  define s0 where "s0 = flush_out (put_out (attached_text (rep 5) (rep 8192)) (logged (Shmat 5) (rep 8192)
    (logged (Shmget SHM_KEY1 SHMSEG_SIZE CREAT_0644) (rep 5) (fresh reader_replies))))"
  obtain s1 where s1: "reader_body 8192 s0 = (Ret True, s1)" "answers s1 = [(rep 0)\<lparr>outs := [1]\<rparr>, rep 0]"
    "calls s1 = zip (take 7 reader_calls) (take 7 reader_replies)"
    by (simp add: s0_def reader_body_def reader_replies_def reader_calls_def fresh_def run_simps obs_simps out_int_def
        complete_at_def cnt_at_def buf_at_def)
  have "reader_loop 8192 s0 = reader_loop 8192 s1"
    using s1(1,2) unfolding reader_loop_def do_while_def bindS_def
    by (subst while_loop_next [where v' = True and s' = s1]) (simp_all add: s0_def obs_simps fresh_def reader_replies_def)
  also have "\<dots> = (Ret (), logged (Load_int (complete_at 8192)) ((rep 0)\<lparr>outs := [1]\<rparr>) s1)"
    unfolding reader_loop_def reader_body_def
    using s1(2) by (intro do_while_done [where rs = "[rep 0]"]) (auto simp: run_simps obs_simps out_int_def)
  finally have "bindS (reader_loop 8192) (\<lambda>_. reader_end 8192) s0 =
      reader_end 8192 (logged (Load_int (complete_at 8192)) ((rep 0)\<lparr>outs := [1]\<rparr>) s1)"
    by (simp add: bindS_result(1))
  moreover have "reader (fresh reader_replies) = bindS (reader_loop 8192) (\<lambda>_. reader_end 8192) s0"
    by (simp add: reader_def reader_replies_def fresh_def run_simps obs_simps s0_def bindS_skip attached_text_def)
  ultimately show ?thesis
    using s1(2,3) by (simp add: reader_end_def run_simps obs_simps reader_calls_def reader_replies_def complete_at_def)
qed

lemma writer_answered: "k < 21 \<Longrightarrow> shm_answer hist Writer (writer_calls ! k) = Some (writer_replies ! k)"
proof -
  have "list_all2 (\<lambda>c r. shm_answer hist Writer c = Some r) writer_calls writer_replies"
    by (simp add: writer_calls_def writer_replies_def a_fill_def shm_answer_def complete_at_def)
  then show "k < 21 \<Longrightarrow> shm_answer hist Writer (writer_calls ! k) = Some (writer_replies ! k)"
    by (rule list_all2_nthD) (simp add: writer_calls_def a_fill_def)
qed

definition shm_log :: "(shm_party \<times> call \<times> reply) list" where
  "shm_log = map (Pair Writer) (zip (take 4 writer_calls) (take 4 writer_replies)) @
     map (Pair Reader) (zip (take 7 reader_calls) (take 7 reader_replies)) @
     map (Pair Writer) (zip (drop 4 writer_calls) (drop 4 writer_replies)) @
     map (Pair Reader) (zip (drop 7 reader_calls) (drop 7 reader_replies))"

lemma shm_lengths:
  "length writer_calls = 21" "length writer_replies = 21" "length reader_calls = 9" "length reader_replies = 9"
  by (simp_all add: writer_calls_def writer_replies_def a_fill_def reader_calls_def reader_replies_def)

lemma stretches:
  assumes "runs shm_prog (\<lambda>hist p c r. shm_answer hist p c = Some r) hist"
  shows "replies Writer hist = take i writer_replies \<Longrightarrow> i + n \<le> 21 \<Longrightarrow> runs shm_prog (\<lambda>hist p c r. shm_answer hist p c = Some r)
      (hist @ map (Pair Writer) (zip (take n (drop i writer_calls)) (take n (drop i writer_replies))))"
    and "replies Reader hist = take i reader_replies \<Longrightarrow> i + n \<le> 9 \<Longrightarrow>
      (\<And>k. k < n \<Longrightarrow> shm_answer (hist @ map (Pair Reader) (zip (take k (drop i reader_calls)) (take k (drop i reader_replies))))
        Reader (reader_calls ! (i + k)) = Some (reader_replies ! (i + k))) \<Longrightarrow>
      runs shm_prog (\<lambda>hist p c r. shm_answer hist p c = Some r)
        (hist @ map (Pair Reader) (zip (take n (drop i reader_calls)) (take n (drop i reader_replies))))"
  using runs_part [OF assms _ demand_shm(1) writer_calls_made, of Writer i n]
    runs_part [OF assms _ demand_shm(2) conjunct1 [OF reader_calls_made], of Reader i n] writer_answered
  by (simp_all add: shm_lengths)

lemma less_numerals: "k < (7 :: nat) \<Longrightarrow> k \<in> {0, 1, 2, 3, 4, 5, 6}" "k < (2 :: nat) \<Longrightarrow> k \<in> {0, 1}"
  by auto

lemma shm_log_runs: "runs shm_prog (\<lambda>hist p c r. shm_answer hist p c = Some r) shm_log"
proof -
  note log_simps = writer_calls_def writer_replies_def a_fill_def reader_calls_def reader_replies_def
  let ?w1 = "map (Pair Writer) (zip (take 4 writer_calls) (take 4 writer_replies))"
  let ?r1 = "map (Pair Reader) (zip (take 7 reader_calls) (take 7 reader_replies))"
  let ?w2 = "map (Pair Writer) (zip (drop 4 writer_calls) (drop 4 writer_replies))"
  let ?runs = "runs shm_prog (\<lambda>hist p c r. shm_answer hist p c = Some r)"
  have w1: "?runs ?w1"
    using stretches(1) [OF begin_run, of 0 4] by simp
  have "shm_answer (?w1 @ map (Pair Reader) (zip (take k reader_calls) (take k reader_replies))) Reader (reader_calls ! k) =
      Some (reader_replies ! k)" if "k < 7" for k
    using less_numerals(1) [OF that]
    by (auto simp: log_simps shm_answer_def complete_at_def shared_def int_at_def)
  with stretches(2) [OF w1, of 0 7] have r1: "?runs (?w1 @ ?r1)"
    by (simp add: log_simps)
  have w2: "?runs (?w1 @ ?r1 @ ?w2)"
    using stretches(1) [OF r1, of 4 17] by (simp add: log_simps)
  have "shm_answer ((?w1 @ ?r1 @ ?w2) @ map (Pair Reader) (zip (take k (drop 7 reader_calls)) (take k (drop 7 reader_replies)))) Reader
      (reader_calls ! (7 + k)) = Some (reader_replies ! (7 + k))" if "k < 2" for k
    using less_numerals(2) [OF that]
    by (auto simp: log_simps shm_answer_def complete_at_def shared_def int_at_def)
  with stretches(2) [OF w2, of 7 2] show ?thesis
    by (simp add: log_simps shm_log_def)
qed

theorem shm_system_witness:
  "fst (reader (fresh (replies Reader shm_log))) = Exited 0 \<and> shared shm_log \<and> int_at (complete_at 4096) shm_log = 1"
proof -
  have "replies Reader shm_log = reader_replies"
    by (simp add: shm_log_def reader_calls_def reader_replies_def writer_calls_def writer_replies_def a_fill_def)
  with reader_calls_made have over: "fst (reader (fresh (replies Reader shm_log))) = Exited 0"
    by simp
  with shm_system [OF segment.shm_kernel_axioms shm_log_runs] segment.flag_set [OF shm_log_runs] show ?thesis
    by blast
qed

end
