(* ===== verification/Spec2Isabelle.thy ===== *)
theory Spec2Isabelle
  imports Thread_Programs One_Place_Buffer Shared_Memory Clock Sockets Robust_Lock Namespace Small_Programs
    Datagrams Message_Queue Large_Files Clone_Programs Control_Threads Time64 Arch_Prctl Probe_Programs
    Namespace_System Lock_System Pool_System Shm_System
begin

text \<open>
  A verification library for the test programs of this repository.

  \<^bold>\<open>The programs.\<close> \<^verbatim>\<open>src/\<close> holds 44 small C programs, each with its own \<^verbatim>\<open>main\<close>, that exercise Linux
  processes, threads, System V IPC, sockets, clocks and namespaces and print what they see. They do
  not call each other (some start another one with \<^verbatim>\<open>execve\<close> or \<^verbatim>\<open>system\<close>); what they share is code
  that was copied between them. Their logic is in how they use the kernel: the order of calls, what is
  done with each result, what is printed, which process or thread continues, and how loops end.

  \<^bold>\<open>How they are modelled.\<close> The kernel, the C library's system-call wrappers and the other processes
  are not in \<^verbatim>\<open>src/\<close>: they are a parameter, the list of replies a process will get (theory \<open>Sys\<close>).
  A statement of C is a function on a process (replies left, trace, output buffer, \<^verbatim>\<open>errno\<close>) that
  returns how it ended: with a value, by \<^verbatim>\<open>exit\<close>, by a signal, by becoming another program, waiting
  in a call because the replies are used up, in undefined behaviour, or in a loop that makes no calls.
  A theorem for every list of replies holds for every kernel and scheduler; what a documented kernel
  promises is a hypothesis on the replies. Both sides of a \<^verbatim>\<open>fork\<close> are runs of the same definition,
  told apart by the reply. Standard output is buffered as in the C library, because several programs
  fork or exec with a non-empty buffer. There is no fuel: loops are bounded by their counter
  (\<open>for_loop\<close>) or by the replies, one of which each iteration consumes (\<open>while_loop\<close>, \<open>do_while\<close>).

  \<^bold>\<open>Theories.\<close>
  \<^item> \<open>Prelude\<close>: collections of simplification rules, C's integer conversions, list lemmas.
  \<^item> \<open>CLib\<close>: \<^verbatim>\<open>printf\<close> conversions, \<^verbatim>\<open>atoi\<close>, NUL-terminated buffers, program arguments.
  \<^item> \<open>Sys\<close>: processes, calls, statements, loops, observations, symbolic execution rules.
  \<^item> \<open>Wait_Status\<close>: the \<^verbatim>\<open>W...\<close> macros on 32-bit words; they exclude each other and read back what
    the kernel stored.
  \<^item> \<open>Wait_Loop\<close>: the loop around \<^verbatim>\<open>waitpid\<close> that ten programs contain, as a locale with its laws, and the report of a
    status as arithmetic on its number (\<open>decoded\<close>).
  \<^item> \<open>Fork_Programs\<close>: \<^verbatim>\<open>fork.c\<close>, \<^verbatim>\<open>serialfork.c\<close>, \<^verbatim>\<open>parallelfork.c\<close>, \<^verbatim>\<open>forkexec.c\<close>,
    \<^verbatim>\<open>multiforkexec.c\<close>, \<^verbatim>\<open>exec.c\<close>. Their wait loops interpret the locale.
  \<^item> \<open>System_Programs\<close>: \<^verbatim>\<open>callsys\<close> of \<^verbatim>\<open>system.c\<close>, \<^verbatim>\<open>simplesystem.c\<close>, \<^verbatim>\<open>system_and_pthread.c\<close>.
  \<^item> \<open>Thread_Pool\<close>: locales for the create loop and the join loop of nine programs, and the padding
    of their output.
  \<^item> \<open>Thread_Programs\<close>: \<^verbatim>\<open>pthread.c\<close>, \<^verbatim>\<open>fork_and_pthread.c\<close>, \<^verbatim>\<open>forkexec_and_pthread.c\<close>,
    \<^verbatim>\<open>forkmulti.c\<close>, \<^verbatim>\<open>forkexecwait_and_pthread.c\<close>, \<^verbatim>\<open>forkexecwait_and_pthreadchild.c\<close>,
    \<^verbatim>\<open>system_and_pthread.c\<close>, \<^verbatim>\<open>processesgalore.c\<close>, \<^verbatim>\<open>forktree_and_pthread.c\<close>.
  \<^item> \<open>Cycle\<close>: loops with a fixed number of calls per iteration (a locale): in which call a process
    waits after so many replies.
  \<^item> \<open>Two_Processes\<close>: all interleavings of a child and its parent on one kernel, as a step relation.
  \<^item> \<open>Semaphore\<close>: \<^verbatim>\<open>semaphore.c\<close>; the kernel's promise for \<^verbatim>\<open>semop\<close> and shared memory is the locale
    \<open>sem_kernel\<close>, interpreted on a concrete kernel.
  \<^item> \<open>One_Place_Buffer\<close>: what \<^verbatim>\<open>semaphore.c\<close> implements, a buffer with one place; the refinement and mutual
    exclusion.
  \<^item> \<open>Shared_Memory\<close>: \<^verbatim>\<open>shmtest.c\<close>. \<open>Clock\<close>: \<^verbatim>\<open>clock.c\<close>. \<open>Sockets\<close>: \<^verbatim>\<open>socket.c\<close>,
    \<^verbatim>\<open>socketforkserver.c\<close>. \<open>Robust_Lock\<close>: \<^verbatim>\<open>threadlockfail.c\<close>, with the links of its robust list. \<open>Namespace\<close>:
    \<^verbatim>\<open>mkuidns.c\<close>. \<open>Small_Programs\<close>: \<^verbatim>\<open>hello.c\<close>, \<^verbatim>\<open>helloargs.c\<close>, \<^verbatim>\<open>waitkeyboard.c\<close>, \<^verbatim>\<open>hellofile.c\<close>.
  \<^item> \<open>Memory\<close>: arrays with bytes that were never set, numbers stored as bytes, what a statement does given its calls and
    replies (\<open>does\<close>), the relation \<open>meets\<close> between a program and a kernel with a state, \<^verbatim>\<open>errno\<close> and macros.
  \<^item> \<open>Scatter_Gather\<close>: \<^verbatim>\<open>iovec_demo.c\<close>; vectors of places against plain reads. \<open>Datagrams\<close>: \<^verbatim>\<open>recvmsg.c\<close> and
    \<^verbatim>\<open>recvmsg-flush.c\<close>. \<open>Message_Queue\<close>: \<^verbatim>\<open>msgtest.c\<close> on the locale \<open>msg_kernel\<close>. \<open>Large_Files\<close>: \<^verbatim>\<open>call64.c\<close>, with the
    directory parser on bytes. \<open>Clone_Programs\<close>: \<^verbatim>\<open>clone.c\<close>, \<^verbatim>\<open>sample.c\<close>.
  \<^item> \<open>Control_Threads\<close>: \<^verbatim>\<open>controlthreads.c\<close>; its reading loops interpret the locale \<open>polling\<close>.
  \<^item> \<open>Time64\<close>: \<^verbatim>\<open>timeclock64.c\<close> with the layout of its structures. \<open>Arch_Prctl\<close>: \<^verbatim>\<open>arch_prctl.c\<close> on the locale
    \<open>arch_kernel\<close>. \<open>Probe_Programs\<close>: \<^verbatim>\<open>stat.c\<close>, \<^verbatim>\<open>identity.c\<close>, \<^verbatim>\<open>robustlist.c\<close>, \<^verbatim>\<open>fakeafile.c\<close>,
    \<^verbatim>\<open>devmemmadness.c\<close>, \<^verbatim>\<open>termios.c\<close>.
  \<^item> \<open>Outcomes\<close>: judgements for all lists of replies, with one rule per kind of statement: how a run can end or
    where it can wait (\<open>ends\<close>), after how many calls it has ended (\<open>within\<close>), and in which calls it can wait (\<open>asks\<close>).
  \<^item> \<open>Interleaving\<close>: any number of processes and threads on one kernel. The state is the log of completed calls; a
    party's part of it is a run of its program (\<open>on_demand\<close>), and the kernel is a relation between logs and replies.
  \<^item> \<open>Namespace_System\<close>: the two processes of \<^verbatim>\<open>mkuidns.c\<close> on the locales \<open>socket_pair\<close> and \<open>live_socket_pair\<close>.
    \<open>Lock_System\<close>: \<^verbatim>\<open>main\<close> and the two threads of \<^verbatim>\<open>threadlockfail.c\<close> on \<open>lock_memory\<close>. \<open>Pool_System\<close>: \<^verbatim>\<open>main\<close> and all threads of
    \<^verbatim>\<open>pthread.c\<close> on \<open>pool_kernel\<close> and \<open>live_pool\<close>. \<open>Shm_System\<close>: the writer and the reader of \<^verbatim>\<open>shmtest.c\<close> on \<open>shm_kernel\<close>. Each
    locale is interpreted on a kernel that is a function, and a run on it is an example of the theorems.

  \<^bold>\<open>What is shown.\<close> For each program the run of each of its processes, with the calls it makes and the
  text it writes, for all replies that take that path; for loops, when they end; for the semaphore
  protocol, over all interleavings, that messages are handed over in order, that the two processes exclude each other,
  never get stuck and always finish, and that together they refine a buffer with one place; for \<^verbatim>\<open>mkuidns.c\<close>, \<^verbatim>\<open>pthread.c\<close>,
  \<^verbatim>\<open>threadlockfail.c\<close> and \<^verbatim>\<open>shmtest.c\<close>, over all interleavings of their processes and threads, what one may rely on when
  the other has got somewhere, what all of them have done at the end, and whether they get there; for the programs that
  only need the kernel to keep a documented promise (message queues, segment registers), that they reach their end
  with the promised output and leave the kernel as they found it; that vectored reads equal plain ones and
  \<^verbatim>\<open>recvmsg-flush.c\<close> equals \<^verbatim>\<open>recvmsg.c\<close> as far as the kernel sees them; that the directory parser reads back every
  directory; where a program does not do what it means to, a theorem that says exactly when (arrays indexed past
  their end, values that were never set, text written twice or lost, seconds after 2038, nanoseconds on big-endian
  machines, stale bytes in buffers, a robust list that misses its lock, a lock that is never recovered, closed
  descriptors that are polled again and again).

  \<^bold>\<open>Conventions.\<close> \<^verbatim>\<open>int\<close> variables are unbounded integers where the program only counts or prints
  them; conversions that change a value are written out (\<open>int32\<close>, \<open>size_t\<close>, \<open>signed_char\<close>, words in
  \<open>Wait_Status\<close> and \<open>Clock\<close>). Function arguments, whose order of evaluation C leaves open, are
  evaluated from left to right. Calls whose result the code ignores are made with \<open>do_call\<close>. An access
  to memory that another process or thread may change is a call; where the memory may not be there (\<open>access\<close> in
  \<open>Probe_Programs\<close>) its reply may be a signal. Array accesses that C leaves undefined end the run as \<open>Undefined\<close>. The arguments of a call that are
  constant structures (socket addresses, null pointers) are left out of it. What depends on the machine or the
  build is a parameter: addresses that are printed, the byte order, the sizes of \<^verbatim>\<open>long\<close> and of pointers, the macros
  the headers define (\<open>build\<close>), the bytes that lie in padding that was never set (\<open>junk\<close> in \<open>Time64\<close>), whether a division by zero traps, the exit status of a \<^verbatim>\<open>main\<close> without a value,
  the text of \<^verbatim>\<open>strerror\<close> (a reply). \<^verbatim>\<open>char\<close> is signed where the sign matters.

  In an interleaving the calls are the atomic steps: two of them do not overlap, and a call that another party has to
  enable (a join, a read of an empty socket) is completed only then.

  \<^bold>\<open>Bounds.\<close> None is chosen: the only limits are those of the code (20 threads, 8192 bytes of directory) and of
  the kernel's encodings. Runs that never end are covered by their finite prefixes, which end as \<open>Blocked\<close>.

  \<^bold>\<open>Not modelled\<close>: makefiles, the container file and the scripts that start the programs. The contents of
  \<^verbatim>\<open>struct termios\<close>, and the C library's own use of FS while \<^verbatim>\<open>arch_prctl.c\<close> has changed it, are left out of the calls that carry them.
\<close>

subsection \<open>Reports of wait statuses\<close>

text \<open>C38. From the end of a child to the line its parent prints, through the kernel's encoding and the
  status macros: an exit code is reported modulo 256, a signal and a stop by their numbers, and a
  continuation as such.\<close>

theorem report_of_child_end:
  assumes "0 < k" "k < 127" "0 < j" "j < 256"
  shows "printed (snd (report_status who (exit_status n) s)) = printed s @ who @ ''exited, status='' @ fmt_d (n mod 256) @ ''\<newline>'' \<and>
    printed (snd (report_status who (signal_status k core) s)) = printed s @ who @ ''killed by signal '' @ fmt_d k @ ''\<newline>'' \<and>
    printed (snd (report_status who (stop_status j) s)) = printed s @ who @ ''stopped by signal '' @ fmt_d j @ ''\<newline>'' \<and>
    printed (snd (report_status who continued_status s)) = printed s @ who @ ''continued\<newline>''"
  using assms by (simp add: report_status_def status_text_kinds run_simps obs_simps)

theorem report_of_child_end_witness:
  "printed (snd (report_status ''childpid '' (signal_status 9 False) (start Unbuffered []))) =
    ''childpid killed by signal 9\<newline>''"
  using report_of_child_end [of 9 1 "''childpid ''" 0 "start Unbuffered []" False]
  by (simp add: obs_simps fmt_d_def fmt_u_def radix.simps)

text \<open>C31. The wait loops of eight programs, on whatever words the kernel stores as statuses: such a loop ends at the
  first status whose low seven bits are not all set, and waits for ever as long as there is none; it makes one
  \<^verbatim>\<open>waitpid\<close> per status, and prints for each the line that arithmetic on the number gives: an exit code from bits
  8 to 15, a killing signal from the low seven bits, a stopping signal from bits 8 to 15, a continuation for 65535 only,
  and nothing for any other word.\<close>

theorem wait_loops_decode:
  assumes "(loop, pid) \<in> {(fork_wait p, p), (serialfork_wait p, p), (parallelfork_wait p, p), (forkexec_wait p, p),
      (multiforkexec_wait p, p), (ct_wait p, p), (tree_wait, 0), (sample_wait, 0)}"
    and "\<forall>w \<in> set ws. rv w \<noteq> -1 \<and> uint (wstat w) mod 128 = 127"
  shows "(\<forall>r rest. answers s = ws @ r # rest \<and> rv r \<noteq> -1 \<and> uint (wstat r) mod 128 \<noteq> 127 \<longrightarrow>
      (\<exists>s'. loop s = (Ret (), s') \<and> answers s' = rest \<and> calls s' = calls s @ map (Pair (Waitpid pid WAIT_OPTS)) (ws @ [r]) \<and>
        printed s' = printed s @ concat (map (\<lambda>x. decoded [] (uint (wstat x))) (ws @ [r])))) \<and>
    (answers s = ws \<longrightarrow> (\<exists>s'. loop s = (Blocked (Waitpid pid WAIT_OPTS), s') \<and>
      printed s' = printed s @ concat (map (\<lambda>x. decoded [] (uint (wstat x))) ws)))"
proof -
  have live: "\<And>w. w \<in> set ws \<Longrightarrow> live w"
    using assms(2) by (simp add: live_def terminal_mod)
  obtain on_fail where "wait_loop (reported []) (\<lambda>r. status_text [] (wstat r)) loop pid WAIT_OPTS on_fail"
    using assms(1) fork_wl.wait_loop_axioms serialfork_wl.wait_loop_axioms parallelfork_wl.wait_loop_axioms
      forkexec_wl.wait_loop_axioms multiforkexec_wl.wait_loop_axioms ct_wl.wait_loop_axioms tree_wl.wait_loop_axioms
      sample_wl.wait_loop_axioms by blast
  note wl = wait_loop.returns [OF this _ live, of s ws] wait_loop.waits [OF this, of s]
  show ?thesis
    using wl live by (fastforce simp: dead_def terminal_mod obs_simps status_text_decoded)
qed

theorem wait_loops_decode_witness:
  "\<exists>s'. fork_wait 40 (start Unbuffered ([(rep 40)\<lparr>wstat := 0x137f\<rparr>] @ (rep 40)\<lparr>wstat := 0x8b\<rparr> # [])) = (Ret (), s') \<and>
    printed s' = ''stopped by signal 19\<newline>killed by signal 11\<newline>''"
proof -
  let ?w = "(rep 40)\<lparr>wstat := 0x137f\<rparr>" and ?r = "(rep 40)\<lparr>wstat := 0x8b\<rparr>"
  have d: "decoded [] 4991 = ''stopped by signal 19\<newline>''" "decoded [] 139 = ''killed by signal 11\<newline>''"
    by code_simp+
  show ?thesis
    using wait_loops_decode [of "fork_wait 40" 40 40 "[?w]" "start Unbuffered ([?w] @ ?r # [])"]
    by (auto simp: obs_simps d)
qed

subsection \<open>The processes of \<^verbatim>\<open>serialfork.c\<close> together\<close>

text \<open>Round \<open>k\<close> of the parent: its child \<open>p\<close> changes state as \<open>ws\<close> says and then ends with the status
  that \<^verbatim>\<open>exit(k)\<close> leaves.\<close>

definition child_rounds :: "(int \<times> reply list) list \<Rightarrow> round list" where
  "child_rounds pws = map (\<lambda>(k, p, ws). (rep p, ws, exited_with p (int k))) (enumerate 0 pws)"

lemma child_rounds_good:
  assumes "list_all (\<lambda>(p, ws). p > 0 \<and> list_all live ws) pws"
  shows "list_all good_round (child_rounds pws)"
  using assms by (fastforce simp: child_rounds_def list_all_iff good_round_def in_set_enumerate_eq
      intro!: dead_exited dest!: nth_mem split: prod.splits)

text \<open>C8. \<^verbatim>\<open>serialfork.c\<close>, parent and children, for every number of forks, every buffering mode and every
  sequence of stops and continuations: child \<open>k\<close> exits with \<open>k\<close> after writing only its own three lines,
  with the variables as the parent had them; the parent makes one \<^verbatim>\<open>fork\<close> and one complete wait per
  child, in turn, reports the code of child \<open>k\<close> as \<open>k\<close> modulo 256, never sees a child's changes to its
  variables, and exits 0.\<close>

theorem serialfork_system:
  assumes "rv h \<noteq> 0" "numforks_arg argv = int (length pws)" "length is = 6"
    and "list_all (\<lambda>(p, ws). p > 0 \<and> list_all live ws) pws"
  shows "(\<forall>k < length pws. \<exists>s'.
      serialfork_main argv (start m (h # concat (map round_replies (take k (child_rounds pws))) @ rep 0 # is)) =
        (Exited (int k), s') \<and>
      own s' = child_text (''Child '' @ fmt_d (int k) @ '': '') is (if k = 0 then initial_vars else parent_vars)) \<and>
    (\<exists>s'. serialfork_main argv (start m (h # concat (map round_replies (child_rounds pws)))) = (Exited 0, s') \<and>
      calls s' = (Malloc 32, h) # concat (map round_calls (child_rounds pws)) \<and>
      written s' = fork_header argv @ rounds_text initial_vars (child_rounds pws)) \<and>
    (\<forall>k < length pws. reports (child_rounds pws ! k) =
      concat (map (\<lambda>r. status_text [] (wstat r)) (snd (pws ! k))) @ ''exited, status='' @ fmt_d (int k mod 256) @ ''\<newline>'')"
proof (intro conjI allI impI)
  note good = child_rounds_good [OF assms(4)]
  have len: "length (child_rounds pws) = length pws"
    by (simp add: child_rounds_def)
  fix k
  assume k: "k < length pws"
  then have "list_all good_round (take k (child_rounds pws))" "int (length (take k (child_rounds pws))) < numforks_arg argv"
    using good assms(2) by (auto simp: list_all_iff len dest: in_set_takeD)
  from serialfork_child_run [OF assms(1) this, of "rep 0" "is" m] k len assms(3)
  show "\<exists>s'. serialfork_main argv (start m (h # concat (map round_replies (take k (child_rounds pws))) @ rep 0 # is)) =
        (Exited (int k), s') \<and>
      own s' = child_text (''Child '' @ fmt_d (int k) @ '': '') is (if k = 0 then initial_vars else parent_vars)"
    by (auto simp: min_def)
  show "reports (child_rounds pws ! k) =
      concat (map (\<lambda>r. status_text [] (wstat r)) (snd (pws ! k))) @ ''exited, status='' @ fmt_d (int k mod 256) @ ''\<newline>''"
    using k by (cases "pws ! k") (simp add: child_rounds_def reports_def nth_enumerate_eq status_text_kinds)
next
  show "\<exists>s'. serialfork_main argv (start m (h # concat (map round_replies (child_rounds pws)))) = (Exited 0, s') \<and>
      calls s' = (Malloc 32, h) # concat (map round_calls (child_rounds pws)) \<and>
      written s' = fork_header argv @ rounds_text initial_vars (child_rounds pws)"
    using serialfork_parent_run [OF assms(1) child_rounds_good [OF assms(4)], of argv m] assms(2)
    by (auto simp: child_rounds_def)
qed

theorem serialfork_system_witness:
  "\<exists>s'. serialfork_main [''serialfork'', ''1''] (start FullyBuffered (rep 4096 # concat (map round_replies
      (child_rounds [(31, [(rep 31)\<lparr>wstat := continued_status\<rparr>])])))) = (Exited 0, s')"
proof -
  have "numforks_arg [''serialfork'', ''1''] = int (length [(31 :: int, [(rep 31)\<lparr>wstat := continued_status\<rparr>])])"
    by (simp add: numforks_arg_def argc_def) code_simp
  from serialfork_system [OF _ this, of "rep 4096" "replicate 6 (rep 1)" FullyBuffered] show ?thesis
    by (auto simp: live_continued)
qed

end
